(* ===== verification/Prelude.thy ===== *)
theory Prelude
  imports Main "HOL-Library.Word" "HOL-Library.List_Lexorder" "HOL-Library.Char_ord"
begin

text \<open>
  Shared vocabulary of the development: machine integer widths, byte strings, the exceptions
  the modelled C++ standard library calls throw, decimal printing and parsing as
  \<^verbatim>\<open>operator<<\<close>, \<^verbatim>\<open>operator>>\<close> and \<^verbatim>\<open>std::stoul\<close> do it, and
  searching in strings.
  Byte strings (\<^verbatim>\<open>std::string\<close>, \<^verbatim>\<open>const char*\<close> with a size) are HOL strings: a
  \<^typ>\<open>char\<close> is one byte.
\<close>

named_theorems wire_simps \<open>the layers between a stream and the buffered writer of its connection\<close>

unbundle bit_operations_syntax

type_synonym u8 = "8 word"
type_synonym u16 = "16 word"
type_synonym u32 = "32 word"
type_synonym u64 = "64 word"
type_synonym bytes = string

section \<open>Exceptions as values\<close>

datatype exn = Invalid_argument | Out_of_range | Bad_function_call

type_synonym 'a result = "exn + 'a"

definition rbind :: "'a result \<Rightarrow> ('a \<Rightarrow> 'b result) \<Rightarrow> 'b result" where
  "rbind m f = (case m of Inl e \<Rightarrow> Inl e | Inr x \<Rightarrow> f x)"

lemma rbind_simps [simp]:
  "rbind (Inl e) f = Inl e"
  "rbind (Inr x) f = f x"
  by (simp_all add: rbind_def)

lemma rbind_Inr_iff: "rbind m f = Inr y \<longleftrightarrow> (\<exists>x. m = Inr x \<and> f x = Inr y)"
  by (cases m) auto

section \<open>Bytes\<close>

definition byte_of :: "u8 \<Rightarrow> char" where
  "byte_of b = char_of (unat b)"

definition of_byte :: "char \<Rightarrow> u8" where
  "of_byte c = of_nat (of_char c)"

lemma of_char_less [simp]: "(of_char c :: nat) < 256"
  by (metis char_of_char of_char_of mod_less_divisor zero_less_numeral)

lemma of_byte_of [simp]: "of_byte (byte_of b) = b"
proof -
  have "unat b < 256" using unsigned_less [of b, where ?'a = nat] by simp
  then show ?thesis by (simp add: of_byte_def byte_of_def)
qed

lemma unat_of_byte [simp]: "unat (of_byte c) = of_char c"
  by (simp add: of_byte_def unat_of_nat)

lemma byte_of_byte [simp]: "byte_of (of_byte c) = c"
  by (simp add: byte_of_def)

text \<open>Network byte order of a 16 bit value (\<^verbatim>\<open>htons\<close> and the copy of its two bytes).\<close>

definition be16 :: "u16 \<Rightarrow> bytes" where
  "be16 w = [char_of (unat w div 256), char_of (unat w mod 256)]"

definition ntoh16 :: "char \<Rightarrow> char \<Rightarrow> u16" where
  "ntoh16 a b = of_nat (256 * of_char a + of_char b)"

lemma length_be16 [simp]: "length (be16 w) = 2"
  by (simp add: be16_def)

lemma ntoh16_be16: "be16 w = [a, b] \<Longrightarrow> ntoh16 a b = w"
proof -
  assume "be16 w = [a, b]"
  then have a: "a = char_of (unat w div 256)" and b: "b = char_of (unat w mod 256)"
    by (auto simp: be16_def)
  have "unat w < 65536" using unsigned_less [of w, where ?'a = nat] by simp
  then have "unat w div 256 < 256" by simp
  then have "256 * of_char a + of_char b = unat w"
    by (simp add: a b)
  then show ?thesis by (simp add: ntoh16_def)
qed

lemma be16_ntoh16: "be16 (ntoh16 a b) = [a, b]"
proof -
  have "of_char a < (256 :: nat)" "of_char b < (256 :: nat)" by simp_all
  then have "256 * of_char a + of_char b < (65536 :: nat)" by linarith
  then have "unat (ntoh16 a b) = 256 * of_char a + of_char b"
    unfolding ntoh16_def by (intro of_nat_inverse [OF refl]) simp
  then show ?thesis by (simp add: be16_def)
qed

lemma ntoh16_be16_simp [simp]:
  "ntoh16 (char_of (unat w div 256)) (char_of (unat w)) = w"
  by (rule ntoh16_be16) (simp add: be16_def)

section \<open>Decimal numbers\<close>

definition digit_char :: "nat \<Rightarrow> char" where
  "digit_char d = char_of (48 + d)"

definition is_digit :: "char \<Rightarrow> bool" where
  "is_digit c \<longleftrightarrow> 48 \<le> (of_char c :: nat) \<and> (of_char c :: nat) \<le> 57"

definition digit_val :: "char \<Rightarrow> nat" where
  "digit_val c = of_char c - 48"

fun show_dec :: "nat \<Rightarrow> string" where
  "show_dec n = (if n < 10 then [digit_char n] else show_dec (n div 10) @ [digit_char (n mod 10)])"

declare show_dec.simps [simp del]

definition dec_val :: "string \<Rightarrow> nat" where
  "dec_val s = foldl (\<lambda>n c. 10 * n + digit_val c) 0 s"

lemma digit_char_props:
  assumes "d < 10"
  shows "is_digit (digit_char d)" "digit_val (digit_char d) = d"
  using assms by (simp_all add: is_digit_def digit_val_def digit_char_def)

lemma show_dec_nonempty [simp]: "show_dec n \<noteq> []"
  by (subst show_dec.simps) simp

lemma show_dec_digits: "c \<in> set (show_dec n) \<Longrightarrow> is_digit c"
proof (induction n rule: show_dec.induct)
  case (1 n)
  show ?case
  proof (cases "n < 10")
    case True
    with "1.prems" show ?thesis by (simp add: show_dec.simps [of n] digit_char_props)
  next
    case False
    with "1.prems" have "c \<in> set (show_dec (n div 10)) \<or> c = digit_char (n mod 10)"
      by (auto simp: show_dec.simps [of n])
    with "1.IH" False show ?thesis by (auto simp: digit_char_props)
  qed
qed

lemma dec_val_snoc: "dec_val (s @ [c]) = 10 * dec_val s + digit_val c"
  by (simp add: dec_val_def)

lemma dec_val_show_dec [simp]: "dec_val (show_dec n) = n"
proof (induction n rule: show_dec.induct)
  case (1 n)
  show ?case
  proof (cases "n < 10")
    case True
    then show ?thesis by (simp add: show_dec.simps [of n] dec_val_def digit_char_props)
  next
    case False
    with "1.IH" show ?thesis
      by (simp add: show_dec.simps [of n] dec_val_snoc digit_char_props)
  qed
qed

section \<open>Input streams over a string\<close>

text \<open>
  \<^verbatim>\<open>std::istringstream\<close>: the characters not read yet, and whether failbit is clear.
  A \<^verbatim>\<open>>>\<close> on a failed stream changes nothing. Numbers follow \<^verbatim>\<open>num_get\<close> for an unsigned
  type: white space is skipped, a sign is accepted (a minus wraps), no digits gives 0 and
  failbit, a value out of range gives the largest value and failbit.
\<close>

record istream =
  is_rest :: string
  is_ok :: bool

definition istream_of :: "string \<Rightarrow> istream" where
  "istream_of s = \<lparr>is_rest = s, is_ok = True\<rparr>"

definition is_space :: "char \<Rightarrow> bool" where
  "is_space c \<longleftrightarrow> (of_char c :: nat) = 32 \<or> (9 \<le> (of_char c :: nat) \<and> (of_char c :: nat) \<le> 13)"

definition skip_ws :: "string \<Rightarrow> string" where
  "skip_ws s = dropWhile is_space s"

definition split_sign :: "string \<Rightarrow> bool \<times> string" where
  "split_sign s = (case s of [] \<Rightarrow> (False, [])
     | c # r \<Rightarrow> if c = CHR ''-'' then (True, r) else if c = CHR ''+'' then (False, r) else (False, s))"

definition read_unsigned :: "nat \<Rightarrow> nat \<Rightarrow> istream \<Rightarrow> nat \<times> istream" where
  "read_unsigned w v st =
     (if \<not> is_ok st then (v, st)
      else let s = skip_ws (is_rest st) in
        if s = [] then (v, \<lparr>is_rest = [], is_ok = False\<rparr>)
        else let (neg, s1) = split_sign s; ds = takeWhile is_digit s1;
                 r = dropWhile is_digit s1; n = dec_val ds in
          if ds = [] then (0, \<lparr>is_rest = r, is_ok = False\<rparr>)
          else if 2 ^ w \<le> n then (2 ^ w - 1, \<lparr>is_rest = r, is_ok = False\<rparr>)
          else ((if neg then (2 ^ w - n) mod 2 ^ w else n), \<lparr>is_rest = r, is_ok = True\<rparr>))"

definition read_word :: "string \<Rightarrow> istream \<Rightarrow> string \<times> istream" where
  "read_word v st =
     (if \<not> is_ok st then (v, st)
      else let s = skip_ws (is_rest st) in
        if s = [] then (v, \<lparr>is_rest = [], is_ok = False\<rparr>)
        else (takeWhile (\<lambda>c. \<not> is_space c) s,
              \<lparr>is_rest = dropWhile (\<lambda>c. \<not> is_space c) s, is_ok = True\<rparr>))"

text \<open>\<^verbatim>\<open>std::stoul\<close>: as \<^verbatim>\<open>strtoul\<close> in base 10, with its two exceptions.\<close>

definition stoul :: "string \<Rightarrow> u64 result" where
  "stoul str =
     (let (neg, s1) = split_sign (skip_ws str); ds = takeWhile is_digit s1; n = dec_val ds in
        if ds = [] then Inl Invalid_argument
        else if 2 ^ 64 \<le> n then Inl Out_of_range
        else Inr (if neg then - of_nat n else of_nat n))"

lemma digit_not_space: "is_digit c \<Longrightarrow> \<not> is_space c"
  by (auto simp: is_digit_def is_space_def)

lemma is_digit_noteq:
  "is_digit c \<Longrightarrow> c \<noteq> CHR ''-''" "is_digit c \<Longrightarrow> c \<noteq> CHR ''+''"
  "is_digit c \<Longrightarrow> c \<noteq> CHR ''.''" "is_digit c \<Longrightarrow> c \<noteq> CHR '',''"
  "is_digit c \<Longrightarrow> c \<noteq> CHR '' ''" "is_digit c \<Longrightarrow> c \<noteq> CHR ''|''"
  by (auto simp: is_digit_def)

lemma show_dec_Cons: "\<exists>c r. show_dec n = c # r \<and> is_digit c"
proof -
  obtain c r where cr: "show_dec n = c # r" by (cases "show_dec n") auto
  then have "is_digit c" using show_dec_digits [of c n] by simp
  with cr show ?thesis by blast
qed

lemma skip_ws_show_dec [simp]: "skip_ws (show_dec n @ r) = show_dec n @ r"
  using show_dec_Cons [of n] by (auto simp: skip_ws_def digit_not_space)

lemma split_sign_show_dec [simp]: "split_sign (show_dec n @ r) = (False, show_dec n @ r)"
  using show_dec_Cons [of n] by (auto simp: split_sign_def is_digit_noteq)

lemma takeWhile_show_dec:
  "r = [] \<or> \<not> is_digit (hd r) \<Longrightarrow> takeWhile is_digit (show_dec n @ r) = show_dec n"
  by (cases r) (auto simp: takeWhile_append2 show_dec_digits)

lemma dropWhile_show_dec:
  "r = [] \<or> \<not> is_digit (hd r) \<Longrightarrow> dropWhile is_digit (show_dec n @ r) = r"
  by (cases r) (auto simp: dropWhile_append2 show_dec_digits)

lemma skip_ws_spaces: "list_all is_space ws \<Longrightarrow> skip_ws (ws @ s) = skip_ws s"
  by (induction ws) (auto simp: skip_ws_def)

lemma read_unsigned_show_dec:
  assumes "list_all is_space ws" "r = [] \<or> \<not> is_digit (hd r)" "n < 2 ^ w"
  shows "read_unsigned w v \<lparr>is_rest = ws @ show_dec n @ r, is_ok = True\<rparr>
           = (n, \<lparr>is_rest = r, is_ok = True\<rparr>)"
  using assms by (simp add: read_unsigned_def skip_ws_spaces takeWhile_show_dec
      dropWhile_show_dec Let_def)

lemma stoul_show_dec:
  assumes "r = [] \<or> \<not> is_digit (hd r)" "n < 2 ^ 64"
  shows "stoul (show_dec n @ r) = Inr (of_nat n)"
  using assms by (simp add: stoul_def takeWhile_show_dec)

lemma read_word_word:
  assumes "list_all is_space ws" "x \<noteq> []" "list_all (\<lambda>c. \<not> is_space c) x" "r = [] \<or> is_space (hd r)"
  shows "read_word v \<lparr>is_rest = ws @ x @ r, is_ok = True\<rparr> = (x, \<lparr>is_rest = r, is_ok = True\<rparr>)"
proof -
  obtain c y where x: "x = c # y" and c: "\<not> is_space c" using assms by (cases x) auto
  have s: "skip_ws (ws @ x @ r) = x @ r"
    using assms(1) x c by (simp add: skip_ws_spaces) (simp add: skip_ws_def)
  have t: "takeWhile (\<lambda>c. \<not> is_space c) (x @ r) = x" "dropWhile (\<lambda>c. \<not> is_space c) (x @ r) = r"
    using assms(3,4) by (cases r; auto simp: takeWhile_append2 dropWhile_append2 list_all_iff)+
  show ?thesis using assms(2) by (simp add: read_word_def s t)
qed

section \<open>Searching in strings\<close>

text \<open>\<^verbatim>\<open>s.find(c, pos)\<close>; \<^const>\<open>None\<close> is \<^verbatim>\<open>npos\<close>.\<close>

fun find_char :: "char \<Rightarrow> string \<Rightarrow> nat option" where
  "find_char c [] = None"
| "find_char c (x # xs) = (if x = c then Some 0 else map_option Suc (find_char c xs))"

definition find_char_from :: "char \<Rightarrow> nat \<Rightarrow> string \<Rightarrow> nat option" where
  "find_char_from c pos s = map_option (\<lambda>i. i + pos) (find_char c (drop pos s))"

text \<open>\<^verbatim>\<open>s.find(prefix) == 0\<close>.\<close>

definition has_prefix :: "string \<Rightarrow> string \<Rightarrow> bool" where
  "has_prefix p s \<longleftrightarrow> take (length p) s = p"

lemma find_char_append: "c \<notin> set a \<Longrightarrow> find_char c (a @ c # b) = Some (length a)"
  by (induction a) auto

lemma find_char_None_iff: "find_char c s = None \<longleftrightarrow> c \<notin> set s"
  by (induction s) auto

lemma has_prefix_append [simp]: "has_prefix p (p @ s)"
  by (simp add: has_prefix_def)

end
