(* ===== verification/Wire.thy ===== *)
theory Wire
  imports Prelude
begin

text \<open>
  The wire format between peers: \<^verbatim>\<open>common/DataBuffer\<close> (a view of bytes not consumed yet),
  \<^verbatim>\<open>peer_server/PacketParser\<close> (takes one frame off such a view) and
  \<^verbatim>\<open>peer_client/MessagePacker\<close> (builds a frame). A frame is a two byte length in network
  order that counts the id byte, the id byte, and the payload. The locale \<open>framing\<close> is the
  contract between the two sides; both producers of frames in the program are instances.
\<close>

section \<open>DataBuffer\<close>

text \<open>
  The pointer and the size together are the bytes still in view; \<open>db_null\<close> says that the
  pointer is NULL, which \<^verbatim>\<open>Command::run\<close> tests.
\<close>

record data_buffer =
  db_bytes :: bytes
  db_null :: bool

definition DataBuffer :: "bytes \<Rightarrow> data_buffer" where
  "DataBuffer buff = \<lparr>db_bytes = buff, db_null = False\<rparr>"

definition db_Null :: data_buffer where
  "db_Null = \<lparr>db_bytes = [], db_null = True\<rparr>"

definition db_str :: "data_buffer \<Rightarrow> string" where
  "db_str b = db_bytes b"

definition db_size :: "data_buffer \<Rightarrow> nat" where
  "db_size b = length (db_bytes b)"

definition db_skip :: "nat \<Rightarrow> data_buffer \<Rightarrow> data_buffer" where
  "db_skip n b = (let n' = (if n > db_size b then db_size b else n)
     in b\<lparr>db_bytes := drop n' (db_bytes b)\<rparr>)"

definition db_read :: "nat \<Rightarrow> data_buffer \<Rightarrow> string \<times> data_buffer" where
  "db_read n b = (let n' = (if n > db_size b then db_size b else n)
     in (take n' (db_bytes b), b\<lparr>db_bytes := drop n' (db_bytes b)\<rparr>))"

lemma db_simps [simp]:
  "db_bytes (DataBuffer s) = s" "db_null (DataBuffer s) = False"
  "db_size (DataBuffer s) = length s"
  by (simp_all add: DataBuffer_def db_size_def)

lemma db_skip_bytes [simp]: "db_bytes (db_skip n b) = drop n (db_bytes b)"
  by (simp add: db_skip_def db_size_def Let_def)

lemma db_skip_null [simp]: "db_null (db_skip n b) = db_null b"
  by (simp add: db_skip_def Let_def)

lemma db_skip_DataBuffer [simp]: "db_skip n (DataBuffer s) = DataBuffer (drop n s)"
  by (rule data_buffer.equality) simp_all

lemma db_skip_size: "db_size (db_skip n b) = db_size b - n"
  by (simp add: db_size_def)

text \<open>Successive reads return consecutive pieces and never run past the end.\<close>

fun db_reads :: "nat list \<Rightarrow> data_buffer \<Rightarrow> string list \<times> data_buffer" where
  "db_reads [] b = ([], b)"
| "db_reads (n # ns) b = (let (s, b') = db_read n b; (ss, b'') = db_reads ns b' in (s # ss, b''))"

lemma db_read_split:
  "db_read n b = (s, b') \<Longrightarrow> s @ db_bytes b' = db_bytes b \<and> length s = min n (db_size b)"
  by (auto simp: db_read_def db_size_def Let_def split: if_splits)

lemma db_reads_split:
  "db_reads ns b = (ss, b') \<Longrightarrow> concat ss @ db_bytes b' = db_bytes b"
proof (induction ns arbitrary: b ss)
  case Nil
  then show ?case by simp
next
  case (Cons n ns)
  obtain s b1 where r: "db_read n b = (s, b1)" by (cases "db_read n b")
  obtain ss1 where rs: "db_reads ns b1 = (ss1, b')" and ss: "ss = s # ss1"
    using Cons.prems r by (auto split: prod.splits)
  from Cons.IH [OF rs] db_read_split [OF r] ss show ?case by simp
qed

section \<open>PacketParser\<close>

text \<open>
  \<^verbatim>\<open>getNext\<close>. The result is the view after the call and, for a return value of true, the id
  and the view of the payload. A length field of 0 wraps to 65535, as the unsigned short does.
  With \<^const>\<open>None\<close> the header may already have been consumed.
\<close>

definition getNext :: "data_buffer \<Rightarrow> data_buffer \<times> (u8 \<times> data_buffer) option" where
  "getNext b =
     (if db_size b < 3 then (b, None)
      else let len = ntoh16 (db_bytes b ! 0) (db_bytes b ! 1) - 1;
               b1 = db_skip 2 b;
               virtid = of_byte (hd (db_bytes b1));
               b2 = db_skip 1 b1
        in if db_size b2 < unat len then (b2, None)
           else (db_skip (unat len) b2,
                 Some (virtid, DataBuffer (take (unat len) (db_bytes b2)))))"

lemma getNext_consumes:
  "getNext b = (b', Some p) \<Longrightarrow> db_size b' < db_size b"
  by (auto simp: getNext_def db_skip_size Let_def split: if_splits)

text \<open>The frames a receive buffer yields: the loop of \<^verbatim>\<open>PeerCommandRunner::parseAndRun\<close>.\<close>

function packets :: "data_buffer \<Rightarrow> (u8 \<times> data_buffer) list" where
  "packets b =
     (if db_size b = 0 then []
      else case getNext b of
        (b', None) \<Rightarrow> []
      | (b', Some p) \<Rightarrow> p # packets b')"
  by pat_completeness auto
termination
  by (relation "measure db_size") (auto dest: getNext_consumes sym)

declare packets.simps [simp del]

section \<open>MessagePacker\<close>

text \<open>\<^verbatim>\<open>pack\<close> overwrites the first bytes of a buffer; \<^verbatim>\<open>size+1\<close> is cut to 16 bits.\<close>

definition pack :: "bytes \<Rightarrow> u8 \<Rightarrow> bytes \<Rightarrow> bytes" where
  "pack buffer i packet =
     (let netlen = be16 (of_nat (length packet) + 1);
          out = netlen @ [byte_of i] @ packet
      in out @ drop (length out) buffer)"

definition package :: "u8 \<Rightarrow> bytes \<Rightarrow> bytes" where
  "package i packet = pack (replicate (length packet + 3) (char_of (0::nat))) i packet"

lemma package_eq: "package i p = be16 (of_nat (length p) + 1) @ byte_of i # p"
  by (simp add: package_def pack_def Let_def be16_def)

lemma length_package [simp]: "length (package i p) = length p + 3"
  by (simp add: package_eq)

lemma getNext_package:
  assumes "length p \<le> 65535"
  shows "getNext (DataBuffer (package i p @ rest)) = (DataBuffer rest, Some (i, DataBuffer p))"
proof -
  have "(of_nat (length p) + 1 - 1 :: u16) = of_nat (length p)" by simp
  moreover have "unat (of_nat (length p) :: u16) = length p"
    using assms by (simp add: unat_of_nat)
  ultimately show ?thesis
    by (simp add: getNext_def package_eq be16_def Let_def)
qed

section \<open>The framing contract\<close>

text \<open>
  What the receiving loop relies on: a frame followed by anything is taken off whole, for
  payloads up to the limit.
\<close>

locale framing =
  fixes frame :: "u8 \<Rightarrow> bytes \<Rightarrow> bytes"
    and limit :: nat
  assumes frame_nonempty: "frame i p \<noteq> []"
    and getNext_frame: "length p \<le> limit \<Longrightarrow>
      getNext (DataBuffer (frame i p @ rest)) = (DataBuffer rest, Some (i, DataBuffer p))"
begin

lemma packets_frame:
  assumes "length p \<le> limit"
  shows "packets (DataBuffer (frame i p @ rest)) = (i, DataBuffer p) # packets (DataBuffer rest)"
  using assms frame_nonempty by (subst packets.simps) (simp add: getNext_frame)

lemma packets_concat:
  assumes "\<forall>(i, p) \<in> set fs. length p \<le> limit"
  shows "packets (DataBuffer (concat (map (\<lambda>(i, p). frame i p) fs) @ rest))
           = map (\<lambda>(i, p). (i, DataBuffer p)) fs @ packets (DataBuffer rest)"
  using assms
proof (induction fs)
  case Nil
  then show ?case by simp
next
  case (Cons f fs)
  obtain i p where f: "f = (i, p)" by (cases f)
  with Cons show ?case by (simp add: packets_frame)
qed

lemma frames_unique:
  assumes "\<forall>(i, p) \<in> set fs. length p \<le> limit" "\<forall>(i, p) \<in> set gs. length p \<le> limit"
    and "concat (map (\<lambda>(i, p). frame i p) fs) = concat (map (\<lambda>(i, p). frame i p) gs)"
  shows "fs = gs"
proof -
  have inj: "inj (\<lambda>(i, p). (i :: u8, DataBuffer p))"
    by (auto simp: inj_def DataBuffer_def)
  have "packets (DataBuffer (concat (map (\<lambda>(i, p). frame i p) fs) @ []))
      = packets (DataBuffer (concat (map (\<lambda>(i, p). frame i p) gs) @ []))"
    using assms(3) by simp
  then have "map (\<lambda>(i, p). (i, DataBuffer p)) fs = map (\<lambda>(i, p). (i, DataBuffer p)) gs"
    unfolding packets_concat [OF assms(1)] packets_concat [OF assms(2)] by simp
  then show ?thesis using inj by (simp add: inj_map_eq_map)
qed

end

text \<open>A frame that is not complete yet yields nothing: the loop stops there.\<close>

lemma getNext_short: "length s < 3 \<Longrightarrow> getNext (DataBuffer s) = (DataBuffer s, None)"
  by (simp add: getNext_def)

lemma getNext_truncated:
  assumes "length p \<le> 65535" "n < length p + 3"
  shows "snd (getNext (DataBuffer (take n (package i p)))) = None"
proof (cases "n < 3")
  case True
  then show ?thesis by (simp add: getNext_short)
next
  case False
  then obtain m where n: "n = Suc (Suc (Suc m))"
    using that [of "n - 3"] by simp
  have "unat (of_nat (length p) :: u16) = length p"
    using assms(1) by (simp add: unat_of_nat)
  then show ?thesis
    using assms(2) n by (simp add: getNext_def package_eq be16_def Let_def)
qed

text \<open>What is taken off is what a frame of it would be: also for a length field of 0.\<close>

lemma getNext_frames:
  assumes "getNext b = (b', Some (i, d))"
  shows "db_bytes b = package i (db_bytes d) @ db_bytes b'" "length (db_bytes d) \<le> 65535"
proof -
  obtain x y z s where b: "db_bytes b = x # y # z # s"
  proof -
    have "3 \<le> length (db_bytes b)" using assms by (simp add: getNext_def db_size_def split: if_splits)
    then show thesis using that by (auto simp: numeral_3_eq_3 Suc_le_length_iff)
  qed
  let ?len = "unat (ntoh16 x y - 1)"
  have g: "?len \<le> length s" "i = of_byte z" "db_bytes d = take ?len s" "db_bytes b' = drop ?len s"
    using assms b by (auto simp: getNext_def db_size_def Let_def split: if_splits)
  have len: "?len \<le> 65535" using unsigned_less [of "ntoh16 x y - 1", where ?'a = nat] by simp
  then show "length (db_bytes d) \<le> 65535" using g(1,3) by simp
  have "of_nat (length (db_bytes d)) + 1 = ntoh16 x y" using g(1,3) by simp
  then show "db_bytes b = package i (db_bytes d) @ db_bytes b'"
    using b g by (simp add: package_eq be16_ntoh16)
qed

interpretation message: framing package 65535
  by unfold_locales (rule getNext_package | simp add: package_eq)+

section \<open>Properties\<close>

text \<open>
  C19. Round trip of the peer protocol's framing: the messages \<^verbatim>\<open>MessagePacker\<close> builds, sent
  one after the other and followed by an incomplete message, are parsed by the receiving loop
  into exactly those messages, ids and payloads, in order; nothing of the incomplete one is
  delivered. It holds up to the largest payload the 16 bit length field can stand for.
\<close>

theorem packed_messages_parse_back:
  assumes "\<forall>(i, p) \<in> set msgs. length p \<le> 65535"
    and "length q \<le> 65535" and "n < length q + 3"
  shows "packets (DataBuffer (concat (map (\<lambda>(i, p). package i p) msgs) @ take n (package j q)))
           = map (\<lambda>(i, p). (i, DataBuffer p)) msgs"
proof -
  let ?t = "DataBuffer (take n (package j q))"
  obtain b r where g: "getNext ?t = (b, r)" by (cases "getNext ?t")
  have "r = None" using getNext_truncated [OF assms(2,3), of j] g by simp
  then have "packets ?t = []" using g by (subst packets.simps) simp
  then show ?thesis by (simp add: message.packets_concat [OF assms(1)])
qed

theorem packed_messages_parse_back_witness:
  "packets (DataBuffer (concat (map (\<lambda>(i, p). package i p) [(7, ''ab''), (9, [])])
      @ take 4 (package 3 ''xyz'')))
    = [(7, DataBuffer ''ab''), (9, DataBuffer [])]"
  using packed_messages_parse_back [of "[(7, ''ab''), (9, [])]" "''xyz''" 4 3] by simp

text \<open>
  C20. Nothing a peer sends makes the parser read outside of the buffer or lose its place: for any bytes at all, the packets that
  the receiving loop finds, framed again and one after the other, are the beginning of the buffer, byte for byte; each payload
  has at most 65535 bytes, and what is left over is less than a frame.
\<close>

theorem any_buffer_is_accounted_for:
  "\<exists>rest. s = concat (map (\<lambda>(i, d). package i (db_bytes d)) (packets (DataBuffer s))) @ rest
     \<and> (\<forall>(i, d) \<in> set (packets (DataBuffer s)). length (db_bytes d) \<le> 65535) \<and> (rest = [] \<or> snd (getNext (DataBuffer rest)) = None)"
proof (induction "length s" arbitrary: s rule: less_induct)
  case less
  show ?case
  proof (cases "s = [] \<or> snd (getNext (DataBuffer s)) = None")
    case True
    then have "packets (DataBuffer s) = []" by (subst packets.simps) (auto split: prod.split)
    then show ?thesis using True by auto
  next
    case False
    then obtain b' i d where g: "getNext (DataBuffer s) = (b', Some (i, d))" by (metis option.exhaust prod.exhaust snd_conv)
    have b': "b' = DataBuffer (db_bytes b')"
      using g by (intro data_buffer.equality) (auto simp: getNext_def Let_def split: if_splits)
    have s: "s = package i (db_bytes d) @ db_bytes b'" "length (db_bytes d) \<le> 65535" using getNext_frames [OF g] by simp_all
    have ps: "packets (DataBuffer s) = (i, d) # packets (DataBuffer (db_bytes b'))"
      using False g b' by (subst packets.simps) simp
    have "length (db_bytes b') < length s" using s(1) by (simp add: package_eq)
    from less [OF this] obtain rest where
      "db_bytes b' = concat (map (\<lambda>(i, d). package i (db_bytes d)) (packets (DataBuffer (db_bytes b')))) @ rest"
      "\<forall>(i, d) \<in> set (packets (DataBuffer (db_bytes b'))). length (db_bytes d) \<le> 65535"
      "rest = [] \<or> snd (getNext (DataBuffer rest)) = None" by blast
    then show ?thesis using s ps by (intro exI [of _ rest]) simp
  qed
qed

theorem any_buffer_is_accounted_for_witness:
  "\<exists>rest. ''some bytes that are no frames'' = concat (map (\<lambda>(i, d). package i (db_bytes d)) (packets (DataBuffer ''some bytes that are no frames''))) @ rest"
  using any_buffer_is_accounted_for [of "''some bytes that are no frames''"] by blast

text \<open>
  The limit is exact: a payload of 65536 bytes is framed with a length field that has
  wrapped, and the parser takes it for an empty message of the same id, followed by the
  payload's own bytes read as frames.
\<close>

theorem oversized_message_is_misread:
  assumes "length p = 65536"
  shows "getNext (DataBuffer (package i p)) = (DataBuffer p, Some (i, DataBuffer []))"
proof -
  have "(of_nat (length p) :: u16) = 0" using assms by simp
  moreover have "ntoh16 (char_of (0::nat)) (char_of (Suc 0)) = 1"
    by (simp add: ntoh16_def)
  ultimately show ?thesis using assms by (simp add: getNext_def package_eq be16_def Let_def)
qed

theorem oversized_message_is_misread_witness:
  "getNext (DataBuffer (package 5 (replicate 65536 (CHR ''x''))))
     = (DataBuffer (replicate 65536 (CHR ''x'')), Some (5, DataBuffer []))"
  by (rule oversized_message_is_misread) (rule length_replicate)

end
