(* ===== verification/Keys.thy ===== *)
theory Keys
  imports Prelude
begin

text \<open>
  Names as numbers: \<^verbatim>\<open>hashing/Hash\<close>, the points of a Merkle tree in text form
  (\<^verbatim>\<open>common/MerklePoint\<close>) and the range of keys below a point (\<^verbatim>\<open>deskew/KeyRange\<close>). Keys are
  64 bit integers in host (little endian) order whose order in a tree is that of their bytes,
  so a range is an interval after swapping the bytes (\<^verbatim>\<open>htobe64\<close>).
\<close>

section \<open>Hash\<close>

text \<open>
  The hash function is set at run time in the code (\<^verbatim>\<open>Hash::init\<close>); base64 is turbolib's.
  \<open>he_overread\<close> stands for what \<^verbatim>\<open>integer\<close> reads when the hash has less than eight bytes,
  which is past its end.
\<close>

record hash_env =
  he_hasher :: "string \<Rightarrow> string"
  he_encode :: "string \<Rightarrow> string"
  he_decode :: "string \<Rightarrow> string"
  he_overread :: "string \<Rightarrow> u64"

type_synonym hash = string

definition Hash_init :: "(string \<Rightarrow> string) \<Rightarrow> hash_env \<Rightarrow> hash_env" where
  "Hash_init hasher env = env\<lparr>he_hasher := hasher\<rparr>"

definition Hash :: "hash_env \<Rightarrow> string \<Rightarrow> hash" where
  "Hash env input = he_hasher env input"

definition fromHash :: "string \<Rightarrow> hash" where
  "fromHash h = h"

definition fromBase64 :: "hash_env \<Rightarrow> string \<Rightarrow> hash" where
  "fromBase64 env encoded = he_decode env encoded"

definition hash_base64 :: "hash_env \<Rightarrow> hash \<Rightarrow> string" where
  "hash_base64 env h = he_encode env h"

definition hash_str :: "hash \<Rightarrow> string" where
  "hash_str h = h"

fun le_u64 :: "bytes \<Rightarrow> u64" where
  "le_u64 [] = 0"
| "le_u64 (c # cs) = of_nat (of_char c) + 256 * le_u64 cs"

definition hash_integer :: "hash_env \<Rightarrow> hash \<Rightarrow> u64" where
  "hash_integer env h = (if length h < 8 then he_overread env h else le_u64 (take 8 h))"

text \<open>The key of a name in the Merkle trees.\<close>

definition keyhash :: "hash_env \<Rightarrow> string \<Rightarrow> u64" where
  "keyhash env name = hash_integer env (Hash env name)"

section \<open>MerklePoint\<close>

record merkle_point =
  mp_key :: u64
  mp_keybits :: nat
  mp_hash :: u64

definition mp_toString :: "merkle_point \<Rightarrow> string" where
  "mp_toString p = show_dec (unat (mp_key p)) @ '' '' @ show_dec (mp_keybits p) @ '' ''
     @ show_dec (unat (mp_hash p))"

text \<open>
  \<open>kw\<close> is the width of the integer type of \<^verbatim>\<open>keybits\<close> in turbolib. The fields are assigned
  one after the other, so a failure in the middle leaves the earlier ones changed.
\<close>

definition mp_fromString :: "nat \<Rightarrow> merkle_point \<Rightarrow> string \<Rightarrow> bool \<times> merkle_point" where
  "mp_fromString kw p str =
     (let (key, st1) = read_unsigned 64 (unat (mp_key p)) (istream_of str);
          (keybits, st2) = read_unsigned kw (mp_keybits p) st1;
          (hsh, st3) = read_unsigned 64 (unat (mp_hash p)) st2
      in (is_ok st3, \<lparr>mp_key = of_nat key, mp_keybits = keybits, mp_hash = of_nat hsh\<rparr>))"

lemma unat_less_64 [simp]: "unat (x :: u64) < 18446744073709551616"
  using unsigned_less [of x, where ?'a = nat] by simp

lemma mp_fromString_toString:
  assumes "mp_keybits p < 2 ^ kw"
  shows "mp_fromString kw q (mp_toString p) = (True, p)"
proof -
  have sp: "list_all is_space '' ''" "\<not> is_digit (CHR '' '')"
    by (simp_all add: is_space_def is_digit_def)
  have 1: "read_unsigned 64 v (istream_of (mp_toString p)) = (unat (mp_key p),
      \<lparr>is_rest = '' '' @ show_dec (mp_keybits p) @ '' '' @ show_dec (unat (mp_hash p)), is_ok = True\<rparr>)" for v
    using read_unsigned_show_dec [of "[]" "'' '' @ show_dec (mp_keybits p) @ '' '' @ show_dec (unat (mp_hash p))"
        "unat (mp_key p)" 64 v] sp
    by (simp add: mp_toString_def istream_of_def)
  have 2: "read_unsigned kw v \<lparr>is_rest = '' '' @ show_dec (mp_keybits p) @ '' '' @ show_dec (unat (mp_hash p)), is_ok = True\<rparr>
      = (mp_keybits p, \<lparr>is_rest = '' '' @ show_dec (unat (mp_hash p)), is_ok = True\<rparr>)" for v
    using read_unsigned_show_dec [of "'' ''" "'' '' @ show_dec (unat (mp_hash p))" "mp_keybits p" kw v] sp assms
    by simp
  have 3: "read_unsigned 64 v \<lparr>is_rest = '' '' @ show_dec (unat (mp_hash p)), is_ok = True\<rparr>
      = (unat (mp_hash p), \<lparr>is_rest = [], is_ok = True\<rparr>)" for v
    using read_unsigned_show_dec [of "'' ''" "[]" "unat (mp_hash p)" 64 v] sp by simp
  show ?thesis unfolding mp_fromString_def 1 Let_def prod.case 2 3 by simp
qed

section \<open>Byte order\<close>

text \<open>\<^verbatim>\<open>htobe64\<close> and \<^verbatim>\<open>be64toh\<close> on a little endian host reverse the eight bytes.\<close>

definition swap_pos :: "nat \<Rightarrow> nat" where
  "swap_pos n = 8 * (7 - n div 8) + n mod 8"

definition bswap64 :: "u64 \<Rightarrow> u64" where
  "bswap64 w = horner_sum of_bool 2 (map (\<lambda>n. bit w (swap_pos n)) [0..<64])"

lemma bit_bswap64: "bit (bswap64 w) n \<longleftrightarrow> n < 64 \<and> bit w (swap_pos n)"
  by (auto simp: bswap64_def bit_horner_sum_bit_word_iff)

lemma swap_pos_less: "n < 64 \<Longrightarrow> swap_pos n < 64"
  unfolding swap_pos_def by presburger

lemma swap_pos_byte: "r < 8 \<Longrightarrow> swap_pos (8 * q + r) = 8 * (7 - q) + r"
  by (simp add: swap_pos_def)

lemma swap_pos_swap_pos:
  assumes "n < 64"
  shows "swap_pos (swap_pos n) = n"
proof -
  have r: "n mod 8 < 8" and q: "n div 8 \<le> 7" using assms by simp_all
  have "swap_pos n = 8 * (7 - n div 8) + n mod 8" by (simp add: swap_pos_def)
  then have "swap_pos (swap_pos n) = 8 * (7 - (7 - n div 8)) + n mod 8"
    using swap_pos_byte [OF r] by simp
  then show ?thesis using q by simp
qed

lemma bswap64_bswap64 [simp]: "bswap64 (bswap64 w) = w"
  by (rule bit_word_eqI) (simp add: bit_bswap64 swap_pos_less swap_pos_swap_pos)

lemma bswap64_eq_iff: "bswap64 a = bswap64 b \<longleftrightarrow> a = b"
  by (metis bswap64_bswap64)

lemma bswap64_minus_1 [simp]: "bswap64 (- 1) = - 1"
  by (rule bit_word_eqI) (simp add: bit_bswap64 swap_pos_less)

lemma bswap64_0 [simp]: "bswap64 0 = 0"
  by (rule bit_word_eqI) (simp add: bit_bswap64)

section \<open>KeyRange\<close>

record key_range =
  kr_first :: u64
  kr_last :: u64

definition fromLocation :: "merkle_point \<Rightarrow> key_range" where
  "fromLocation location =
     (if mp_keybits location \<ge> 64 then \<lparr>kr_first = mp_key location, kr_last = mp_key location\<rparr>
      else if mp_keybits location = 0 then \<lparr>kr_first = 0, kr_last = NOT 0\<rparr>
      else let shift = 64 - mp_keybits location;
               f0 = bswap64 (mp_key location);
               f = push_bit shift (drop_bit shift f0);
               l = f XOR drop_bit (mp_keybits location) (NOT 0)
           in \<lparr>kr_first = bswap64 f, kr_last = bswap64 l\<rparr>)"

text \<open>A key is in a range when it lies between the ends in byte order.\<close>

definition in_range :: "u64 \<Rightarrow> u64 \<Rightarrow> u64 \<Rightarrow> bool" where
  "in_range lo hi k \<longleftrightarrow> bswap64 lo \<le> bswap64 k \<and> bswap64 k \<le> bswap64 hi"

section \<open>A range is a prefix\<close>

lemma unat_drop_bit_div: "unat (drop_bit s z) = unat z div 2 ^ s" for z :: u64
  by (rule unat_drop_bit_eq [THEN trans]) (simp add: drop_bit_eq_div)

lemma unat_prefix:
  fixes x :: u64
  assumes "s < 64"
  shows "unat (push_bit s (drop_bit s x)) = unat x div 2 ^ s * 2 ^ s"
proof -
  have "unat x div 2 ^ s * 2 ^ s < 18446744073709551616"
    by (rule le_less_trans [OF div_times_less_eq_dividend unat_less_64])
  moreover have "unat (push_bit s (drop_bit s x)) = take_bit 64 (push_bit s (unat (drop_bit s x)))"
    using unsigned_push_bit_eq [of s "drop_bit s x", where ?'a = nat] by simp
  ultimately show ?thesis
    unfolding unat_drop_bit_div by (simp add: push_bit_eq_mult take_bit_eq_mod)
qed

lemma prefix_xor_mask:
  fixes x :: u64
  assumes "s < 64"
  shows "unat (push_bit s (drop_bit s x) XOR mask s) = unat x div 2 ^ s * 2 ^ s + (2 ^ s - 1)"
proof -
  let ?f = "push_bit s (drop_bit s x)"
  have "?f XOR mask s = ?f OR mask s"
    by (rule bit_word_eqI) (auto simp: bit_xor_iff bit_or_iff bit_mask_iff bit_push_bit_iff)
  also have "\<dots> = ?f + mask s"
    by (rule disjunctive_add [symmetric]) (auto simp: bit_mask_iff bit_push_bit_iff)
  finally have eq: "?f XOR mask s = ?f + mask s" .
  have m: "unat (mask s :: u64) = 2 ^ s - 1"
  proof -
    have "(mask s :: u64) = of_nat (2 ^ s - 1)" by (simp add: mask_eq_exp_minus_1 of_nat_diff)
    moreover have "(2::nat) ^ s < 2 ^ 64" using assms by (intro power_strict_increasing) simp_all
    then have "2 ^ s - 1 < (2::nat) ^ 64" by simp
    ultimately show ?thesis by (simp only: unat_of_nat) simp
  qed
  have b: "unat x div 2 ^ s < 2 ^ (64 - s)"
    using assms unat_less_64 [of x]
    by (simp add: less_mult_imp_div_less flip: power_add)
  then have "(unat x div 2 ^ s + 1) * 2 ^ s \<le> 2 ^ (64 - s) * 2 ^ s"
    by (intro mult_right_mono) auto
  also have "\<dots> = (2::nat) ^ 64" using assms by (simp flip: power_add)
  finally have "unat x div 2 ^ s * 2 ^ s + 2 ^ s \<le> 2 ^ 64" by simp
  then have "unat ?f + unat (mask s :: u64) < 2 ^ 64"
    using unat_prefix [OF assms, of x] m by (simp add: less_eq_Suc_le Suc_diff_Suc)
  then have "unat (?f + mask s) = unat ?f + unat (mask s :: u64)"
    by (intro unat_add_lem [THEN iffD1]) simp
  then show ?thesis using eq unat_prefix [OF assms, of x] m by simp
qed

lemma div_interval:
  fixes a b n :: nat
  assumes "0 < n"
  shows "b div n * n \<le> a \<and> a \<le> b div n * n + (n - 1) \<longleftrightarrow> a div n = b div n"
proof
  assume h: "b div n * n \<le> a \<and> a \<le> b div n * n + (n - 1)"
  then have "b div n \<le> a div n" using assms by (simp add: less_eq_div_iff_mult_less_eq)
  moreover have "a < (b div n + 1) * n" using h assms by auto
  then have "a div n < b div n + 1" by (simp add: less_mult_imp_div_less)
  ultimately show "a div n = b div n" by simp
next
  assume "a div n = b div n"
  then have "a = b div n * n + a mod n" using div_mult_mod_eq [of a n] by simp
  moreover have "a mod n < n" using assms by simp
  ultimately show "b div n * n \<le> a \<and> a \<le> b div n * n + (n - 1)"
    by (metis Suc_pred' add_left_mono assms le_add1 less_Suc_eq_le)
qed

lemma prefix_interval:
  fixes x y :: u64
  assumes "s < 64"
  shows "push_bit s (drop_bit s x) \<le> y \<and> y \<le> push_bit s (drop_bit s x) XOR mask s
           \<longleftrightarrow> drop_bit s y = drop_bit s x"
proof -
  have "drop_bit s y = drop_bit s x \<longleftrightarrow> unat (drop_bit s y) = unat (drop_bit s x)"
    by (rule word_eq_iff_unsigned)
  then have "drop_bit s y = drop_bit s x \<longleftrightarrow> unat y div 2 ^ s = unat x div 2 ^ s"
    unfolding unat_drop_bit_div .
  then show ?thesis
    using div_interval [of "2 ^ s" "unat x" "unat y"]
    by (simp add: word_le_nat_alt unat_prefix [OF assms] prefix_xor_mask [OF assms])
qed

definition same_prefix :: "nat \<Rightarrow> u64 \<Rightarrow> u64 \<Rightarrow> bool" where
  "same_prefix n a b \<longleftrightarrow> drop_bit (64 - n) (bswap64 a) = drop_bit (64 - n) (bswap64 b)"

lemma drop_bit_all_ones: "n < 64 \<Longrightarrow> drop_bit n (- 1 :: u64) = mask (64 - n)"
  by (rule bit_word_eqI) (auto simp: bit_drop_bit_eq bit_mask_iff)

lemma fromLocation_prefix:
  "in_range (kr_first (fromLocation p)) (kr_last (fromLocation p)) k
     \<longleftrightarrow> same_prefix (mp_keybits p) (mp_key p) k"
proof -
  consider "mp_keybits p \<ge> 64" | "mp_keybits p = 0" | "0 < mp_keybits p" "mp_keybits p < 64"
    by linarith
  then show ?thesis
  proof cases
    case 1
    then show ?thesis by (auto simp: fromLocation_def in_range_def same_prefix_def)
  next
    case 2
    then show ?thesis
      by (simp add: fromLocation_def in_range_def same_prefix_def)
  next
    case 3
    then have "64 - mp_keybits p < 64" by simp
    from prefix_interval [OF this, of "bswap64 (mp_key p)" "bswap64 k"] 3
    show ?thesis
      by (auto simp: fromLocation_def in_range_def same_prefix_def Let_def drop_bit_all_ones)
  qed
qed

section \<open>Properties\<close>

text \<open>
  C25. Round trip of tree points: a point printed for a sync message is parsed back unchanged,
  whatever the receiving variable held, as long as its number of bits fits its type.
\<close>

theorem merkle_point_text_roundtrip:
  assumes "mp_keybits p < 2 ^ kw"
  shows "mp_fromString kw q (mp_toString p) = (True, p)"
  using assms by (rule mp_fromString_toString)

theorem merkle_point_text_roundtrip_witness:
  "mp_fromString 16 \<lparr>mp_key = 0, mp_keybits = 0, mp_hash = 0\<rparr>
      (mp_toString \<lparr>mp_key = 1152921504606846975, mp_keybits = 12, mp_hash = 77\<rparr>)
    = (True, \<lparr>mp_key = 1152921504606846975, mp_keybits = 12, mp_hash = 77\<rparr>)"
  by (rule merkle_point_text_roundtrip) simp

text \<open>
  The range of a point is its prefix: a key lies between the ends that \<^verbatim>\<open>KeyRange\<close> computes,
  in the order of the keys' bytes, exactly when its first \<^verbatim>\<open>keybits\<close> bits are those of the
  point's key; for every number of bits, 0 (all keys) and 64 and above (one key) included.
\<close>

theorem key_range_is_prefix:
  "in_range (kr_first (fromLocation p)) (kr_last (fromLocation p)) k
     \<longleftrightarrow> same_prefix (mp_keybits p) (mp_key p) k"
  by (rule fromLocation_prefix)

end
