(* ===== verification/Ring.thy ===== *)
theory Ring
  imports Keys "HOL-Library.RBT"
begin

text \<open>
  Partitioning: \<^verbatim>\<open>hashing/ConsistentHashRing\<close> over turbolib's \<^verbatim>\<open>circular_map\<close> (the parameter
  \<open>circ_lib\<close>) and \<^verbatim>\<open>hashing/LocateKeys\<close>, which decides the owners of a key. The locale
  \<open>key_owners\<close> is the contract of \<^verbatim>\<open>ILocateKeys\<close> that the callbacks and the digest index
  build on.
\<close>

section \<open>The circular map\<close>

text \<open>
  \<open>cl_from k m\<close> lists the entries an iterator visits from \<^verbatim>\<open>lower_bound(k)\<close> until it compares
  equal to \<^verbatim>\<open>end()\<close>; \<open>cl_items\<close> is a plain iteration.
\<close>

record 'm circ_lib =
  cl_set :: "string \<Rightarrow> string \<Rightarrow> 'm \<Rightarrow> 'm"
  cl_erase :: "string \<Rightarrow> 'm \<Rightarrow> nat \<times> 'm"
  cl_from :: "string \<Rightarrow> 'm \<Rightarrow> (string \<times> string) list"
  cl_items :: "'m \<Rightarrow> (string \<times> string) list"

text \<open>
  The map keeps its entries sorted by key; iteration from a key goes through the keys that are
  not smaller, wraps around and stops before it would come to an entry again.
\<close>

definition circular :: "'m circ_lib \<Rightarrow> bool" where
  "circular lib \<longleftrightarrow>
     (\<forall>m. sorted_wrt (<) (map fst (cl_items lib m)))
   \<and> (\<forall>k m. cl_from lib k m = filter (\<lambda>x. k \<le> fst x) (cl_items lib m)
                               @ filter (\<lambda>x. fst x < k) (cl_items lib m))
   \<and> (\<forall>k v m. map_of (cl_items lib (cl_set lib k v m)) = (map_of (cl_items lib m))(k \<mapsto> v))
   \<and> (\<forall>k m. map_of (cl_items lib (snd (cl_erase lib k m))) = (map_of (cl_items lib m))(k := None)
           \<and> fst (cl_erase lib k m) = (if map_of (cl_items lib m) k = None then 0 else 1))"

lemma circularD:
  assumes "circular lib"
  shows "sorted_wrt (<) (map fst (cl_items lib m))"
    "cl_from lib k m = filter (\<lambda>x. k \<le> fst x) (cl_items lib m) @ filter (\<lambda>x. fst x < k) (cl_items lib m)"
    "map_of (cl_items lib (cl_set lib k v m)) = (map_of (cl_items lib m))(k \<mapsto> v)"
    "map_of (cl_items lib (snd (cl_erase lib k m))) = (map_of (cl_items lib m))(k := None)"
    "fst (cl_erase lib k m) = (if map_of (cl_items lib m) k = None then 0 else 1)"
  using assms unfolding circular_def by blast+

section \<open>ConsistentHashRing\<close>

definition ring_insert :: "hash_env \<Rightarrow> 'm circ_lib \<Rightarrow> string \<Rightarrow> string \<Rightarrow> 'm \<Rightarrow> bool \<times> 'm" where
  "ring_insert env lib node peer ring = (True, cl_set lib (hash_str (Hash env node)) peer ring)"

definition ring_erase :: "hash_env \<Rightarrow> 'm circ_lib \<Rightarrow> string \<Rightarrow> 'm \<Rightarrow> bool \<times> 'm" where
  "ring_erase env lib node ring =
     (let (n, ring') = cl_erase lib (hash_str (Hash env node)) ring in (n > 0, ring'))"

text \<open>The loop over the iterator, with the list collected so far.\<close>

fun collect_locations :: "nat \<Rightarrow> string list \<Rightarrow> (string \<times> string) list \<Rightarrow> string list" where
  "collect_locations limit locs [] = locs"
| "collect_locations limit locs (e # it) =
     (if length locs < limit then collect_locations limit (locs @ [snd e]) it else locs)"

definition ring_locations :: "'m circ_lib \<Rightarrow> 'm \<Rightarrow> hash \<Rightarrow> nat \<Rightarrow> string list" where
  "ring_locations lib ring key limit = collect_locations limit [] (cl_from lib (hash_str key) ring)"

definition ring_nodeId :: "'m circ_lib \<Rightarrow> 'm \<Rightarrow> hash \<Rightarrow> string" where
  "ring_nodeId lib ring key =
     (case cl_from lib (hash_str key) ring of [] \<Rightarrow> [] | e # _ \<Rightarrow> fst e)"

text \<open>\<^verbatim>\<open>operator<<\<close> of one entry; \<open>join\<close> is turbolib's \<^verbatim>\<open>str::join\<close>.\<close>

definition show_ring_entry :: "hash_env \<Rightarrow> string \<times> string \<Rightarrow> string" where
  "show_ring_entry env val = hash_base64 env (fromHash (fst val)) @ ''='' @ snd val"

definition ring_toString :: "hash_env \<Rightarrow> (string list \<Rightarrow> string) \<Rightarrow> 'm circ_lib \<Rightarrow> 'm \<Rightarrow> string" where
  "ring_toString env join lib ring = join (map (show_ring_entry env) (cl_items lib ring))"

section \<open>LocateKeys\<close>

text \<open>The membership is consulted for the id of this peer only: \<open>self\<close>.\<close>

definition lk_locations :: "hash_env \<Rightarrow> 'm circ_lib \<Rightarrow> 'm \<Rightarrow> string \<Rightarrow> nat \<Rightarrow> string list" where
  "lk_locations env lib ring name limit = ring_locations lib ring (Hash env name) limit"

definition lk_section :: "hash_env \<Rightarrow> 'm circ_lib \<Rightarrow> 'm \<Rightarrow> string \<Rightarrow> string" where
  "lk_section env lib ring name = ring_nodeId lib ring (Hash env name)"

definition containsSelf :: "string option \<Rightarrow> string list \<Rightarrow> bool" where
  "containsSelf self locs = (case self of None \<Rightarrow> False | Some uid \<Rightarrow> uid \<in> set locs)"

definition keyIsMine :: "hash_env \<Rightarrow> 'm circ_lib \<Rightarrow> 'm \<Rightarrow> string option \<Rightarrow> string \<Rightarrow> nat \<Rightarrow> bool" where
  "keyIsMine env lib ring self name limit =
     (let locs = lk_locations env lib ring name limit
      in if locs = [] then True else containsSelf self locs)"

definition sectionIsMine :: "'m circ_lib \<Rightarrow> 'm \<Rightarrow> string option \<Rightarrow> string \<Rightarrow> nat \<Rightarrow> bool" where
  "sectionIsMine lib ring self i limit =
     (let locs = ring_locations lib ring (fromHash i) limit
      in if locs = [] then True else containsSelf self locs)"

lemma collect_locations_take:
  "length locs \<le> limit \<Longrightarrow>
   collect_locations limit locs it = locs @ take (limit - length locs) (map snd it)"
proof (induction it arbitrary: locs)
  case Nil
  then show ?case by simp
next
  case (Cons e it)
  show ?case
  proof (cases "length locs < limit")
    case True
    then have "limit - length locs = Suc (limit - Suc (length locs))" by simp
    with True Cons.IH [of "locs @ [snd e]"] show ?thesis by simp
  next
    case False
    with Cons.prems show ?thesis by simp
  qed
qed

lemma ring_locations_take:
  "ring_locations lib ring key limit = take limit (map snd (cl_from lib key ring))"
  by (simp add: ring_locations_def hash_str_def collect_locations_take)

lemma set_cl_from:
  assumes "circular lib"
  shows "set (cl_from lib k m) = set (cl_items lib m)"
  unfolding circularD(2) [OF assms] by (auto simp: not_le)

lemma distinct_cl_items:
  assumes "circular lib"
  shows "distinct (map fst (cl_items lib m))"
  using circularD(1) [OF assms, of m] by (simp only: strict_sorted_iff)

lemma distinct_fst_filter: "distinct (map fst xs) \<Longrightarrow> distinct (map fst (filter P xs))"
  by (induction xs) auto

lemma distinct_cl_from:
  assumes "circular lib"
  shows "distinct (map fst (cl_from lib k m))"
  unfolding circularD(2) [OF assms]
  using distinct_fst_filter [OF distinct_cl_items [OF assms]] by auto

lemma sorted_wrt_filter_fst:
  "sorted_wrt (<) (map fst xs) \<Longrightarrow> sorted_wrt (<) (map fst (filter P xs))"
  by (induction xs) auto

text \<open>
  Iteration from the node a key belongs to visits the same entries as iteration from the key:
  there is no node between the two.
\<close>

lemma filter_le_split:
  fixes xs :: "(string \<times> string) list"
  assumes "sorted_wrt (<) (map fst xs)" "filter (\<lambda>x. k \<le> fst x) xs = e # ys"
  shows "filter (\<lambda>x. fst e \<le> fst x) xs = filter (\<lambda>x. k \<le> fst x) xs"
    "filter (\<lambda>x. fst x < fst e) xs = filter (\<lambda>x. fst x < k) xs"
proof -
  have e: "k \<le> fst e" "e \<in> set xs" using assms(2) by (auto simp: filter_eq_Cons_iff)
  have "sorted_wrt (<) (map fst (e # ys))"
    unfolding assms(2) [symmetric] by (rule sorted_wrt_filter_fst [OF assms(1)])
  then have least: "\<forall>y \<in> set (e # ys). fst e \<le> fst y" by auto
  have iff: "fst e \<le> fst x \<longleftrightarrow> k \<le> fst x" if "x \<in> set xs" for x
  proof
    assume "k \<le> fst x"
    then have "x \<in> set (e # ys)" using that unfolding assms(2) [symmetric] by simp
    then show "fst e \<le> fst x" using least by blast
  qed (use e in simp)
  then show "filter (\<lambda>x. fst e \<le> fst x) xs = filter (\<lambda>x. k \<le> fst x) xs"
    by (intro filter_cong) auto
  show "filter (\<lambda>x. fst x < fst e) xs = filter (\<lambda>x. fst x < k) xs"
    using iff by (intro filter_cong) (auto simp: not_le [symmetric])
qed

lemma filter_all_less:
  fixes ys :: "(string \<times> string) list"
  assumes "sorted_wrt (<) (map fst (e # ys))"
  shows "filter (\<lambda>x. fst e \<le> fst x) (e # ys) = e # ys" "filter (\<lambda>x. fst x < fst e) (e # ys) = []"
  using assms by (auto simp: filter_id_conv filter_empty_conv not_less less_imp_le)

lemma cl_from_node:
  assumes "circular lib" "cl_from lib k m = e # r"
  shows "cl_from lib (fst e) m = cl_from lib k m"
proof -
  let ?xs = "cl_items lib m"
  note sorted = circularD(1) [OF assms(1), of m] and rot = circularD(2) [OF assms(1)]
  show ?thesis
  proof (cases "filter (\<lambda>x. k \<le> fst x) ?xs")
    case Nil
    then have all: "filter (\<lambda>x. fst x < k) ?xs = ?xs"
      by (auto simp: filter_empty_conv filter_id_conv not_le)
    then have "?xs = e # r" using assms(2) Nil rot [of k m] by simp
    then show ?thesis
      using filter_all_less [of e r] sorted Nil all unfolding rot [of _ m] by simp
  next
    case (Cons e' ys)
    then have "e' = e" using assms(2) rot [of k m] by simp
    then show ?thesis
      using filter_le_split [OF sorted Cons] Cons unfolding rot [of _ m] by simp
  qed
qed

lemma locations_of_section:
  assumes "circular lib"
  shows "ring_locations lib ring (ring_nodeId lib ring key) limit = ring_locations lib ring key limit"
proof (cases "cl_from lib key ring")
  case Nil
  then have "cl_items lib ring = []" using set_cl_from [OF assms, of key ring] by simp
  then show ?thesis using circularD(2) [OF assms] by (simp add: ring_locations_take)
next
  case (Cons e r)
  then show ?thesis
    using cl_from_node [OF assms Cons] by (simp add: ring_locations_take ring_nodeId_def hash_str_def)
qed

section \<open>The contract of ILocateKeys\<close>

text \<open>
  What the callbacks and the digest index rely on: the owners of a key are the owners of its
  section, asking for fewer owners gives a prefix, and owners are not repeated.
\<close>

locale key_owners =
  fixes owners :: "string \<Rightarrow> nat \<Rightarrow> string list"
    and section_of :: "string \<Rightarrow> string"
    and section_owners :: "string \<Rightarrow> nat \<Rightarrow> string list"
  assumes owners_of_section: "section_owners (section_of name) limit = owners name limit"
    and owners_take: "owners name limit = take limit (owners name (max limit n))"
    and section_owners_0: "section_owners i 0 = []"
begin

lemma owners_length: "length (owners name limit) \<le> limit"
  by (subst owners_take [of name limit limit]) simp

lemma owners_0: "owners name 0 = []"
  using owners_length [of name 0] by simp

lemma owners_mono: "limit \<le> n \<Longrightarrow> set (owners name limit) \<subseteq> set (owners name n)"
  by (subst owners_take [of name limit n]) (auto simp: max_def dest: in_set_takeD)

lemma owners_empty_mono: "limit \<le> n \<Longrightarrow> owners name n = [] \<Longrightarrow> owners name limit = []"
  using owners_mono [of limit n name] by auto

lemma same_section_same_owners:
  "section_of a = section_of b \<Longrightarrow> owners a limit = owners b limit"
  by (metis owners_of_section)

end

text \<open>The ring provides it, for every circular map that keeps its order.\<close>

locale circular_ring =
  fixes env :: hash_env and lib :: "'m circ_lib" and ring :: 'm
  assumes circ: "circular lib"

sublocale circular_ring \<subseteq>
  key_owners "lk_locations env lib ring" "lk_section env lib ring" "ring_locations lib ring"
proof unfold_locales
  fix name i :: string and limit n :: nat
  show "ring_locations lib ring (lk_section env lib ring name) limit = lk_locations env lib ring name limit"
    using locations_of_section [OF circ] by (simp add: lk_section_def lk_locations_def)
  show "lk_locations env lib ring name limit = take limit (lk_locations env lib ring name (max limit n))"
    by (simp add: lk_locations_def ring_locations_take)
  show "ring_locations lib ring i 0 = []"
    by (simp add: ring_locations_take)
qed

context circular_ring
begin

lemma mine_iff_section_mine:
  "keyIsMine env lib ring self name limit
     \<longleftrightarrow> sectionIsMine lib ring self (lk_section env lib ring name) limit"
  using owners_of_section [of name limit] by (simp add: keyIsMine_def sectionIsMine_def fromHash_def)

end

text \<open>A red-black tree is such a map.\<close>

definition rbt_circ :: "(string, string) rbt circ_lib" where
  "rbt_circ = \<lparr>cl_set = RBT.insert,
     cl_erase = (\<lambda>k m. (if RBT.lookup m k = None then 0 else 1, RBT.delete k m)),
     cl_from = (\<lambda>k m. filter (\<lambda>x. k \<le> fst x) (RBT.entries m)
                     @ filter (\<lambda>x. fst x < k) (RBT.entries m)),
     cl_items = RBT.entries\<rparr>"

lemma circular_rbt_circ: "circular rbt_circ"
  unfolding circular_def rbt_circ_def
  using RBT.sorted_entries RBT.distinct_entries
  by (auto simp: RBT.map_of_entries strict_sorted_iff)

interpretation rbt_ring: circular_ring env rbt_circ ring for env ring
  by unfold_locales (rule circular_rbt_circ)

section \<open>Joining members\<close>

definition ring_keys :: "'m circ_lib \<Rightarrow> 'm \<Rightarrow> string set" where
  "ring_keys lib m = fst ` set (cl_items lib m)"

lemma set_cl_items:
  assumes "circular lib"
  shows "x \<in> set (cl_items lib m) \<longleftrightarrow> map_of (cl_items lib m) (fst x) = Some (snd x)"
  using distinct_cl_items [OF assms] by (cases x) simp

lemma strict_sorted_fst_eq:
  fixes xs ys :: "(string \<times> string) list"
  assumes "sorted_wrt (<) (map fst xs)" "sorted_wrt (<) (map fst ys)" "set xs = set ys"
  shows "xs = ys"
proof -
  have "distinct (map fst xs)" "distinct (map fst ys)" "sorted (map fst xs)" "sorted (map fst ys)"
    using assms by (simp_all only: strict_sorted_iff)
  moreover have "inj_on fst (set xs \<union> set ys)"
    using assms(3) calculation(1) by (simp add: distinct_map)
  ultimately show ?thesis
    using map_sorted_distinct_set_unique [of fst xs ys] assms(3) by blast
qed

text \<open>Inserting a node changes the order of the other entries in no iteration.\<close>

lemma items_insert_others:
  assumes "circular lib"
  shows "filter (\<lambda>x. fst x \<noteq> h) (cl_items lib (cl_set lib h v m)) = filter (\<lambda>x. fst x \<noteq> h) (cl_items lib m)"
  using circularD(1) [OF assms]
  by (intro strict_sorted_fst_eq sorted_wrt_filter_fst)
    (auto simp: set_cl_items [OF assms] circularD(3) [OF assms] simp del: set_map)

lemma from_insert_others:
  assumes "circular lib"
  shows "filter (\<lambda>x. fst x \<noteq> h) (cl_from lib k (cl_set lib h v m)) = filter (\<lambda>x. fst x \<noteq> h) (cl_from lib k m)"
proof -
  have rot: "filter (\<lambda>x. fst x \<noteq> h) (cl_from lib k m) =
      filter (\<lambda>x. k \<le> fst x) (filter (\<lambda>x. fst x \<noteq> h) (cl_items lib m)) @
      filter (\<lambda>x. fst x < k) (filter (\<lambda>x. fst x \<noteq> h) (cl_items lib m))" for m
    unfolding circularD(2) [OF assms] by (simp add: conj_commute)
  show ?thesis by (simp only: rot items_insert_others [OF assms])
qed

lemma take_filter_subset:
  "\<forall>x \<in> set xs. \<not> P x \<longrightarrow> x = e \<Longrightarrow> set (take n xs) \<subseteq> insert e (set (take n (filter P xs)))"
proof (induction xs arbitrary: n)
  case (Cons x xs)
  show ?case
  proof (cases n)
    case (Suc n')
    have IH: "set (take n' xs) \<subseteq> insert e (set (take n' (filter P xs)))" using Cons by simp
    show ?thesis
    proof (cases "P x")
      case True
      then show ?thesis using Suc IH by auto
    next
      case False
      have "set (take n' (filter P xs)) \<subseteq> set (take n (filter P xs))"
        using Suc by (intro set_take_subset_set_take) simp
      then show ?thesis using False Cons.prems Suc IH by auto
    qed
  qed simp
qed simp

definition ring_ok :: "hash_env \<Rightarrow> 'm circ_lib \<Rightarrow> 'm \<Rightarrow> bool" where
  "ring_ok env lib ring \<longleftrightarrow> (\<forall>(k, v) \<in> set (cl_items lib ring). k = hash_str (Hash env v))"

lemma ring_ok_insert:
  assumes "circular lib" "ring_ok env lib ring"
  shows "ring_ok env lib (snd (ring_insert env lib uid uid ring))"
  unfolding ring_ok_def
proof (rule ballI)
  fix x assume "x \<in> set (cl_items lib (snd (ring_insert env lib uid uid ring)))"
  moreover obtain k v where x: "x = (k, v)" by (cases x)
  ultimately have "map_of (cl_items lib (cl_set lib (hash_str (Hash env uid)) uid ring)) k = Some v"
    using distinct_cl_items [OF assms(1)] by (simp add: ring_insert_def)
  then have "((map_of (cl_items lib ring))(hash_str (Hash env uid) \<mapsto> uid)) k = Some v"
    using circularD(3) [OF assms(1)] by simp
  then show "case x of (k, v) \<Rightarrow> k = hash_str (Hash env v)"
    using assms(2) x by (auto simp: ring_ok_def dest: map_of_SomeD split: if_splits)
qed

lemma distinct_owners:
  assumes "circular lib" "ring_ok env lib ring"
  shows "distinct (map snd (cl_from lib k ring))"
proof -
  have "map fst (cl_from lib k ring) = map (\<lambda>v. hash_str (Hash env v)) (map snd (cl_from lib k ring))"
    using assms(2) set_cl_from [OF assms(1), of k ring] by (auto simp: ring_ok_def)
  then show ?thesis
    using distinct_cl_from [OF assms(1), of k ring] by (metis distinct_map)
qed

section \<open>Properties\<close>

text \<open>
  C15. Every key has exactly as many owners as it has copies: when the members of a non-empty ring
  are entered under their own ids, the number of members that consider the key theirs is the
  number of copies asked for, or the number of members if that is smaller.
\<close>

theorem key_has_as_many_owners_as_copies:
  assumes "circular lib" "ring_ok env lib ring" "cl_items lib ring \<noteq> []" "0 < limit"
  shows "card {uid \<in> snd ` set (cl_items lib ring). keyIsMine env lib ring (Some uid) name limit}
           = min limit (length (cl_items lib ring))"
proof -
  let ?from = "cl_from lib (hash_str (Hash env name)) ring"
  let ?locs = "take limit (map snd ?from)"
  have set_from: "set ?from = set (cl_items lib ring)" by (rule set_cl_from [OF assms(1)])
  have ne: "?locs \<noteq> []" using set_from assms(3,4) by auto
  have "{uid \<in> snd ` set (cl_items lib ring). keyIsMine env lib ring (Some uid) name limit} = set ?locs"
    using ne set_from
    by (auto simp: keyIsMine_def lk_locations_def ring_locations_take containsSelf_def hash_str_def
        Let_def image_iff dest: in_set_takeD)
  moreover have "card (set ?locs) = length ?locs"
    using distinct_owners [OF assms(1,2)] by (intro distinct_card distinct_take)
  moreover have "length ?from = length (cl_items lib ring)"
    unfolding circularD(2) [OF assms(1)]
    using sum_length_filter_compl [of "\<lambda>x. hash_str (Hash env name) \<le> fst x" "cl_items lib ring"]
    by (simp add: not_le)
  ultimately show ?thesis by (simp add: min.commute)
qed

text \<open>
  The two ways of asking agree: a key is ours exactly when its section is, so the digest
  index files a key among the wanted sections on exactly the peers that store it.
\<close>

theorem key_is_mine_iff_section_is_mine:
  assumes "circular lib"
  shows "keyIsMine env lib ring self name limit
           \<longleftrightarrow> sectionIsMine lib ring self (lk_section env lib ring name) limit"
  by (rule circular_ring.mine_iff_section_mine [OF circular_ring.intro [OF assms]])

text \<open>
  C26. A joining member takes keys over only for itself: after it is entered into the ring, every
  owner of a key either owned it before or is the new member, whatever the number of copies.
\<close>

theorem join_moves_keys_to_new_member_only:
  assumes "circular lib" "hash_str (Hash env uid) \<notin> ring_keys lib ring"
  shows "set (lk_locations env lib (snd (ring_insert env lib uid uid ring)) name limit)
           \<subseteq> insert uid (set (lk_locations env lib ring name limit))"
proof -
  let ?h = "hash_str (Hash env uid)" and ?k = "Hash env name"
  let ?new = "cl_from lib ?k (cl_set lib ?h uid ring)" and ?old = "cl_from lib ?k ring"
  have "filter (\<lambda>x. fst x \<noteq> ?h) ?old = ?old"
    using assms(2) set_cl_from [OF assms(1), of ?k ring]
    by (force simp: filter_id_conv ring_keys_def)
  then have new: "filter (\<lambda>x. fst x \<noteq> ?h) ?new = ?old"
    using from_insert_others [OF assms(1), of ?h ?k uid ring] by simp
  have "\<forall>x \<in> set ?new. \<not> fst x \<noteq> ?h \<longrightarrow> x = (?h, uid)"
    using set_cl_from [OF assms(1)]
    by (auto simp: set_cl_items [OF assms(1)] circularD(3) [OF assms(1)])
  from take_filter_subset [OF this, of limit] new
  have "set (take limit ?new) \<subseteq> insert (?h, uid) (set (take limit ?old))" by simp
  then have "snd ` set (take limit ?new) \<subseteq> insert uid (snd ` set (take limit ?old))" by auto
  then show ?thesis
    by (simp add: lk_locations_def ring_locations_take ring_insert_def take_map)
qed

section \<open>Witnesses\<close>

text \<open>A hasher that keeps the name, and a ring of three members.\<close>

definition plain_env :: hash_env where
  "plain_env = \<lparr>he_hasher = id, he_encode = id, he_decode = id, he_overread = (\<lambda>_. 0)\<rparr>"

definition three_ring :: "(string, string) rbt" where
  "three_ring = foldr (\<lambda>u r. snd (ring_insert plain_env rbt_circ u u r)) [''one'', ''three'', ''two''] RBT.empty"

lemma three_ring_ok: "ring_ok plain_env rbt_circ three_ring"
proof -
  have "ring_ok plain_env rbt_circ RBT.empty" by (simp add: ring_ok_def rbt_circ_def RBT.entries_def RBT.empty.rep_eq)
  then show ?thesis
    unfolding three_ring_def by (simp add: ring_ok_insert [OF circular_rbt_circ])
qed

lemma three_ring_items: "map snd (cl_items rbt_circ three_ring) = [''one'', ''three'', ''two'']"
  by code_simp

lemma key_has_as_many_owners_as_copies_witness:
  "card {uid \<in> snd ` set (cl_items rbt_circ three_ring).
      keyIsMine plain_env rbt_circ three_ring (Some uid) ''s'' 2} = 2"
proof -
  have items: "cl_items rbt_circ three_ring \<noteq> []" "length (cl_items rbt_circ three_ring) = 3"
    using three_ring_items by (auto dest: arg_cong [of _ _ length])
  show ?thesis
    using key_has_as_many_owners_as_copies [OF circular_rbt_circ three_ring_ok items(1), of 2 "''s''"] items(2)
    by simp
qed

lemma key_is_mine_iff_section_is_mine_witness:
  "sectionIsMine rbt_circ three_ring (Some ''two'')
     (lk_section plain_env rbt_circ three_ring ''s'') 2"
proof -
  have "keyIsMine plain_env rbt_circ three_ring (Some ''two'') ''s'' 2" by code_simp
  then show ?thesis
    using key_is_mine_iff_section_is_mine [OF circular_rbt_circ] by blast
qed

lemma join_moves_keys_to_new_member_only_witness:
  "set (lk_locations plain_env rbt_circ
      (snd (ring_insert plain_env rbt_circ ''tango'' ''tango'' three_ring)) ''s'' 2)
     \<subseteq> {''tango'', ''three'', ''two''}"
proof -
  have new: "hash_str (Hash plain_env ''tango'') \<notin> ring_keys rbt_circ three_ring" by code_simp
  have old: "lk_locations plain_env rbt_circ three_ring ''s'' 2 = [''three'', ''two'']" by code_simp
  show ?thesis
    using join_moves_keys_to_new_member_only [OF circular_rbt_circ new, of "''s''" 2]
    unfolding old by simp
qed

end
