(* ===== verification/Digest.thy ===== *)
theory Digest
  imports Ring
begin

text \<open>
  The digest index of \<^verbatim>\<open>deskew/\<close>: \<^verbatim>\<open>TreeId\<close>, \<^verbatim>\<open>DigestTree\<close>, \<^verbatim>\<open>DigestIndexer\<close> and
  \<^verbatim>\<open>UniversalDigestIndexer\<close>. A \<^verbatim>\<open>std::map\<close> is a red-black tree of the library, whose entries are
  sorted by key. turbolib's \<^verbatim>\<open>merkle_tree\<close> is the parameter \<open>merkle_lib\<close>; the locale
  \<open>digest_index\<close> is the contract of \<^verbatim>\<open>IDigestIndexer\<close>.
\<close>

section \<open>The merkle tree\<close>

text \<open>The result of \<^verbatim>\<open>diff\<close>, with what each of its query methods returns.\<close>

record diff_result =
  dr_points :: "merkle_point list"
  dr_no_difference :: bool
  dr_traverse :: bool
  dr_need_range :: bool
  dr_need_partial_range :: bool
  dr_need_exchange :: bool

text \<open>\<open>mk_range first final\<close> lists what \<^verbatim>\<open>enumerate\<close> calls its argument with until it returns false.\<close>

record 'mt merkle_lib =
  mk_new :: 'mt
  mk_null :: merkle_point
  mk_find :: "u64 \<Rightarrow> 'mt \<Rightarrow> (u64 \<times> string) option"
  mk_insert :: "u64 \<Rightarrow> u64 \<Rightarrow> string \<Rightarrow> 'mt \<Rightarrow> 'mt"
  mk_remove :: "u64 \<Rightarrow> 'mt \<Rightarrow> 'mt"
  mk_top :: "'mt \<Rightarrow> merkle_point"
  mk_diff :: "merkle_point \<Rightarrow> 'mt \<Rightarrow> diff_result"
  mk_range :: "u64 \<Rightarrow> u64 \<Rightarrow> 'mt \<Rightarrow> (u64 \<times> u64 \<times> string) list"

text \<open>
  The tree is a map from keys to hashes and names; ranges are in byte order; \<^verbatim>\<open>top\<close> is the null
  location only of the empty tree. Nothing is said of inserting a key that is present, other than
  that it stays present.
\<close>

definition merkle_map :: "'mt merkle_lib \<Rightarrow> bool" where
  "merkle_map ml \<longleftrightarrow>
     (\<forall>k. mk_find ml k (mk_new ml) = None)
   \<and> (\<forall>k h f t. mk_find ml k t = None \<longrightarrow> mk_find ml k (mk_insert ml k h f t) = Some (h, f))
   \<and> (\<forall>k h f t. mk_find ml k (mk_insert ml k h f t) \<in> {Some (h, f), mk_find ml k t})
   \<and> (\<forall>j k h f t. j \<noteq> k \<longrightarrow> mk_find ml j (mk_insert ml k h f t) = mk_find ml j t)
   \<and> (\<forall>j k t. mk_find ml j (mk_remove ml k t) = (if j = k then None else mk_find ml j t))
   \<and> (\<forall>t. mk_top ml t = mk_null ml \<longleftrightarrow> (\<forall>k. mk_find ml k t = None))
   \<and> (\<forall>a b t. set (mk_range ml a b t) = {(k, h, f). mk_find ml k t = Some (h, f) \<and> in_range a b k})
   \<and> (\<forall>a b t. distinct (map fst (mk_range ml a b t)))"

lemma merkle_mapD:
  assumes "merkle_map ml"
  shows "mk_find ml k (mk_new ml) = None"
    "mk_find ml k t = None \<Longrightarrow> mk_find ml k (mk_insert ml k h f t) = Some (h, f)"
    "mk_find ml k (mk_insert ml k h f t) \<in> {Some (h, f), mk_find ml k t}"
    "j \<noteq> k \<Longrightarrow> mk_find ml j (mk_insert ml k h f t) = mk_find ml j t"
    "mk_find ml j (mk_remove ml k t) = (if j = k then None else mk_find ml j t)"
    "mk_top ml t = mk_null ml \<longleftrightarrow> (\<forall>k. mk_find ml k t = None)"
    "set (mk_range ml a b t) = {(k, h, f). mk_find ml k t = Some (h, f) \<and> in_range a b k}"
    "distinct (map fst (mk_range ml a b t))"
  using assms by (simp_all add: merkle_map_def)

section \<open>TreeId and DigestTree\<close>

definition DEFAULT_MIRRORS :: u32 where
  "DEFAULT_MIRRORS = 3"

record tree_id =
  ti_id :: string
  ti_mirrors :: u32

definition TreeId_default :: tree_id where
  "TreeId_default = \<lparr>ti_id = [], ti_mirrors = DEFAULT_MIRRORS\<rparr>"

record 'mt digest_tree =
  dt_id :: tree_id
  dt_tree :: 'mt

definition dt_null :: "'mt merkle_lib \<Rightarrow> 'mt digest_tree" where
  "dt_null ml = \<lparr>dt_id = TreeId_default, dt_tree = mk_new ml\<rparr>"

definition setId :: "tree_id \<Rightarrow> 'mt digest_tree \<Rightarrow> 'mt digest_tree" where
  "setId i t = t\<lparr>dt_id := i\<rparr>"

definition dt_update :: "'mt merkle_lib \<Rightarrow> hash_env \<Rightarrow> string \<Rightarrow> u64 \<Rightarrow> 'mt digest_tree \<Rightarrow> 'mt digest_tree" where
  "dt_update ml env key val t =
     (let kh = keyhash env key
      in case mk_find ml kh (dt_tree t) of
           Some (old, _) \<Rightarrow> t\<lparr>dt_tree := mk_insert ml kh (val XOR old) key (mk_remove ml kh (dt_tree t))\<rparr>
         | None \<Rightarrow> t\<lparr>dt_tree := mk_insert ml kh (val XOR kh) key (dt_tree t)\<rparr>)"

definition dt_add :: "'mt merkle_lib \<Rightarrow> hash_env \<Rightarrow> string \<Rightarrow> u64 \<Rightarrow> 'mt digest_tree \<Rightarrow> 'mt digest_tree" where
  "dt_add ml env key h t = t\<lparr>dt_tree := mk_insert ml (keyhash env key) h key (dt_tree t)\<rparr>"

definition dt_remove :: "'mt merkle_lib \<Rightarrow> hash_env \<Rightarrow> string \<Rightarrow> 'mt digest_tree \<Rightarrow> 'mt digest_tree" where
  "dt_remove ml env key t = t\<lparr>dt_tree := mk_remove ml (keyhash env key) (dt_tree t)\<rparr>"

definition dt_empty :: "'mt merkle_lib \<Rightarrow> 'mt digest_tree \<Rightarrow> bool" where
  "dt_empty ml t \<longleftrightarrow> mk_top ml (dt_tree t) = mk_null ml"

definition dt_top :: "'mt merkle_lib \<Rightarrow> 'mt digest_tree \<Rightarrow> merkle_point" where
  "dt_top ml t = mk_top ml (dt_tree t)"

definition dt_diff :: "'mt merkle_lib \<Rightarrow> merkle_point \<Rightarrow> 'mt digest_tree \<Rightarrow> diff_result" where
  "dt_diff ml point t = mk_diff ml point (dt_tree t)"

text \<open>The callback collects a name and goes on while there are fewer than \<open>limit\<close>: at least one is taken.\<close>

fun collect_files :: "nat \<Rightarrow> string list \<Rightarrow> (u64 \<times> u64 \<times> string) list \<Rightarrow> string list" where
  "collect_files limit files [] = files"
| "collect_files limit files ((k, h, f) # es) =
     (let files = files @ [f] in if length files < limit then collect_files limit files es else files)"

definition dt_forEachInRange :: "'mt merkle_lib \<Rightarrow> u64 \<Rightarrow> u64 \<Rightarrow> 'mt digest_tree \<Rightarrow> (u64 \<times> u64 \<times> string) list" where
  "dt_forEachInRange ml first final t = mk_range ml first final (dt_tree t)"

definition dt_enumerate :: "'mt merkle_lib \<Rightarrow> u64 \<Rightarrow> u64 \<Rightarrow> nat \<Rightarrow> 'mt digest_tree \<Rightarrow> string list" where
  "dt_enumerate ml first final limit t = collect_files limit [] (dt_forEachInRange ml first final t)"

section \<open>DigestIndexer\<close>

text \<open>What the index asks of \<^verbatim>\<open>ILocateKeys\<close>.\<close>

record locator =
  lo_section :: "string \<Rightarrow> string"
  lo_sectionIsMine :: "string \<Rightarrow> nat \<Rightarrow> bool"

definition ring_locator :: "hash_env \<Rightarrow> 'm circ_lib \<Rightarrow> 'm \<Rightarrow> string option \<Rightarrow> locator" where
  "ring_locator env lib ring self =
     \<lparr>lo_section = lk_section env lib ring, lo_sectionIsMine = sectionIsMine lib ring self\<rparr>"

record 'mt digest_indexer =
  di_mirrors :: u32
  di_forest :: "(string, 'mt digest_tree) rbt"
  di_wanted :: "string set"
  di_unwanted :: "string set"

definition DigestIndexer :: "u32 \<Rightarrow> 'mt digest_indexer" where
  "DigestIndexer mirrors = \<lparr>di_mirrors = mirrors, di_forest = RBT.empty, di_wanted = {}, di_unwanted = {}\<rparr>"

definition initTree :: "locator \<Rightarrow> 'mt merkle_lib \<Rightarrow> string
    \<Rightarrow> 'mt digest_tree \<times> 'mt digest_indexer \<Rightarrow> 'mt digest_tree \<times> 'mt digest_indexer" where
  "initTree lo ml sect = (\<lambda>(t, di).
     if dt_empty ml t
     then (setId \<lparr>ti_id = sect, ti_mirrors = di_mirrors di\<rparr> t,
           if lo_sectionIsMine lo sect (unat (di_mirrors di))
           then di\<lparr>di_wanted := insert sect (di_wanted di)\<rparr>
           else di\<lparr>di_unwanted := insert sect (di_unwanted di)\<rparr>)
     else (t, di))"

definition forest_at :: "'mt merkle_lib \<Rightarrow> string \<Rightarrow> (string, 'mt digest_tree) rbt \<Rightarrow> 'mt digest_tree" where
  "forest_at ml sect forest = (case RBT.lookup forest sect of None \<Rightarrow> dt_null ml | Some t \<Rightarrow> t)"

definition di_update :: "locator \<Rightarrow> 'mt merkle_lib \<Rightarrow> hash_env \<Rightarrow> string \<Rightarrow> u64
    \<Rightarrow> 'mt digest_indexer \<Rightarrow> 'mt digest_indexer" where
  "di_update lo ml env key val di =
     (let sect = lo_section lo key;
          (t, di) = initTree lo ml sect (forest_at ml sect (di_forest di), di)
      in di\<lparr>di_forest := RBT.insert sect (dt_update ml env key val t) (di_forest di)\<rparr>)"

definition prune :: "'mt merkle_lib \<Rightarrow> string \<Rightarrow> 'mt digest_indexer \<Rightarrow> 'mt digest_indexer" where
  "prune ml it di =
     (let t = forest_at ml it (di_forest di); i = ti_id (dt_id t)
      in if dt_empty ml t
         then di\<lparr>di_unwanted := di_unwanted di - {i}, di_wanted := di_wanted di - {i},
                 di_forest := RBT.delete it (di_forest di)\<rparr>
         else di)"

definition di_remove :: "locator \<Rightarrow> 'mt merkle_lib \<Rightarrow> hash_env \<Rightarrow> string
    \<Rightarrow> 'mt digest_indexer \<Rightarrow> 'mt digest_indexer" where
  "di_remove lo ml env key di =
     (let sect = lo_section lo key
      in case RBT.lookup (di_forest di) sect of
           None \<Rightarrow> di
         | Some t \<Rightarrow>
             prune ml sect (di\<lparr>di_forest := RBT.insert sect (dt_remove ml env key t) (di_forest di)\<rparr>))"

text \<open>The next tree in key order; after the last one the first.\<close>

definition nextTree :: "(string, 'mt digest_tree) rbt \<Rightarrow> string \<Rightarrow> string" where
  "nextTree forest it =
     (case filter (\<lambda>x. it < x) (RBT.keys forest) of [] \<Rightarrow> hd (RBT.keys forest) | x # _ \<Rightarrow> x)"

text \<open>The two range scans of \<^verbatim>\<open>splitSection\<close>, from the source tree to the new one.\<close>

definition move_range :: "'mt merkle_lib \<Rightarrow> hash_env \<Rightarrow> u64 \<Rightarrow> u64
    \<Rightarrow> 'mt digest_tree \<times> 'mt digest_tree \<Rightarrow> 'mt digest_tree \<times> 'mt digest_tree" where
  "move_range ml env first final = (\<lambda>(source, new).
     (let new = fold (\<lambda>(k, h, f). dt_add ml env f h) (dt_forEachInRange ml first final source) new;
          source = fold (\<lambda>(k, h, f). dt_remove ml env f) (dt_forEachInRange ml 0 (NOT 0) new) source
      in (source, new)))"

definition di_splitSection :: "locator \<Rightarrow> 'mt merkle_lib \<Rightarrow> hash_env \<Rightarrow> string
    \<Rightarrow> 'mt digest_indexer \<Rightarrow> 'mt digest_indexer" where
  "di_splitSection lo ml env loc di =
     (let sect = lo_section lo loc
      in if RBT.is_empty (di_forest di) \<or> RBT.lookup (di_forest di) sect \<noteq> None then di
         else
           (let forest = RBT.insert sect (dt_null ml) (di_forest di);
                nxt = nextTree forest sect;
                source = forest_at ml nxt forest;
                (new, di) = initTree lo ml sect (dt_null ml, di);
                final = hash_integer env (Hash env loc);
                first = (if nxt = hd (RBT.keys forest) \<and> ti_id (dt_id source) < sect
                         then bswap64 (bswap64 (hash_integer env (fromHash (ti_id (dt_id source)))) + 1)
                         else 0);
                (source, new) = move_range ml env first final (source, new)
            in prune ml sect (prune ml nxt
                 (di\<lparr>di_forest := RBT.insert nxt source (RBT.insert sect new forest)\<rparr>))))"

definition di_cannibalizeSection :: "locator \<Rightarrow> 'mt merkle_lib \<Rightarrow> hash_env \<Rightarrow> string
    \<Rightarrow> 'mt digest_indexer \<Rightarrow> 'mt digest_indexer" where
  "di_cannibalizeSection lo ml env loc di =
     (let sect = lo_section lo loc; forest = di_forest di
      in case RBT.lookup forest sect of
           None \<Rightarrow> di
         | Some dying \<Rightarrow>
             (let nxt = nextTree forest sect
              in if nxt = sect then di
                 else
                   (let refugee = forest_at ml nxt forest;
                        refugee = fold (\<lambda>(k, h, f). dt_add ml env f h)
                                    (dt_forEachInRange ml 0 (NOT 0) dying) refugee;
                        i = ti_id (dt_id dying)
                    in di\<lparr>di_unwanted := di_unwanted di - {i}, di_wanted := di_wanted di - {i},
                          di_forest := RBT.delete sect (RBT.insert nxt refugee forest)\<rparr>)))"

definition di_find :: "'mt merkle_lib \<Rightarrow> string \<Rightarrow> 'mt digest_indexer \<Rightarrow> 'mt digest_tree" where
  "di_find ml i di = forest_at ml i (di_forest di)"

text \<open>turbolib's \<^verbatim>\<open>random::select\<close>: \<open>n\<close> is the random number, None is \<^verbatim>\<open>end()\<close>.\<close>

definition select :: "nat \<Rightarrow> 'x list \<Rightarrow> 'x option" where
  "select n xs = (if xs = [] then None else Some (xs ! (n mod length xs)))"

definition di_randomTree :: "'mt merkle_lib \<Rightarrow> nat \<Rightarrow> 'mt digest_indexer \<Rightarrow> 'mt digest_tree" where
  "di_randomTree ml n di =
     (if RBT.is_empty (di_forest di) then dt_null ml
      else case select n (sorted_list_of_set (di_wanted di)) of
             None \<Rightarrow> dt_null ml | Some i \<Rightarrow> di_find ml i di)"

definition di_unwantedTree :: "'mt merkle_lib \<Rightarrow> nat \<Rightarrow> 'mt digest_indexer \<Rightarrow> 'mt digest_tree" where
  "di_unwantedTree ml n di =
     (if RBT.is_empty (di_forest di) then dt_null ml
      else case select n (sorted_list_of_set (di_unwanted di)) of
             None \<Rightarrow> dt_null ml | Some i \<Rightarrow> di_find ml i di)"

definition di_list :: "'mt digest_indexer \<Rightarrow> string list" where
  "di_list di = RBT.keys (di_forest di)"

section \<open>UniversalDigestIndexer\<close>

definition UniversalDigestIndexer :: "'mt merkle_lib \<Rightarrow> 'mt digest_tree" where
  "UniversalDigestIndexer ml = setId \<lparr>ti_id = [], ti_mirrors = 0\<rparr> (dt_null ml)"

definition ui_update :: "'mt merkle_lib \<Rightarrow> hash_env \<Rightarrow> string \<Rightarrow> u64 \<Rightarrow> 'mt digest_tree \<Rightarrow> 'mt digest_tree" where
  "ui_update ml env key val tree = dt_update ml env key val tree"

definition ui_remove :: "'mt merkle_lib \<Rightarrow> hash_env \<Rightarrow> string \<Rightarrow> 'mt digest_tree \<Rightarrow> 'mt digest_tree" where
  "ui_remove ml env key tree = dt_remove ml env key tree"

definition ui_splitSection :: "string \<Rightarrow> 'mt digest_tree \<Rightarrow> 'mt digest_tree" where
  "ui_splitSection loc tree = tree"

definition ui_cannibalizeSection :: "string \<Rightarrow> 'mt digest_tree \<Rightarrow> 'mt digest_tree" where
  "ui_cannibalizeSection loc tree = tree"

definition ui_find :: "string \<Rightarrow> 'mt digest_tree \<Rightarrow> 'mt digest_tree" where
  "ui_find i tree = tree"

definition ui_randomTree :: "'mt digest_tree \<Rightarrow> 'mt digest_tree" where
  "ui_randomTree tree = tree"

definition ui_unwantedTree :: "'mt merkle_lib \<Rightarrow> 'mt digest_tree \<Rightarrow> 'mt digest_tree" where
  "ui_unwantedTree ml tree = dt_null ml"

section \<open>What a tree holds\<close>

definition dt_hash :: "'mt merkle_lib \<Rightarrow> 'mt digest_tree \<Rightarrow> u64 \<rightharpoonup> u64" where
  "dt_hash ml t = (\<lambda>k. map_option fst (mk_find ml k (dt_tree t)))"

definition dt_entries :: "'mt merkle_lib \<Rightarrow> 'mt digest_tree \<Rightarrow> (u64 \<times> u64 \<times> string) set" where
  "dt_entries ml t = {(k, h, f). mk_find ml k (dt_tree t) = Some (h, f)}"

definition dt_keys :: "'mt merkle_lib \<Rightarrow> 'mt digest_tree \<Rightarrow> u64 set" where
  "dt_keys ml t = {k. mk_find ml k (dt_tree t) \<noteq> None}"

text \<open>An entry is filed under the hash of its name.\<close>

definition wf_tree :: "'mt merkle_lib \<Rightarrow> hash_env \<Rightarrow> 'mt digest_tree \<Rightarrow> bool" where
  "wf_tree ml env t \<longleftrightarrow> (\<forall>k h f. mk_find ml k (dt_tree t) = Some (h, f) \<longrightarrow> keyhash env f = k)"

lemma dt_null_simps [simp]:
  assumes "merkle_map ml"
  shows "dt_keys ml (dt_null ml) = {}" "dt_entries ml (dt_null ml) = {}" "wf_tree ml env (dt_null ml)"
    "dt_empty ml (dt_null ml)"
  using merkle_mapD(1) [OF assms] merkle_mapD(6) [OF assms]
  by (simp_all add: dt_keys_def dt_entries_def dt_null_def wf_tree_def dt_empty_def)

lemma setId_simps [simp]:
  "dt_tree (setId i t) = dt_tree t" "dt_keys ml (setId i t) = dt_keys ml t"
  "dt_entries ml (setId i t) = dt_entries ml t" "wf_tree ml env (setId i t) = wf_tree ml env t"
  "dt_empty ml (setId i t) = dt_empty ml t" "dt_id (setId i t) = i"
  by (simp_all add: setId_def dt_keys_def dt_entries_def wf_tree_def dt_empty_def)

lemma dt_id_simps [simp]:
  "dt_id (dt_update ml env key v t) = dt_id t" "dt_id (dt_add ml env key h t) = dt_id t"
  "dt_id (dt_remove ml env key t) = dt_id t"
  by (simp_all add: dt_update_def dt_add_def dt_remove_def Let_def split: option.split)

lemma dt_empty_iff:
  assumes "merkle_map ml"
  shows "dt_empty ml t \<longleftrightarrow> dt_keys ml t = {}"
  by (simp add: dt_empty_def dt_keys_def merkle_mapD(6) [OF assms] del: not_None_eq)

lemma mk_insert_keys:
  assumes "merkle_map ml"
  shows "mk_find ml j (mk_insert ml k h f t) \<noteq> None \<longleftrightarrow> j = k \<or> mk_find ml j t \<noteq> None"
proof (cases "j = k")
  case True
  then show ?thesis
    using merkle_mapD(2) [OF assms, where k = k and t = t and h = h and f = f]
      merkle_mapD(3) [OF assms, where k = k and t = t and h = h and f = f]
    by (cases "mk_find ml k t") auto
next
  case False
  then show ?thesis using merkle_mapD(4) [OF assms] by simp
qed

lemma dt_keys_update:
  assumes "merkle_map ml"
  shows "dt_keys ml (dt_update ml env key v t) = insert (keyhash env key) (dt_keys ml t)"
  using mk_insert_keys [OF assms] merkle_mapD(5) [OF assms]
  by (auto simp: dt_keys_def dt_update_def Let_def split: option.splits if_splits)

lemma dt_keys_add:
  assumes "merkle_map ml"
  shows "dt_keys ml (dt_add ml env key h t) = insert (keyhash env key) (dt_keys ml t)"
  using mk_insert_keys [OF assms] by (auto simp: dt_keys_def dt_add_def)

lemma dt_keys_remove:
  assumes "merkle_map ml"
  shows "dt_keys ml (dt_remove ml env key t) = dt_keys ml t - {keyhash env key}"
  using merkle_mapD(5) [OF assms] by (auto simp: dt_keys_def dt_remove_def split: if_splits)

lemma mk_insert_cases:
  assumes "merkle_map ml" "mk_find ml j (mk_insert ml k h f t) = Some e"
  shows "j = k \<and> e = (h, f) \<or> mk_find ml j t = Some e"
  using assms(2) merkle_mapD(3) [OF assms(1), of k h f t] merkle_mapD(4) [OF assms(1), of j k h f t]
  by (cases "j = k") auto

lemma wf_tree_add:
  assumes "merkle_map ml" "wf_tree ml env t"
  shows "wf_tree ml env (dt_add ml env key h t)"
  using assms(2) by (auto simp: wf_tree_def dt_add_def dest!: mk_insert_cases [OF assms(1)])

lemma wf_tree_remove:
  assumes "merkle_map ml" "wf_tree ml env t"
  shows "wf_tree ml env (dt_remove ml env key t)"
  using assms(2) merkle_mapD(5) [OF assms(1)] by (auto simp: wf_tree_def dt_remove_def split: if_splits)

lemma wf_tree_update:
  assumes "merkle_map ml" "wf_tree ml env t"
  shows "wf_tree ml env (dt_update ml env key v t)"
  using assms(2) merkle_mapD(5) [OF assms(1)]
  by (auto simp: wf_tree_def dt_update_def Let_def dest!: mk_insert_cases [OF assms(1)]
      split: option.splits if_splits)

lemma dt_hash_update:
  assumes "merkle_map ml"
  shows "dt_hash ml (dt_update ml env key v t) = (dt_hash ml t)(keyhash env key \<mapsto>
    v XOR (case dt_hash ml t (keyhash env key) of None \<Rightarrow> keyhash env key | Some old \<Rightarrow> old))"
proof (rule ext)
  fix j
  let ?k = "keyhash env key"
  show "dt_hash ml (dt_update ml env key v t) j = ((dt_hash ml t)(?k \<mapsto>
    v XOR (case dt_hash ml t ?k of None \<Rightarrow> ?k | Some old \<Rightarrow> old))) j"
    using merkle_mapD(2) [OF assms, of ?k] merkle_mapD(4) [OF assms, of j ?k] merkle_mapD(5) [OF assms]
    by (cases "j = ?k"; cases "mk_find ml ?k (dt_tree t)")
      (auto simp: dt_hash_def dt_update_def Let_def)
qed

section \<open>Moving a range\<close>

lemma in_range_all [simp]: "in_range 0 (- 1) k"
  by (simp add: in_range_def)

lemma set_forEachInRange:
  assumes "merkle_map ml"
  shows "(k, h, f) \<in> set (dt_forEachInRange ml a b t) \<longleftrightarrow> (k, h, f) \<in> dt_entries ml t \<and> in_range a b k"
  using merkle_mapD(7) [OF assms] by (simp add: dt_forEachInRange_def dt_entries_def)

lemma fold_dt_add:
  assumes "merkle_map ml" "distinct (map fst es)" "\<forall>(k, h, f) \<in> set es. keyhash env f = k"
    "\<forall>(k, h, f) \<in> set es. k \<notin> dt_keys ml t"
  shows "dt_entries ml (fold (\<lambda>(k, h, f). dt_add ml env f h) es t) = dt_entries ml t \<union> set es"
  using assms(2-4)
proof (induction es arbitrary: t)
  case (Cons e es)
  obtain k h f where e: "e = (k, h, f)" by (cases e)
  with Cons.prems have k: "keyhash env f = k" "mk_find ml k (dt_tree t) = None"
    by (auto simp: dt_keys_def)
  have add: "dt_entries ml (dt_add ml env f h t) = insert (k, h, f) (dt_entries ml t)"
    using k merkle_mapD(2) [OF assms(1)] merkle_mapD(4) [OF assms(1)]
    by (auto simp: dt_entries_def dt_add_def dest: mk_insert_cases [OF assms(1)]) (metis option.distinct(1))
  have "\<forall>(k', h', f') \<in> set es. k' \<notin> dt_keys ml (dt_add ml env f h t)"
    using Cons.prems e k dt_keys_add [OF assms(1)] by (force simp: image_iff)
  with Cons.prems e have "dt_entries ml (fold (\<lambda>(k, h, f). dt_add ml env f h) es (dt_add ml env f h t))
      = dt_entries ml (dt_add ml env f h t) \<union> set es"
    by (intro Cons.IH) auto
  then show ?case by (simp add: e add)
qed simp

lemma fold_dt_add_keys:
  assumes "merkle_map ml"
  shows "dt_keys ml (fold (\<lambda>(k, h, f). dt_add ml env f h) es t)
    = dt_keys ml t \<union> (\<lambda>(k, h, f). keyhash env f) ` set es"
  by (induction es arbitrary: t) (auto simp: dt_keys_add [OF assms])

lemma fold_dt_add_wf:
  assumes "merkle_map ml" "wf_tree ml env t"
  shows "wf_tree ml env (fold (\<lambda>(k, h, f). dt_add ml env f h) es t)"
  using assms(2) by (induction es arbitrary: t) (auto intro: wf_tree_add [OF assms(1)])

lemma fold_dt_add_id [simp]: "dt_id (fold (\<lambda>(k, h, f). dt_add ml env f h) es t) = dt_id t"
  by (induction es arbitrary: t) auto

lemma fold_dt_remove_id [simp]: "dt_id (fold (\<lambda>(k, h, f). dt_remove ml env f) es t) = dt_id t"
  by (induction es arbitrary: t) auto

lemma fold_dt_remove:
  assumes "merkle_map ml"
  shows "dt_entries ml (fold (\<lambda>(k, h, f). dt_remove ml env f) es t)
    = {(k, h, f) \<in> dt_entries ml t. k \<notin> (\<lambda>(k, h, f). keyhash env f) ` set es}"
proof (induction es arbitrary: t)
  case (Cons e es)
  have "dt_entries ml (dt_remove ml env f t) = {(k, h', f') \<in> dt_entries ml t. k \<noteq> keyhash env f}" for f
    using merkle_mapD(5) [OF assms] by (auto simp: dt_entries_def dt_remove_def split: if_splits)
  with Cons.IH show ?case by (auto split: prod.splits)
qed simp

lemma wf_tree_entries: "wf_tree ml env t \<longleftrightarrow> (\<forall>(k, h, f) \<in> dt_entries ml t. keyhash env f = k)"
  by (auto simp: wf_tree_def dt_entries_def)

lemma dt_keys_entries: "dt_keys ml t = fst ` dt_entries ml t"
  by (force simp: dt_keys_def dt_entries_def)

lemma move_range_entries:
  assumes "merkle_map ml" "wf_tree ml env source" "dt_entries ml new = {}"
    and "move_range ml env a b (source, new) = (source', new')"
  shows "dt_entries ml new' = {(k, h, f) \<in> dt_entries ml source. in_range a b k}"
    "dt_entries ml source' = {(k, h, f) \<in> dt_entries ml source. \<not> in_range a b k}"
    "dt_id source' = dt_id source" "dt_id new' = dt_id new"
proof -
  let ?es = "dt_forEachInRange ml a b source"
  have new': "new' = fold (\<lambda>(k, h, f). dt_add ml env f h) ?es new"
    and source': "source' = fold (\<lambda>(k, h, f). dt_remove ml env f) (dt_forEachInRange ml 0 (NOT 0) new') source"
    using assms(4) by (auto simp: move_range_def Let_def)
  show "dt_id source' = dt_id source" "dt_id new' = dt_id new" by (simp_all add: source' new')
  have es: "set ?es = {(k, h, f) \<in> dt_entries ml source. in_range a b k}"
    using set_forEachInRange [OF assms(1)] by auto
  have "dt_entries ml new' = dt_entries ml new \<union> set ?es"
    unfolding new' using es assms(2,3) merkle_mapD(8) [OF assms(1)]
    by (intro fold_dt_add [OF assms(1)])
      (auto simp: wf_tree_entries dt_keys_entries dt_forEachInRange_def)
  then show n: "dt_entries ml new' = {(k, h, f) \<in> dt_entries ml source. in_range a b k}"
    using es assms(3) by simp
  have "set (dt_forEachInRange ml 0 (NOT 0) new') = dt_entries ml new'"
    using set_forEachInRange [OF assms(1)] by auto
  then have "(\<lambda>(k, h, f). keyhash env f) ` set (dt_forEachInRange ml 0 (NOT 0) new') = fst ` dt_entries ml new'"
    using n assms(2) by (simp only:) (rule image_cong [OF refl], auto simp: wf_tree_entries)
  moreover have "fst ` dt_entries ml new' = {k \<in> fst ` dt_entries ml source. in_range a b k}"
    unfolding n by (auto intro: rev_image_eqI)
  ultimately show "dt_entries ml source' = {(k, h, f) \<in> dt_entries ml source. \<not> in_range a b k}"
    unfolding source' fold_dt_remove [OF assms(1)] by (auto intro: rev_image_eqI)
qed

section \<open>The forest\<close>

text \<open>
  Every tree of the forest is filed under its id, has the copies of the index and is not empty, and
  every section that has a tree is exactly one of wanted and unwanted.
\<close>

definition di_ok :: "'mt merkle_lib \<Rightarrow> hash_env \<Rightarrow> 'mt digest_indexer \<Rightarrow> bool" where
  "di_ok ml env di \<longleftrightarrow>
     (\<forall>s t. RBT.lookup (di_forest di) s = Some t \<longrightarrow>
        \<not> dt_empty ml t \<and> wf_tree ml env t \<and> dt_id t = \<lparr>ti_id = s, ti_mirrors = di_mirrors di\<rparr>)
   \<and> di_wanted di \<union> di_unwanted di = dom (RBT.lookup (di_forest di))
   \<and> di_wanted di \<inter> di_unwanted di = {}"

definition di_entries :: "'mt merkle_lib \<Rightarrow> 'mt digest_indexer \<Rightarrow> (u64 \<times> u64 \<times> string) set" where
  "di_entries ml di = (\<Union>t \<in> ran (RBT.lookup (di_forest di)). dt_entries ml t)"

definition di_keys :: "'mt merkle_lib \<Rightarrow> 'mt digest_indexer \<Rightarrow> u64 set" where
  "di_keys ml di = (\<Union>t \<in> ran (RBT.lookup (di_forest di)). dt_keys ml t)"

lemma di_keys_entries: "di_keys ml di = fst ` di_entries ml di"
  by (auto simp: di_keys_def di_entries_def dt_keys_entries)

lemma di_entries_iff:
  "x \<in> di_entries ml di \<longleftrightarrow> (\<exists>s t. RBT.lookup (di_forest di) s = Some t \<and> x \<in> dt_entries ml t)"
  by (auto simp: di_entries_def ran_def)

text \<open>One tree and the others.\<close>

definition other_entries :: "'mt merkle_lib \<Rightarrow> string \<Rightarrow> (string, 'mt digest_tree) rbt \<Rightarrow> (u64 \<times> u64 \<times> string) set" where
  "other_entries ml s f = {x. \<exists>s' t. s' \<noteq> s \<and> RBT.lookup f s' = Some t \<and> x \<in> dt_entries ml t}"

lemma other_entries_simps [simp]:
  "other_entries ml s (RBT.insert s t f) = other_entries ml s f"
  "other_entries ml s (RBT.delete s f) = other_entries ml s f"
  by (auto simp: other_entries_def split: if_splits)

lemma di_entries_split:
  "di_entries ml di = (case RBT.lookup (di_forest di) s of None \<Rightarrow> {} | Some t \<Rightarrow> dt_entries ml t)
     \<union> other_entries ml s (di_forest di)"
proof (rule set_eqI)
  fix x
  show "x \<in> di_entries ml di \<longleftrightarrow> x \<in> (case RBT.lookup (di_forest di) s of None \<Rightarrow> {} | Some t \<Rightarrow> dt_entries ml t)
     \<union> other_entries ml s (di_forest di)"
    unfolding di_entries_iff other_entries_def
    by (cases "RBT.lookup (di_forest di) s") (simp, metis option.distinct(1), simp, metis option.inject)
qed

lemma di_keys_split:
  "di_keys ml di = (case RBT.lookup (di_forest di) s of None \<Rightarrow> {} | Some t \<Rightarrow> dt_keys ml t)
     \<union> fst ` other_entries ml s (di_forest di)"
  unfolding di_keys_entries di_entries_split [of ml di s] image_Un
  by (simp add: dt_keys_entries split: option.split)

lemma di_okD:
  assumes "di_ok ml env di" "RBT.lookup (di_forest di) s = Some t"
  shows "\<not> dt_empty ml t" "wf_tree ml env t" "ti_id (dt_id t) = s" "ti_mirrors (dt_id t) = di_mirrors di"
  using assms by (simp_all add: di_ok_def)

text \<open>
  While an operation is under way some trees may be empty; what has been put into the two sets is
  right. \<open>prune\<close> then restores the invariant for one tree.
\<close>

definition di_pre :: "'mt merkle_lib \<Rightarrow> hash_env \<Rightarrow> string set \<Rightarrow> 'mt digest_indexer \<Rightarrow> bool" where
  "di_pre ml env S di \<longleftrightarrow>
     (\<forall>s t. RBT.lookup (di_forest di) s = Some t \<longrightarrow>
        (s \<notin> S \<longrightarrow> \<not> dt_empty ml t) \<and> wf_tree ml env t \<and> dt_id t = \<lparr>ti_id = s, ti_mirrors = di_mirrors di\<rparr>)
   \<and> di_wanted di \<union> di_unwanted di = dom (RBT.lookup (di_forest di))
   \<and> di_wanted di \<inter> di_unwanted di = {}"

lemma di_pre_empty: "di_pre ml env {} di = di_ok ml env di"
  by (simp add: di_pre_def di_ok_def)

lemma prune_pre:
  assumes "di_pre ml env S di" "RBT.lookup (di_forest di) s = Some t"
  shows "di_pre ml env (S - {s}) (prune ml s di)"
proof (cases "dt_empty ml t")
  case True
  have "ti_id (dt_id t) = s" using assms by (simp add: di_pre_def)
  with True assms show ?thesis
    by (auto simp: di_pre_def prune_def forest_at_def Let_def split: if_splits)
next
  case False
  with assms show ?thesis by (auto simp: di_pre_def prune_def forest_at_def Let_def)
qed

lemma prune_entries:
  assumes "merkle_map ml" "RBT.lookup (di_forest di) s = Some t"
  shows "di_entries ml (prune ml s di) = di_entries ml di"
proof -
  have empty: "dt_entries ml t = {}" if "dt_empty ml t"
    using that dt_empty_iff [OF assms(1)] dt_keys_entries [of ml t] by simp
  show ?thesis
  proof (cases "dt_empty ml t")
    case True
    then have "dt_entries ml t = {}" by (rule empty)
    with True assms(2) show ?thesis
      by (intro set_eqI) (simp add: di_entries_iff prune_def forest_at_def Let_def, metis empty_iff option.inject)
  next
    case False
    then show ?thesis using assms(2) by (simp add: prune_def forest_at_def)
  qed
qed

lemma lookup_prune_other: "s' \<noteq> s \<Longrightarrow> RBT.lookup (di_forest (prune ml s di)) s' = RBT.lookup (di_forest di) s'"
  by (simp add: prune_def Let_def)

lemma keys_eq_dom: "set (RBT.keys f) = dom (RBT.lookup f)"
  by (simp add: RBT.lookup_keys)

lemma nextTree_mem:
  assumes "RBT.lookup f s \<noteq> None"
  shows "nextTree f s \<in> dom (RBT.lookup f)"
proof -
  have "RBT.keys f \<noteq> []" using assms keys_eq_dom [of f] by (metis domIff empty_iff empty_set)
  then have "hd (RBT.keys f) \<in> set (RBT.keys f)" by simp
  moreover have "filter (\<lambda>x. s < x) (RBT.keys f) = x # xs \<Longrightarrow> x \<in> set (RBT.keys f)" for x xs
    by (metis filter_is_subset list.set_intros(1) subsetD)
  ultimately show ?thesis
    unfolding nextTree_def by (auto simp: keys_eq_dom split: list.split)
qed

text \<open>With two trees the next one is another one.\<close>

lemma nextTree_other:
  assumes "RBT.lookup f s \<noteq> None" "RBT.lookup f s' \<noteq> None" "s \<noteq> s'"
  shows "nextTree f s \<noteq> s"
proof (cases "filter (\<lambda>x. s < x) (RBT.keys f)")
  case Nil
  have mem: "s \<in> set (RBT.keys f)" "s' \<in> set (RBT.keys f)" using assms by (auto simp: keys_eq_dom)
  then have "\<not> s < s'" using Nil by (auto simp: filter_empty_conv)
  moreover have "hd (RBT.keys f) \<le> s'"
    using mem(2) RBT.sorted_keys [of f] by (cases "RBT.keys f") auto
  ultimately show ?thesis using assms(3) Nil by (auto simp: nextTree_def)
next
  case (Cons x xs)
  then have "s < x" by (auto simp: filter_eq_Cons_iff)
  then show ?thesis using Cons by (auto simp: nextTree_def)
qed

section \<open>The operations keep the invariant\<close>

lemma di_pre_insert:
  assumes "di_pre ml env S di" "RBT.lookup (di_forest di) s \<noteq> None"
    "wf_tree ml env t" "dt_id t = \<lparr>ti_id = s, ti_mirrors = di_mirrors di\<rparr>" "s \<notin> S \<Longrightarrow> \<not> dt_empty ml t"
  shows "di_pre ml env S (di\<lparr>di_forest := RBT.insert s t (di_forest di)\<rparr>)"
  using assms by (auto simp: di_pre_def)

lemma di_pre_mono: "di_pre ml env S di \<Longrightarrow> S \<subseteq> S' \<Longrightarrow> di_pre ml env S' di"
  by (auto simp: di_pre_def)

text \<open>A new section: its tree gets its id, and it is entered into exactly one of the two sets.\<close>

lemma initTree_new:
  assumes "merkle_map ml" "di_ok ml env di" "RBT.lookup (di_forest di) s = None"
    and "initTree lo ml s (dt_null ml, di) = (t, di')"
  shows "t = setId \<lparr>ti_id = s, ti_mirrors = di_mirrors di\<rparr> (dt_null ml)" "di_mirrors di' = di_mirrors di"
    "di_forest di' = di_forest di"
    "wf_tree ml env t' \<Longrightarrow> dt_id t' = \<lparr>ti_id = s, ti_mirrors = di_mirrors di\<rparr> \<Longrightarrow>
     di_pre ml env (if dt_empty ml t' then {s} else {}) (di'\<lparr>di_forest := RBT.insert s t' (di_forest di)\<rparr>)"
proof -
  let ?mine = "lo_sectionIsMine lo s (unat (di_mirrors di))"
  show t: "t = setId \<lparr>ti_id = s, ti_mirrors = di_mirrors di\<rparr> (dt_null ml)" and "di_mirrors di' = di_mirrors di"
    and "di_forest di' = di_forest di"
    using assms by (auto simp: initTree_def split: if_splits)
  have di': "di' = (if ?mine then di\<lparr>di_wanted := insert s (di_wanted di)\<rparr>
      else di\<lparr>di_unwanted := insert s (di_unwanted di)\<rparr>)"
    using assms(1,4) by (simp add: initTree_def)
  have sets: "di_wanted di \<union> di_unwanted di = dom (RBT.lookup (di_forest di))"
    "di_wanted di \<inter> di_unwanted di = {}" using assms(2) by (simp_all add: di_ok_def)
  moreover have "s \<notin> di_wanted di" "s \<notin> di_unwanted di"
    using sets(1) assms(3) by blast+
  moreover assume "wf_tree ml env t'" "dt_id t' = \<lparr>ti_id = s, ti_mirrors = di_mirrors di\<rparr>"
  then have "\<forall>s' u. RBT.lookup (RBT.insert s t' (di_forest di)) s' = Some u \<longrightarrow>
      (s' \<notin> (if dt_empty ml t' then {s} else {}) \<longrightarrow> \<not> dt_empty ml u) \<and> wf_tree ml env u
        \<and> dt_id u = \<lparr>ti_id = s', ti_mirrors = di_mirrors di\<rparr>"
    using assms(2) by (simp add: di_ok_def)
  ultimately show "di_pre ml env (if dt_empty ml t' then {s} else {}) (di'\<lparr>di_forest := RBT.insert s t' (di_forest di)\<rparr>)"
    unfolding di' di_pre_def by simp
qed

lemma di_update_at:
  assumes "merkle_map ml" "di_ok ml env di"
  shows "di_ok ml env (di_update lo ml env key v di)
    \<and> di_keys ml (di_update lo ml env key v di) = insert (keyhash env key) (di_keys ml di)"
proof (cases "RBT.lookup (di_forest di) (lo_section lo key)")
  case None
  let ?s = "lo_section lo key"
  obtain t di' where new: "initTree lo ml ?s (dt_null ml, di) = (t, di')" by fastforce
  note init = initTree_new [OF assms None new]
  have upd: "di_update lo ml env key v di = di'\<lparr>di_forest := RBT.insert ?s (dt_update ml env key v t) (di_forest di)\<rparr>"
    using None new init(3) by (simp add: di_update_def forest_at_def)
  have keys: "dt_keys ml (dt_update ml env key v t) = {keyhash env key}"
    using init(1) assms(1) by (simp add: dt_keys_update)
  have "di_ok ml env (di_update lo ml env key v di)"
  proof -
    let ?t = "dt_update ml env key v t"
    have "wf_tree ml env ?t" "dt_id ?t = \<lparr>ti_id = ?s, ti_mirrors = di_mirrors di\<rparr>" "\<not> dt_empty ml ?t"
      using init(1) keys wf_tree_update [OF assms(1)] assms(1) by (simp_all add: dt_empty_iff)
    with init(4) [of ?t] have "di_pre ml env {} (di'\<lparr>di_forest := RBT.insert ?s ?t (di_forest di)\<rparr>)"
      by simp
    then show ?thesis unfolding upd di_pre_empty .
  qed
  moreover have "di_keys ml (di_update lo ml env key v di) = insert (keyhash env key) (di_keys ml di)"
    using None keys unfolding upd by (simp add: di_keys_split [of ml _ ?s])
  ultimately show ?thesis by simp
next
  case (Some t)
  note ok = di_okD [OF assms(2) Some]
  have upd: "di_update lo ml env key v di = di\<lparr>di_forest :=
      RBT.insert (lo_section lo key) (dt_update ml env key v t) (di_forest di)\<rparr>"
    using Some ok by (simp add: di_update_def forest_at_def initTree_def)
  have "di_ok ml env (di_update lo ml env key v di)"
    using assms(2) ok Some dt_keys_update [OF assms(1)] wf_tree_update [OF assms(1)]
    unfolding upd by (auto simp: di_ok_def dt_empty_iff [OF assms(1)])
  moreover have "di_keys ml (di_update lo ml env key v di) = insert (keyhash env key) (di_keys ml di)"
    using Some dt_keys_update [OF assms(1)] unfolding upd
    by (simp add: di_keys_split [of ml _ "lo_section lo key"])
  ultimately show ?thesis by simp
qed

lemma di_remove_at:
  assumes "merkle_map ml" "di_ok ml env di"
  shows "di_ok ml env (di_remove lo ml env key di) \<and> di_keys ml (di_remove lo ml env key di) \<subseteq> di_keys ml di"
proof (cases "RBT.lookup (di_forest di) (lo_section lo key)")
  case None
  then show ?thesis using assms by (simp add: di_remove_def)
next
  case (Some t)
  let ?s = "lo_section lo key"
  let ?t = "dt_remove ml env key t"
  let ?di = "di\<lparr>di_forest := RBT.insert ?s ?t (di_forest di)\<rparr>"
  note ok = di_okD [OF assms(2) Some]
  have "di_pre ml env {?s} di" using assms(2) di_pre_mono [of ml env "{}" di] by (simp add: di_pre_empty)
  then have "di_pre ml env {?s} ?di"
    by (rule di_pre_insert) (use Some ok wf_tree_remove [OF assms(1) ok(2)] in \<open>simp_all add: tree_id.equality\<close>)
  from prune_pre [OF this, of ?s ?t] have "di_ok ml env (prune ml ?s ?di)"
    by (simp add: di_pre_empty)
  moreover have "di_keys ml (prune ml ?s ?di) = di_keys ml ?di"
    using prune_entries [OF assms(1), of ?di ?s ?t] by (simp add: di_keys_entries)
  moreover have "di_keys ml ?di \<subseteq> di_keys ml di"
    using Some dt_keys_remove [OF assms(1)] by (auto simp: di_keys_split [of ml _ ?s])
  ultimately show ?thesis using Some by (simp add: di_remove_def Let_def)
qed

lemma di_pre_cong:
  "RBT.lookup f = RBT.lookup g \<Longrightarrow> di_pre ml env S (di\<lparr>di_forest := f\<rparr>) = di_pre ml env S (di\<lparr>di_forest := g\<rparr>)"
  by (simp add: di_pre_def)

lemma other_entries_insert:
  assumes "s \<noteq> s'" "RBT.lookup f s' = None \<or> RBT.lookup f s' = Some (dt_null ml)" "merkle_map ml"
  shows "other_entries ml s (RBT.insert s' t f) = dt_entries ml t \<union> other_entries ml s f"
proof (rule set_eqI)
  fix x
  have "\<not> (\<exists>u. RBT.lookup f s' = Some u \<and> x \<in> dt_entries ml u)" using assms(2,3) by auto
  then show "x \<in> other_entries ml s (RBT.insert s' t f) \<longleftrightarrow> x \<in> dt_entries ml t \<union> other_entries ml s f"
    using assms(1) by (simp add: other_entries_def) metis
qed

lemma other_entries_delete:
  assumes "s \<noteq> s'" "RBT.lookup f s' = Some t"
  shows "other_entries ml s f = dt_entries ml t \<union> other_entries ml s (RBT.delete s' (RBT.insert s u f))"
proof (rule set_eqI)
  fix x
  show "x \<in> other_entries ml s f \<longleftrightarrow>
      x \<in> dt_entries ml t \<union> other_entries ml s (RBT.delete s' (RBT.insert s u f))"
    using assms by (simp add: other_entries_def) (metis option.inject)
qed

lemma di_split_at:
  assumes ml: "merkle_map ml" and ok: "di_ok ml env di"
  shows "di_ok ml env (di_splitSection lo ml env loc di)
    \<and> di_entries ml (di_splitSection lo ml env loc di) = di_entries ml di"
proof (cases "RBT.is_empty (di_forest di) \<or> RBT.lookup (di_forest di) (lo_section lo loc) \<noteq> None")
  case True
  then show ?thesis using ok by (simp add: di_splitSection_def Let_def)
next
  case False
  let ?s = "lo_section lo loc"
  let ?f = "RBT.insert ?s (dt_null ml) (di_forest di)"
  let ?n = "nextTree ?f ?s"
  obtain s' where s': "RBT.lookup (di_forest di) s' \<noteq> None"
    using False by (metis RBT.is_empty_empty RBT.lookup_empty_empty)
  have fresh: "RBT.lookup (di_forest di) ?s = None" using False by simp
  have ne: "?n \<noteq> ?s" using s' fresh by (intro nextTree_other [of ?f ?s s']) auto
  have "?n \<in> dom (RBT.lookup ?f)" by (rule nextTree_mem) simp
  then obtain src where src: "RBT.lookup (di_forest di) ?n = Some src" using ne by auto
  have at_n: "forest_at ml ?n ?f = src" using src ne by (simp add: forest_at_def)
  obtain new0 di' where init: "initTree lo ml ?s (dt_null ml, di) = (new0, di')" by fastforce
  define a where "a = (if ?n = hd (RBT.keys ?f) \<and> ti_id (dt_id src) < ?s
      then bswap64 (bswap64 (hash_integer env (fromHash (ti_id (dt_id src)))) + 1) else 0)"
  obtain src' new where move: "move_range ml env a (hash_integer env (Hash env loc)) (src, new0) = (src', new)"
    by fastforce
  let ?D = "di'\<lparr>di_forest := RBT.insert ?n src' (RBT.insert ?s new ?f)\<rparr>"
  have split: "di_splitSection lo ml env loc di = prune ml ?s (prune ml ?n ?D)"
    by (simp only: di_splitSection_def Let_def False if_False at_n init prod.case move [unfolded a_def])
  note new0 = initTree_new [OF ml ok fresh init]
  have empty: "dt_entries ml new0 = {}" using new0(1) ml by simp
  note mv = move_range_entries [OF ml di_okD(2) [OF ok src] empty move]
  have wf: "wf_tree ml env src'" "wf_tree ml env new"
    using di_okD(2) [OF ok src] mv(1,2) by (auto simp: wf_tree_entries)
  have ids: "dt_id src' = \<lparr>ti_id = ?n, ti_mirrors = di_mirrors di'\<rparr>" "dt_id new = \<lparr>ti_id = ?s, ti_mirrors = di_mirrors di\<rparr>"
    using mv(3,4) new0(1,2) ok src by (simp_all add: di_ok_def)
  have "di_pre ml env {?s, ?n} (di'\<lparr>di_forest := RBT.insert ?s new (di_forest di)\<rparr>)"
    by (rule di_pre_mono [OF new0(4) [OF wf(2) ids(2)]]) auto
  then have "di_pre ml env {?s, ?n} (di'\<lparr>di_forest := RBT.insert ?s new ?f\<rparr>)"
    by (rule iffD1 [OF di_pre_cong, rotated]) (simp add: fun_eq_iff)
  then have "di_pre ml env {?s, ?n} ?D"
    using di_pre_insert [of ml env "{?s, ?n}" "di'\<lparr>di_forest := RBT.insert ?s new ?f\<rparr>" ?n src'] src ne wf(1) ids(1)
    by simp
  from prune_pre [OF this, of ?n src'] have pre: "di_pre ml env {?s} (prune ml ?n ?D)"
    using ne by (simp add: insert_Diff_if)
  have at: "RBT.lookup (di_forest (prune ml ?n ?D)) ?s = Some new"
    using ne by (simp add: lookup_prune_other)
  from prune_pre [OF pre this] have "di_ok ml env (di_splitSection lo ml env loc di)"
    unfolding split by (simp add: di_pre_empty)
  moreover have "di_entries ml (di_splitSection lo ml env loc di) = di_entries ml ?D"
    unfolding split using prune_entries [OF ml at] prune_entries [OF ml, of ?D ?n src'] by simp
  moreover have "di_entries ml ?D = dt_entries ml src' \<union> (dt_entries ml new \<union> other_entries ml ?n (di_forest di))"
    unfolding di_entries_split [of ml ?D ?n]
    using ne fresh ml dt_null_simps(2) [OF ml] by (simp add: other_entries_insert)
  moreover have "di_entries ml di = dt_entries ml src \<union> other_entries ml ?n (di_forest di)"
    using src by (simp add: di_entries_split [of ml di ?n])
  ultimately show ?thesis using mv(1,2) by auto
qed

lemma di_cannibalize_at:
  assumes ml: "merkle_map ml" and ok: "di_ok ml env di"
  shows "di_ok ml env (di_cannibalizeSection lo ml env loc di)
    \<and> di_keys ml (di_cannibalizeSection lo ml env loc di) = di_keys ml di"
proof (cases "RBT.lookup (di_forest di) (lo_section lo loc)")
  case None
  then show ?thesis using ok by (simp add: di_cannibalizeSection_def Let_def)
next
  case (Some dying)
  let ?s = "lo_section lo loc"
  let ?n = "nextTree (di_forest di) ?s"
  show ?thesis
  proof (cases "?n = ?s")
    case True
    then show ?thesis using Some ok by (simp add: di_cannibalizeSection_def Let_def)
  next
    case False
    obtain refugee where ref: "RBT.lookup (di_forest di) ?n = Some refugee"
      using nextTree_mem [of "di_forest di" ?s] Some by auto
    let ?es = "dt_forEachInRange ml 0 (NOT 0) dying"
    let ?r = "fold (\<lambda>(k, h, f). dt_add ml env f h) ?es refugee"
    let ?D = "di\<lparr>di_unwanted := di_unwanted di - {?s}, di_wanted := di_wanted di - {?s},
        di_forest := RBT.delete ?s (RBT.insert ?n ?r (di_forest di))\<rparr>"
    note okd = di_okD [OF ok Some] and okr = di_okD [OF ok ref]
    have can: "di_cannibalizeSection lo ml env loc di = ?D"
      using Some False ref okd(3) by (simp add: di_cannibalizeSection_def Let_def forest_at_def)
    have "set ?es = dt_entries ml dying" using set_forEachInRange [OF ml] by auto
    then have "(\<lambda>(k, h, f). keyhash env f) ` set ?es = fst ` dt_entries ml dying"
      using okd(2) by (simp only:) (rule image_cong [OF refl], auto simp: wf_tree_entries)
    then have keys: "dt_keys ml ?r = dt_keys ml refugee \<union> dt_keys ml dying"
      unfolding fold_dt_add_keys [OF ml] by (simp add: dt_keys_entries [of ml dying])
    have "di_ok ml env ?D"
      using ok okr ref keys fold_dt_add_wf [OF ml okr(2)] False
      by (auto simp: di_ok_def dt_empty_iff [OF ml])
    moreover have "di_keys ml ?D = di_keys ml di"
    proof -
      have "other_entries ml ?n (di_forest di)
          = dt_entries ml dying \<union> other_entries ml ?n (RBT.delete ?s (RBT.insert ?n ?r (di_forest di)))"
        using False Some by (rule other_entries_delete)
      then show ?thesis
        unfolding di_keys_split [of ml ?D ?n] di_keys_split [of ml di ?n]
        using ref False keys by (auto simp: dt_keys_entries)
    qed
    ultimately show ?thesis unfolding can by simp
  qed
qed

section \<open>The contract of IDigestIndexer\<close>

text \<open>
  The calls that change an index. Between two calls the ring may change, so every call comes with
  the locator it sees.
\<close>

datatype index_call =
  Update string u64
| Remove string
| SplitSection string
| CannibalizeSection string

fun updated_keys :: "(locator \<times> index_call) list \<Rightarrow> string set" where
  "updated_keys [] = {}"
| "updated_keys ((lo, c) # cs) =
     (case c of Update key v \<Rightarrow> insert key (updated_keys cs) | _ \<Rightarrow> updated_keys cs)"

definition no_removal :: "(locator \<times> index_call) list \<Rightarrow> bool" where
  "no_removal cs = list_all (\<lambda>(lo, c). case c of Remove key \<Rightarrow> False | _ \<Rightarrow> True) cs"

text \<open>
  An update files the key, a removal can only take keys away, and neither reorganisation loses or
  invents one.
\<close>

locale digest_index =
  fixes inv :: "'s \<Rightarrow> bool"
    and do_call :: "locator \<Rightarrow> index_call \<Rightarrow> 's \<Rightarrow> 's"
    and keys :: "'s \<Rightarrow> u64 set"
    and hash_of :: "string \<Rightarrow> u64"
  assumes inv_call: "inv s \<Longrightarrow> inv (do_call lo c s)"
    and keys_update: "inv s \<Longrightarrow> keys (do_call lo (Update key v) s) = insert (hash_of key) (keys s)"
    and keys_remove: "inv s \<Longrightarrow> keys (do_call lo (Remove key) s) \<subseteq> keys s"
    and keys_split: "inv s \<Longrightarrow> keys (do_call lo (SplitSection loc) s) = keys s"
    and keys_cannibalize: "inv s \<Longrightarrow> keys (do_call lo (CannibalizeSection loc) s) = keys s"
begin

lemma calls_inv: "inv s \<Longrightarrow> inv (fold (\<lambda>(lo, c). do_call lo c) cs s)"
  by (induction cs arbitrary: s) (auto simp: inv_call)

lemma calls_keys:
  "inv s \<Longrightarrow> keys (fold (\<lambda>(lo, c). do_call lo c) cs s) \<subseteq> keys s \<union> hash_of ` updated_keys cs"
proof (induction cs arbitrary: s)
  case (Cons c cs)
  obtain lo x where c: "c = (lo, x)" by (cases c)
  note IH = Cons.IH [OF inv_call [OF Cons.prems, of lo x]]
  show ?case using IH keys_update [OF Cons.prems] keys_remove [OF Cons.prems]
      keys_split [OF Cons.prems] keys_cannibalize [OF Cons.prems]
    by (cases x) (simp_all add: c, blast+)
qed simp

lemma calls_keys_no_removal:
  "inv s \<Longrightarrow> no_removal cs \<Longrightarrow>
   keys (fold (\<lambda>(lo, c). do_call lo c) cs s) = keys s \<union> hash_of ` updated_keys cs"
proof (induction cs arbitrary: s)
  case (Cons c cs)
  obtain lo x where c: "c = (lo, x)" by (cases c)
  have "no_removal cs" using Cons.prems(2) by (simp add: no_removal_def)
  note IH = Cons.IH [OF inv_call [OF Cons.prems(1), of lo x] this]
  show ?case using IH Cons.prems(2) keys_update [OF Cons.prems(1)]
      keys_split [OF Cons.prems(1)] keys_cannibalize [OF Cons.prems(1)]
    by (cases x) (auto simp: c no_removal_def)
qed simp

end

definition di_call :: "'mt merkle_lib \<Rightarrow> hash_env \<Rightarrow> locator \<Rightarrow> index_call
    \<Rightarrow> 'mt digest_indexer \<Rightarrow> 'mt digest_indexer" where
  "di_call ml env lo c di =
     (case c of Update key v \<Rightarrow> di_update lo ml env key v di
      | Remove key \<Rightarrow> di_remove lo ml env key di
      | SplitSection loc \<Rightarrow> di_splitSection lo ml env loc di
      | CannibalizeSection loc \<Rightarrow> di_cannibalizeSection lo ml env loc di)"

definition ui_call :: "'mt merkle_lib \<Rightarrow> hash_env \<Rightarrow> locator \<Rightarrow> index_call
    \<Rightarrow> 'mt digest_tree \<Rightarrow> 'mt digest_tree" where
  "ui_call ml env lo c t =
     (case c of Update key v \<Rightarrow> ui_update ml env key v t
      | Remove key \<Rightarrow> ui_remove ml env key t
      | SplitSection loc \<Rightarrow> ui_splitSection loc t
      | CannibalizeSection loc \<Rightarrow> ui_cannibalizeSection loc t)"

locale merkle_forest =
  fixes ml :: "'mt merkle_lib" and env :: hash_env
  assumes ml: "merkle_map ml"

sublocale merkle_forest \<subseteq>
  sections: digest_index "di_ok ml env" "di_call ml env" "di_keys ml" "keyhash env"
proof unfold_locales
  fix di :: "'mt digest_indexer" and lo c key v loc
  assume ok: "di_ok ml env di"
  show "di_ok ml env (di_call ml env lo c di)"
    using di_update_at [OF ml ok] di_remove_at [OF ml ok] di_split_at [OF ml ok] di_cannibalize_at [OF ml ok]
    by (simp add: di_call_def split: index_call.split)
  show "di_keys ml (di_call ml env lo (Update key v) di) = insert (keyhash env key) (di_keys ml di)"
    using di_update_at [OF ml ok] by (simp add: di_call_def)
  show "di_keys ml (di_call ml env lo (Remove key) di) \<subseteq> di_keys ml di"
    using di_remove_at [OF ml ok] by (simp add: di_call_def)
  show "di_keys ml (di_call ml env lo (SplitSection loc) di) = di_keys ml di"
    using di_split_at [OF ml ok] by (simp add: di_call_def di_keys_entries)
  show "di_keys ml (di_call ml env lo (CannibalizeSection loc) di) = di_keys ml di"
    using di_cannibalize_at [OF ml ok] by (simp add: di_call_def)
qed

sublocale merkle_forest \<subseteq>
  universal: digest_index "wf_tree ml env" "ui_call ml env" "dt_keys ml" "keyhash env"
  by unfold_locales
    (auto simp: ui_call_def ui_update_def ui_remove_def ui_splitSection_def ui_cannibalizeSection_def
      wf_tree_update [OF ml] wf_tree_remove [OF ml] dt_keys_update [OF ml] dt_keys_remove [OF ml]
      split: index_call.split)

text \<open>A red-black tree with an exclusive or on top is such a tree.\<close>

definition rbt_top :: "(u64, u64 \<times> string) rbt \<Rightarrow> merkle_point" where
  "rbt_top t = (if RBT.is_empty t then \<lparr>mp_key = 0, mp_keybits = 0, mp_hash = 0\<rparr>
     else \<lparr>mp_key = 0, mp_keybits = 1, mp_hash = fold (XOR) (map (fst \<circ> snd) (RBT.entries t)) 0\<rparr>)"

definition rbt_merkle :: "(u64, u64 \<times> string) rbt merkle_lib" where
  "rbt_merkle = \<lparr>mk_new = RBT.empty, mk_null = \<lparr>mp_key = 0, mp_keybits = 0, mp_hash = 0\<rparr>,
     mk_find = (\<lambda>k t. RBT.lookup t k), mk_insert = (\<lambda>k h f. RBT.insert k (h, f)),
     mk_remove = RBT.delete, mk_top = rbt_top,
     mk_diff = (\<lambda>p t. \<lparr>dr_points = [rbt_top t], dr_no_difference = (rbt_top t = p), dr_traverse = False,
        dr_need_range = (mp_keybits (rbt_top t) = 0), dr_need_partial_range = (mp_keybits (rbt_top t) = 1),
        dr_need_exchange = False\<rparr>),
     mk_range = (\<lambda>a b t. filter (\<lambda>x. in_range a b (fst x)) (RBT.entries t))\<rparr>"

lemma merkle_map_rbt_merkle: "merkle_map rbt_merkle"
proof -
  have range: "{x \<in> set (RBT.entries t). in_range a b (fst x)}
      = {(k, h, f). RBT.lookup t k = Some (h, f) \<and> in_range a b k}" for a b and t :: "(u64, u64 \<times> string) rbt"
    by (auto simp: RBT.lookup_in_tree)
  have dist: "distinct (map fst (filter P (RBT.entries t)))" for P and t :: "(u64, u64 \<times> string) rbt"
    by (rule distinct_map_filter [OF RBT.distinct_entries])
  have top: "rbt_top t = \<lparr>mp_key = 0, mp_keybits = 0, mp_hash = 0\<rparr> \<longleftrightarrow> (\<forall>k. RBT.lookup t k = None)" for t
    using RBT.lookup_empty_empty [of t] by (simp add: rbt_top_def fun_eq_iff)
  show ?thesis
    unfolding merkle_map_def rbt_merkle_def by (simp add: range dist top)
qed

interpretation rbt_forest: merkle_forest rbt_merkle env for env
  by unfold_locales (rule merkle_map_rbt_merkle)

end
