(* ===== verification/Tabulator.thy ===== *)
theory Tabulator
  imports Digest "HOL-Library.Multiset"
begin

text \<open>
  \<^verbatim>\<open>deskew/KeyTabulator\<close>: one digest index per number of copies; and
  \<^verbatim>\<open>SynchronizedKeyTabulator\<close>, which hands the changes to a scheduler. The properties of the digest
  index follow.
\<close>

section \<open>KeyTabulator\<close>

text \<open>The objects behind a \<^verbatim>\<open>unique_ptr<IDigestIndexer>\<close>.\<close>

datatype 'mt indexer =
  Universal "'mt digest_tree"
| Sections "'mt digest_indexer"

fun ix_call :: "'mt merkle_lib \<Rightarrow> hash_env \<Rightarrow> locator \<Rightarrow> index_call \<Rightarrow> 'mt indexer \<Rightarrow> 'mt indexer" where
  "ix_call ml env lo c (Universal t) = Universal (ui_call ml env lo c t)"
| "ix_call ml env lo c (Sections di) = Sections (di_call ml env lo c di)"

fun ix_find :: "'mt merkle_lib \<Rightarrow> string \<Rightarrow> 'mt indexer \<Rightarrow> 'mt digest_tree" where
  "ix_find ml i (Universal t) = ui_find i t"
| "ix_find ml i (Sections di) = di_find ml i di"

fun ix_randomTree :: "'mt merkle_lib \<Rightarrow> nat \<Rightarrow> 'mt indexer \<Rightarrow> 'mt digest_tree" where
  "ix_randomTree ml n (Universal t) = ui_randomTree t"
| "ix_randomTree ml n (Sections di) = di_randomTree ml n di"

fun ix_unwantedTree :: "'mt merkle_lib \<Rightarrow> nat \<Rightarrow> 'mt indexer \<Rightarrow> 'mt digest_tree" where
  "ix_unwantedTree ml n (Universal t) = ui_unwantedTree ml t"
| "ix_unwantedTree ml n (Sections di) = di_unwantedTree ml n di"

text \<open>The map is keyed by \<^verbatim>\<open>unsigned char\<close>: a larger number of copies is truncated on the way in.\<close>

type_synonym 'mt key_tabulator = "(u8, 'mt indexer) rbt"

definition kt_update :: "locator \<Rightarrow> 'mt merkle_lib \<Rightarrow> hash_env \<Rightarrow> string \<Rightarrow> u64 \<Rightarrow> u32
    \<Rightarrow> 'mt key_tabulator \<Rightarrow> 'mt key_tabulator" where
  "kt_update lo ml env key val mirrors kt =
     (let forest = (case RBT.lookup kt (ucast mirrors) of
                      Some forest \<Rightarrow> forest
                    | None \<Rightarrow> if mirrors = 0 then Universal (UniversalDigestIndexer ml)
                              else Sections (DigestIndexer mirrors))
      in RBT.insert (ucast mirrors) (ix_call ml env lo (Update key val) forest) kt)"

definition kt_remove :: "locator \<Rightarrow> 'mt merkle_lib \<Rightarrow> hash_env \<Rightarrow> string \<Rightarrow> u32
    \<Rightarrow> 'mt key_tabulator \<Rightarrow> 'mt key_tabulator" where
  "kt_remove lo ml env key mirrors kt =
     (case RBT.lookup kt (ucast mirrors) of
        None \<Rightarrow> kt
      | Some forest \<Rightarrow> RBT.insert (ucast mirrors) (ix_call ml env lo (Remove key) forest) kt)"

definition kt_splitSection :: "locator \<Rightarrow> 'mt merkle_lib \<Rightarrow> hash_env \<Rightarrow> string
    \<Rightarrow> 'mt key_tabulator \<Rightarrow> 'mt key_tabulator" where
  "kt_splitSection lo ml env loc kt = RBT.map (\<lambda>_. ix_call ml env lo (SplitSection loc)) kt"

definition kt_cannibalizeSection :: "locator \<Rightarrow> 'mt merkle_lib \<Rightarrow> hash_env \<Rightarrow> string
    \<Rightarrow> 'mt key_tabulator \<Rightarrow> 'mt key_tabulator" where
  "kt_cannibalizeSection lo ml env loc kt = RBT.map (\<lambda>_. ix_call ml env lo (CannibalizeSection loc)) kt"

definition kt_find :: "'mt merkle_lib \<Rightarrow> string \<Rightarrow> u32 \<Rightarrow> 'mt key_tabulator \<Rightarrow> 'mt digest_tree" where
  "kt_find ml i mirrors kt =
     (case RBT.lookup kt (ucast mirrors) of None \<Rightarrow> dt_null ml | Some forest \<Rightarrow> ix_find ml i forest)"

text \<open>
  \<open>n\<close> and \<open>n'\<close> are the random numbers of the two selections. The iterator steps off the index of
  single copies, to the next one if it is the first.
\<close>

definition kt_randomTree :: "'mt merkle_lib \<Rightarrow> nat \<Rightarrow> nat \<Rightarrow> 'mt key_tabulator \<Rightarrow> 'mt digest_tree" where
  "kt_randomTree ml n n' kt =
     (if RBT.is_empty kt then dt_null ml
      else let es = RBT.entries kt; i = n mod length es;
               i = (if fst (es ! i) = 1 then (if i = 0 then i + 1 else i - 1) else i)
           in if i = length es then dt_null ml else ix_randomTree ml n' (snd (es ! i)))"

definition kt_unwantedTree :: "'mt merkle_lib \<Rightarrow> nat \<Rightarrow> nat \<Rightarrow> 'mt key_tabulator \<Rightarrow> 'mt digest_tree" where
  "kt_unwantedTree ml n n' kt =
     (if RBT.is_empty kt then dt_null ml
      else let es = RBT.entries kt; es = (if fst (hd es) = 0 then tl es else es)
           in case select n es of None \<Rightarrow> dt_null ml | Some e \<Rightarrow> ix_unwantedTree ml n' (snd e))"

section \<open>SynchronizedKeyTabulator\<close>

text \<open>
  Changes are put on the queue of the scheduler, which runs them later in order on its own thread;
  the reading calls go to the index directly. A queued task is the change to be made.
\<close>

datatype tabulator_task =
  UpdateTask string u64 u32
| RemoveTask string u32
| SplitTask string
| CannibalizeTask string

definition sk_update :: "string \<Rightarrow> u64 \<Rightarrow> u32 \<Rightarrow> tabulator_task list \<Rightarrow> tabulator_task list" where
  "sk_update key val mirrors queue = queue @ [UpdateTask key val mirrors]"

definition sk_remove :: "string \<Rightarrow> u32 \<Rightarrow> tabulator_task list \<Rightarrow> tabulator_task list" where
  "sk_remove key mirrors queue = queue @ [RemoveTask key mirrors]"

definition sk_splitSection :: "string \<Rightarrow> tabulator_task list \<Rightarrow> tabulator_task list" where
  "sk_splitSection loc queue = queue @ [SplitTask loc]"

definition sk_cannibalizeSection :: "string \<Rightarrow> tabulator_task list \<Rightarrow> tabulator_task list" where
  "sk_cannibalizeSection loc queue = queue @ [CannibalizeTask loc]"

definition sk_find :: "'mt merkle_lib \<Rightarrow> string \<Rightarrow> u32 \<Rightarrow> 'mt key_tabulator \<Rightarrow> 'mt digest_tree" where
  "sk_find ml i mirrors index = kt_find ml i mirrors index"

definition sk_randomTree :: "'mt merkle_lib \<Rightarrow> nat \<Rightarrow> nat \<Rightarrow> 'mt key_tabulator \<Rightarrow> 'mt digest_tree" where
  "sk_randomTree ml n n' index = kt_randomTree ml n n' index"

definition sk_unwantedTree :: "'mt merkle_lib \<Rightarrow> nat \<Rightarrow> nat \<Rightarrow> 'mt key_tabulator \<Rightarrow> 'mt digest_tree" where
  "sk_unwantedTree ml n n' index = kt_unwantedTree ml n n' index"

fun kt_run_task :: "locator \<Rightarrow> 'mt merkle_lib \<Rightarrow> hash_env \<Rightarrow> tabulator_task
    \<Rightarrow> 'mt key_tabulator \<Rightarrow> 'mt key_tabulator" where
  "kt_run_task lo ml env (UpdateTask key val mirrors) = kt_update lo ml env key val mirrors"
| "kt_run_task lo ml env (RemoveTask key mirrors) = kt_remove lo ml env key mirrors"
| "kt_run_task lo ml env (SplitTask loc) = kt_splitSection lo ml env loc"
| "kt_run_task lo ml env (CannibalizeTask loc) = kt_cannibalizeSection lo ml env loc"

section \<open>Invariant\<close>

fun ix_ok :: "'mt merkle_lib \<Rightarrow> hash_env \<Rightarrow> 'mt indexer \<Rightarrow> bool" where
  "ix_ok ml env (Universal t) = wf_tree ml env t"
| "ix_ok ml env (Sections di) = di_ok ml env di"

fun ix_keys :: "'mt merkle_lib \<Rightarrow> 'mt indexer \<Rightarrow> u64 set" where
  "ix_keys ml (Universal t) = dt_keys ml t"
| "ix_keys ml (Sections di) = di_keys ml di"

text \<open>Either kind of index meets the contract, so what is behind the pointer does too.\<close>

sublocale merkle_forest \<subseteq> behind: digest_index "ix_ok ml env" "ix_call ml env" "ix_keys ml" "keyhash env"
proof unfold_locales
  fix s :: "'mt indexer" and lo c key v loc
  assume ok: "ix_ok ml env s"
  show "ix_ok ml env (ix_call ml env lo c s)"
    using ok sections.inv_call universal.inv_call by (cases s) auto
  show "ix_keys ml (ix_call ml env lo (Update key v) s) = insert (keyhash env key) (ix_keys ml s)"
    using ok sections.keys_update universal.keys_update by (cases s) auto
  show "ix_keys ml (ix_call ml env lo (Remove key) s) \<subseteq> ix_keys ml s"
    using ok sections.keys_remove universal.keys_remove by (cases s) auto
  show "ix_keys ml (ix_call ml env lo (SplitSection loc) s) = ix_keys ml s"
    using ok sections.keys_split universal.keys_split by (cases s) auto
  show "ix_keys ml (ix_call ml env lo (CannibalizeSection loc) s) = ix_keys ml s"
    using ok sections.keys_cannibalize universal.keys_cannibalize by (cases s) auto
qed

definition kt_ok :: "'mt merkle_lib \<Rightarrow> hash_env \<Rightarrow> 'mt key_tabulator \<Rightarrow> bool" where
  "kt_ok ml env kt \<longleftrightarrow> (\<forall>m forest. RBT.lookup kt m = Some forest \<longrightarrow> ix_ok ml env forest)"

definition kt_keys :: "'mt merkle_lib \<Rightarrow> u32 \<Rightarrow> 'mt key_tabulator \<Rightarrow> u64 set" where
  "kt_keys ml mirrors kt =
     (case RBT.lookup kt (ucast mirrors) of None \<Rightarrow> {} | Some forest \<Rightarrow> ix_keys ml forest)"

context merkle_forest
begin

lemma new_indexer_ok:
  "ix_ok ml env (Universal (UniversalDigestIndexer ml))" "ix_keys ml (Universal (UniversalDigestIndexer ml)) = {}"
  "ix_ok ml env (Sections (DigestIndexer mirrors))" "ix_keys ml (Sections (DigestIndexer mirrors)) = {}"
  using ml by (simp_all add: UniversalDigestIndexer_def DigestIndexer_def di_ok_def di_keys_def)

lemma run_task_ok:
  assumes "kt_ok ml env kt"
  shows "kt_ok ml env (kt_run_task lo ml env task kt)"
proof (cases task)
  case (UpdateTask key v mirrors)
  then show ?thesis using assms behind.inv_call new_indexer_ok
    by (auto simp: kt_ok_def kt_update_def Let_def split: option.splits)
next
  case (RemoveTask key mirrors)
  then show ?thesis using assms behind.inv_call
    by (auto simp: kt_ok_def kt_remove_def split: option.splits)
next
  case (SplitTask loc)
  then show ?thesis using assms behind.inv_call
    by (auto simp: kt_ok_def kt_splitSection_def)
next
  case (CannibalizeTask loc)
  then show ?thesis using assms behind.inv_call
    by (auto simp: kt_ok_def kt_cannibalizeSection_def)
qed

lemma update_task_keys:
  assumes "kt_ok ml env kt"
  shows "kt_keys ml m (kt_run_task lo ml env (UpdateTask key v mirrors) kt)
    = (if (ucast m :: u8) = ucast mirrors then insert (keyhash env key) (kt_keys ml m kt) else kt_keys ml m kt)"
  using assms behind.keys_update new_indexer_ok
  by (auto simp: kt_ok_def kt_keys_def kt_update_def Let_def split: option.splits)

lemma split_task_keys:
  assumes "kt_ok ml env kt"
  shows "kt_keys ml m (kt_run_task lo ml env (SplitTask loc) kt) = kt_keys ml m kt"
    "kt_keys ml m (kt_run_task lo ml env (CannibalizeTask loc) kt) = kt_keys ml m kt"
  using assms behind.keys_split behind.keys_cannibalize
  by (auto simp: kt_ok_def kt_keys_def kt_splitSection_def kt_cannibalizeSection_def split: option.splits)

end

section \<open>Properties\<close>

fun updating :: "u32 \<Rightarrow> (locator \<times> tabulator_task) list \<Rightarrow> string set" where
  "updating m [] = {}"
| "updating m ((lo, task) # tasks) =
     (case task of
        UpdateTask key v mirrors \<Rightarrow>
          (if (ucast m :: u8) = ucast mirrors then insert key (updating m tasks) else updating m tasks)
      | _ \<Rightarrow> updating m tasks)"

definition removes :: "tabulator_task \<Rightarrow> bool" where
  "removes task = (case task of RemoveTask key mirrors \<Rightarrow> True | _ \<Rightarrow> False)"

context merkle_forest
begin

lemma run_tasks:
  "kt_ok ml env kt \<Longrightarrow> \<forall>(lo, task) \<in> set tasks. \<not> removes task \<Longrightarrow>
   kt_ok ml env (fold (\<lambda>(lo, task). kt_run_task lo ml env task) tasks kt)
   \<and> kt_keys ml m (fold (\<lambda>(lo, task). kt_run_task lo ml env task) tasks kt)
       = kt_keys ml m kt \<union> keyhash env ` updating m tasks"
proof (induction tasks arbitrary: kt)
  case (Cons t tasks)
  obtain lo task where t: "t = (lo, task)" by (cases t)
  let ?kt = "kt_run_task lo ml env task kt"
  have keys: "kt_keys ml m ?kt = kt_keys ml m kt \<union> keyhash env ` updating m [t]"
    using Cons.prems t update_task_keys [OF Cons.prems(1)] split_task_keys [OF Cons.prems(1)]
    by (cases task) (auto simp: removes_def)
  have "updating m (t # tasks) = updating m [t] \<union> updating m tasks"
    using t by (auto split: tabulator_task.split)
  then show ?case
    using Cons.IH [OF run_task_ok [OF Cons.prems(1)], of lo task] Cons.prems(2) keys t
    by (auto simp: image_Un)
qed simp

end

text \<open>
  C29. The index neither loses nor invents a key while the ring changes: whatever sequence of
  updates, section splits and section merges the scheduler runs, each with the ring as it is at
  that time, the index for a number of copies holds exactly the keys it held before and those
  updated since, and its trees keep their invariant: filed under their id, never empty, and each
  either wanted or unwanted.
\<close>

theorem reorganisation_keeps_every_key:
  assumes "merkle_map ml" "kt_ok ml env kt" "\<forall>(lo, task) \<in> set tasks. \<not> removes task"
  shows "kt_ok ml env (fold (\<lambda>(lo, task). kt_run_task lo ml env task) tasks kt)
    \<and> kt_keys ml m (fold (\<lambda>(lo, task). kt_run_task lo ml env task) tasks kt)
        = kt_keys ml m kt \<union> keyhash env ` updating m tasks"
  by (rule merkle_forest.run_tasks [OF merkle_forest.intro [OF assms(1)] assms(2,3)])

lemma dt_hash_fold:
  assumes "merkle_map ml"
  shows "dt_hash ml (fold (\<lambda>(key, v). dt_update ml env key v) us t) =
    fold (\<lambda>(key, v) m. m(keyhash env key \<mapsto>
      v XOR (case m (keyhash env key) of None \<Rightarrow> keyhash env key | Some old \<Rightarrow> old))) us (dt_hash ml t)"
  by (induction us arbitrary: t) (auto simp: dt_hash_update [OF assms])

text \<open>
  C30. The digest does not depend on the order of the updates: two replicas that see the same
  changes, each once but in different orders, compute the same hashes for the same keys.
\<close>

theorem digest_is_independent_of_order:
  assumes "merkle_map ml" "mset us = mset us'"
  shows "dt_hash ml (fold (\<lambda>(key, v). dt_update ml env key v) us t)
       = dt_hash ml (fold (\<lambda>(key, v). dt_update ml env key v) us' t)"
  unfolding dt_hash_fold [OF assms(1)]
proof (rule fun_cong [OF fold_multiset_equiv [OF _ assms(2)]])
  fix x y :: "string \<times> u64"
  show "(case x of (key, v) \<Rightarrow> \<lambda>m. m(keyhash env key \<mapsto>
        v XOR (case m (keyhash env key) of None \<Rightarrow> keyhash env key | Some old \<Rightarrow> old)))
      \<circ> (case y of (key, v) \<Rightarrow> \<lambda>m. m(keyhash env key \<mapsto>
        v XOR (case m (keyhash env key) of None \<Rightarrow> keyhash env key | Some old \<Rightarrow> old)))
    = (case y of (key, v) \<Rightarrow> \<lambda>m. m(keyhash env key \<mapsto>
        v XOR (case m (keyhash env key) of None \<Rightarrow> keyhash env key | Some old \<Rightarrow> old)))
      \<circ> (case x of (key, v) \<Rightarrow> \<lambda>m. m(keyhash env key \<mapsto>
        v XOR (case m (keyhash env key) of None \<Rightarrow> keyhash env key | Some old \<Rightarrow> old)))"
    by (cases x; cases y) (auto simp: fun_eq_iff xor.left_commute split: option.split)
qed

text \<open>A new least section: the next tree is the one that was first.\<close>

lemma sorted_hd_le: "sorted (x # xs) \<Longrightarrow> n \<in> set (x # xs) \<Longrightarrow> x \<le> n"
  by auto

lemma nextTree_least:
  assumes "RBT.lookup f s \<noteq> None" "RBT.lookup f n \<noteq> None" "s < n"
    and "\<forall>x \<in> dom (RBT.lookup f). x = s \<or> n \<le> x"
  shows "nextTree f s = n" "hd (RBT.keys f) = s"
proof -
  have keys: "set (RBT.keys f) = dom (RBT.lookup f)" by (rule keys_eq_dom)
  obtain x xs where x: "filter (\<lambda>x. s < x) (RBT.keys f) = x # xs"
    using assms(2,3) keys by (cases "filter (\<lambda>x. s < x) (RBT.keys f)") (auto simp: filter_empty_conv)
  have sorted: "sorted (x # xs)" using RBT.sorted_keys [of f] x by (metis sorted_wrt_filter)
  have "x \<in> set (filter (\<lambda>x. s < x) (RBT.keys f))" by (simp add: x)
  then have mem: "x \<in> dom (RBT.lookup f)" "s < x" by (simp_all only: set_filter mem_Collect_eq keys)
  have "n \<in> set (filter (\<lambda>x. s < x) (RBT.keys f))" using assms(2,3) by (simp add: keys domIff)
  then have "n \<in> set (x # xs)" by (simp only: x)
  then have "x \<le> n" by (rule sorted_hd_le [OF sorted])
  moreover have "x = s \<or> n \<le> x" using assms(4) mem(1) by (rule bspec)
  then have "n \<le> x" using mem(2) by (simp add: order_less_imp_not_eq2)
  ultimately have "x = n" by simp
  then show "nextTree f s = n" using x by (simp add: nextTree_def)
  obtain y ys where y: "RBT.keys f = y # ys" using keys assms(1) by (cases "RBT.keys f") auto
  have "s \<in> set (RBT.keys f)" using keys assms(1) by auto
  moreover have "sorted (y # ys)" using RBT.sorted_keys [of f] y by simp
  ultimately have "y \<le> s" using sorted_hd_le y by metis
  moreover have "y = s \<or> n \<le> y" using y keys assms(4) by auto
  ultimately show "hd (RBT.keys f) = s" using y assms(3) by auto
qed

lemma di_split_least:
  assumes ml: "merkle_map ml" and ok: "di_ok ml env di"
    and fresh: "RBT.lookup (di_forest di) (lo_section lo loc) = None"
    and first: "RBT.lookup (di_forest di) n = Some src" "lo_section lo loc < n"
      "\<forall>x \<in> dom (RBT.lookup (di_forest di)). n \<le> x"
    and e: "(k, h, f) \<in> dt_entries ml src" "\<not> in_range 0 (hash_integer env (Hash env loc)) k"
  obtains src' where "RBT.lookup (di_forest (di_splitSection lo ml env loc di)) n = Some src'"
    "(k, h, f) \<in> dt_entries ml src'"
proof -
  let ?s = "lo_section lo loc"
  let ?f = "RBT.insert ?s (dt_null ml) (di_forest di)"
  have least: "\<forall>x \<in> dom (RBT.lookup ?f). x = ?s \<or> n \<le> x" using first(3) by auto
  have n: "nextTree ?f ?s = n" "hd (RBT.keys ?f) = ?s"
    by (rule nextTree_least [OF _ _ first(2) least]; use first in simp)+
  have ne: "n \<noteq> ?s" using first(2) by auto
  have nonempty: "\<not> RBT.is_empty (di_forest di)" using first(1) by (metis RBT.is_empty_empty RBT.lookup_empty option.distinct(1))
  obtain new0 di' where init: "initTree lo ml ?s (dt_null ml, di) = (new0, di')" by fastforce
  obtain src' new where move: "move_range ml env 0 (hash_integer env (Hash env loc)) (src, new0) = (src', new)"
    by fastforce
  let ?D = "di'\<lparr>di_forest := RBT.insert n src' (RBT.insert ?s new ?f)\<rparr>"
  have at_n: "forest_at ml n ?f = src" using first(1) ne by (simp add: forest_at_def)
  have split: "di_splitSection lo ml env loc di = prune ml ?s (prune ml n ?D)"
    using nonempty fresh ne init move by (simp add: di_splitSection_def Let_def n at_n)
  have empty: "dt_entries ml new0 = {}" using initTree_new(1) [OF ml ok fresh init] ml by simp
  have src': "(k, h, f) \<in> dt_entries ml src'"
    using move_range_entries(2) [OF ml di_okD(2) [OF ok first(1)] empty move] e by simp
  then have "\<not> dt_empty ml src'" by (auto simp: dt_empty_iff [OF ml] dt_keys_entries)
  then have "RBT.lookup (di_forest (prune ml n ?D)) n = Some src'"
    by (simp add: prune_def forest_at_def)
  then have "RBT.lookup (di_forest (di_splitSection lo ml env loc di)) n = Some src'"
    unfolding split using ne by (simp add: lookup_prune_other)
  then show ?thesis using src' that by blast
qed

text \<open>
  A member that joins in front of all others leaves digests behind: the keys beyond the last
  member wrap around and now belong to the new first section, but \<^verbatim>\<open>splitSection\<close> moves only the
  keys up to the new member. Removing such a key then looks for it in the new section, and its
  digest stays in the old one.
\<close>

theorem removed_key_stays_after_first_split:
  assumes "merkle_map ml" "di_ok ml env di"
    and "RBT.lookup (di_forest di) (lo_section lo loc) = None"
    and "RBT.lookup (di_forest di) n = Some src" "lo_section lo loc < n"
    and "\<forall>x \<in> dom (RBT.lookup (di_forest di)). n \<le> x"
    and "(keyhash env name, h, name) \<in> dt_entries ml src"
    and "\<not> in_range 0 (hash_integer env (Hash env loc)) (keyhash env name)"
    and "lo_section lo name = lo_section lo loc"
  shows "keyhash env name \<in> di_keys ml (di_remove lo ml env name (di_splitSection lo ml env loc di))"
proof -
  let ?di = "di_splitSection lo ml env loc di"
  obtain src' where src': "RBT.lookup (di_forest ?di) n = Some src'"
    "(keyhash env name, h, name) \<in> dt_entries ml src'"
    by (rule di_split_least [OF assms(1-8)])
  have "n \<noteq> lo_section lo name" using assms(5,9) by auto
  then have "RBT.lookup (di_forest (di_remove lo ml env name ?di)) n = Some src'"
    using src'(1) by (simp add: di_remove_def Let_def lookup_prune_other split: option.split)
  then show ?thesis
    using src'(2) unfolding di_keys_entries by (intro image_eqI [where x = "(keyhash env name, h, name)"])
      (auto simp: di_entries_iff)
qed

section \<open>Witnesses\<close>

text \<open>Names of eight bytes, which are their own hashes, so that no hash is overread.\<close>

definition low_ring :: "(string, string) rbt" where
  "low_ring = snd (ring_insert plain_env rbt_circ ''mmmmmmmm'' ''mmmmmmmm'' RBT.empty)"

definition wide_ring :: "(string, string) rbt" where
  "wide_ring = snd (ring_insert plain_env rbt_circ ''cccccccc'' ''cccccccc'' low_ring)"

definition low_loc :: locator where
  "low_loc = ring_locator plain_env rbt_circ low_ring (Some ''mmmmmmmm'')"

definition wide_loc :: locator where
  "wide_loc = ring_locator plain_env rbt_circ wide_ring (Some ''mmmmmmmm'')"

lemma reorganisation_keeps_every_key_witness:
  "kt_keys rbt_merkle 3 (fold (\<lambda>(lo, task). kt_run_task lo rbt_merkle plain_env task)
     [(low_loc, UpdateTask ''zzzzzzzz'' 7 3), (wide_loc, SplitTask ''cccccccc''), (wide_loc, UpdateTask ''aaaaaaaa'' 7 259)]
     RBT.empty) = {keyhash plain_env ''zzzzzzzz'', keyhash plain_env ''aaaaaaaa''}"
proof -
  have ok: "kt_ok rbt_merkle plain_env RBT.empty" by (simp add: kt_ok_def)
  have "kt_keys rbt_merkle 3 (RBT.empty :: (u64, u64 \<times> string) rbt key_tabulator) = {}" by (simp add: kt_keys_def)
  then show ?thesis
    using reorganisation_keeps_every_key [OF merkle_map_rbt_merkle ok, where m = 3 and
        tasks = "[(low_loc, UpdateTask ''zzzzzzzz'' 7 3), (wide_loc, SplitTask ''cccccccc''),
                  (wide_loc, UpdateTask ''aaaaaaaa'' 7 259)]"]
    by (simp add: removes_def)
qed

lemma digest_is_independent_of_order_witness:
  "dt_hash rbt_merkle (fold (\<lambda>(key, v). dt_update rbt_merkle plain_env key v)
       [(''aaaaaaaa'', 1), (''bbbbbbbb'', 2), (''aaaaaaaa'', 3)] (dt_null rbt_merkle))
   = dt_hash rbt_merkle (fold (\<lambda>(key, v). dt_update rbt_merkle plain_env key v)
       [(''aaaaaaaa'', 3), (''aaaaaaaa'', 1), (''bbbbbbbb'', 2)] (dt_null rbt_merkle))"
  by (rule digest_is_independent_of_order [OF merkle_map_rbt_merkle]) simp

definition wide_index :: "(u64, u64 \<times> string) rbt digest_indexer" where
  "wide_index = di_update low_loc rbt_merkle plain_env ''zzzzzzzz'' 7
     (di_update low_loc rbt_merkle plain_env ''aaaaaaaa'' 5 (DigestIndexer 1))"

lemma di_ok_wide_index: "di_ok rbt_merkle plain_env wide_index"
proof -
  have "di_ok rbt_merkle plain_env (DigestIndexer 1)" by (simp add: di_ok_def DigestIndexer_def)
  then show ?thesis
    unfolding wide_index_def using di_update_at [OF merkle_map_rbt_merkle] by blast
qed

lemma removed_key_stays_after_first_split_witness:
  "keyhash plain_env ''zzzzzzzz'' \<in> di_keys rbt_merkle (di_remove wide_loc rbt_merkle plain_env ''zzzzzzzz''
     (di_splitSection wide_loc rbt_merkle plain_env ''cccccccc'' wide_index))"
proof -
  have 1: "RBT.lookup (di_forest wide_index) (lo_section wide_loc ''cccccccc'') = None" by code_simp
  obtain src where src: "RBT.lookup (di_forest wide_index) ''mmmmmmmm'' = Some src"
    "mk_find rbt_merkle (keyhash plain_env ''zzzzzzzz'') (dt_tree src)
      = Some (7 XOR keyhash plain_env ''zzzzzzzz'', ''zzzzzzzz'')"
  proof -
    have "(case RBT.lookup (di_forest wide_index) ''mmmmmmmm'' of None \<Rightarrow> False | Some src \<Rightarrow>
        mk_find rbt_merkle (keyhash plain_env ''zzzzzzzz'') (dt_tree src)
          = Some (7 XOR keyhash plain_env ''zzzzzzzz'', ''zzzzzzzz''))" by code_simp
    then show thesis using that by (cases "RBT.lookup (di_forest wide_index) ''mmmmmmmm''") auto
  qed
  have 2: "lo_section wide_loc ''cccccccc'' < ''mmmmmmmm''" by code_simp
  have "RBT.keys (di_forest wide_index) = [''mmmmmmmm'']" by code_simp
  then have 3: "\<forall>x \<in> dom (RBT.lookup (di_forest wide_index)). ''mmmmmmmm'' \<le> x"
    by (simp only: keys_eq_dom [symmetric] list.set ball_simps order_refl simp_thms)
  have 4: "(keyhash plain_env ''zzzzzzzz'', 7 XOR keyhash plain_env ''zzzzzzzz'', ''zzzzzzzz'')
      \<in> dt_entries rbt_merkle src"
    using src(2) by (simp add: dt_entries_def)
  have 5: "\<not> in_range 0 (hash_integer plain_env (Hash plain_env ''cccccccc'')) (keyhash plain_env ''zzzzzzzz'')"
    by code_simp
  have 6: "lo_section wide_loc ''zzzzzzzz'' = lo_section wide_loc ''cccccccc''" by code_simp
  show ?thesis
    by (rule removed_key_stays_after_first_split [OF merkle_map_rbt_merkle di_ok_wide_index 1 src(1) 2 3 4 5 6])
qed

end
