(* ===== verification/Clock.thy ===== *)
theory Clock
  imports Prelude
begin

text \<open>
  Versions of keys: \<^verbatim>\<open>common/WallClock\<close> and \<^verbatim>\<open>common/VectorClock\<close>. A version is the list of
  clocks of the vector, newest first. The base class \<^verbatim>\<open>bounded_time_vector<std::string,6>\<close> and
  the base64 functions belong to turbolib: they are the fields of the parameter \<open>vc_lib\<close>.
  The text format (\<^verbatim>\<open>toString\<close>, \<^verbatim>\<open>fromString\<close>), deletion markers and expiry are the code's.
\<close>

section \<open>WallClock\<close>

text \<open>\<open>wc_system\<close> is what \<^verbatim>\<open>std::time\<close> returns; a frozen clock overrides it.\<close>

record wall_clock =
  wc_frozen :: u64
  wc_system :: u64

definition wc_now :: "wall_clock \<Rightarrow> u64" where
  "wc_now w = (if wc_frozen w \<noteq> 0 then wc_frozen w else wc_system w)"

definition wc_freeze :: "u64 \<Rightarrow> wall_clock \<Rightarrow> wall_clock" where
  "wc_freeze time w = w\<lparr>wc_frozen := time\<rparr>"

definition wc_unfreeze :: "wall_clock \<Rightarrow> wall_clock" where
  "wc_unfreeze w = w\<lparr>wc_frozen := 0\<rparr>"

lemma wc_freeze_now: "t \<noteq> 0 \<Longrightarrow> wc_now (wc_freeze t w) = t"
  by (simp add: wc_now_def wc_freeze_def)

lemma wc_unfreeze_now: "wc_now (wc_unfreeze (wc_freeze t w)) = wc_system w"
  by (simp add: wc_now_def wc_freeze_def wc_unfreeze_def)

section \<open>VectorClock\<close>

record clock =
  ck_key :: string
  ck_time :: u64
  ck_count :: nat

type_synonym vclock = "clock list"

text \<open>The results of \<^verbatim>\<open>compare\<close> the program looks at; the last stands for every other one.\<close>

datatype vcompare = EQUAL | LESS_THAN | GREATER_THAN | OTHER_COMPARE

record vc_lib =
  vl_increment :: "string \<Rightarrow> u64 \<Rightarrow> vclock \<Rightarrow> vclock"
  vl_merge :: "vclock \<Rightarrow> vclock \<Rightarrow> vclock"
  vl_compare :: "vclock \<Rightarrow> vclock \<Rightarrow> vcompare"
  vl_encode :: "u64 \<Rightarrow> string"     \<comment> \<open>\<^verbatim>\<open>base64::encode_bin\<close>\<close>
  vl_decode :: "string \<Rightarrow> u64"     \<comment> \<open>\<^verbatim>\<open>base64::decode_as<uint64_t>\<close>\<close>
  vl_count :: "u64 \<Rightarrow> nat"         \<comment> \<open>\<^verbatim>\<open>unsigned long\<close> stored in a clock's counter\<close>

definition vc_increment_at :: "vc_lib \<Rightarrow> string \<Rightarrow> u64 \<Rightarrow> vclock \<Rightarrow> vclock" where
  "vc_increment_at lib key time vc = vl_increment lib key time vc"

definition vc_increment :: "vc_lib \<Rightarrow> wall_clock \<Rightarrow> string \<Rightarrow> vclock \<Rightarrow> vclock" where
  "vc_increment lib w key vc = vc_increment_at lib key (wc_now w) vc"

definition markDeleted_at :: "vc_lib \<Rightarrow> u64 \<Rightarrow> vclock \<Rightarrow> vclock" where
  "markDeleted_at lib time vc = vc_increment_at lib ''delete'' time vc"

definition markDeleted :: "vc_lib \<Rightarrow> wall_clock \<Rightarrow> vclock \<Rightarrow> vclock" where
  "markDeleted lib w vc = markDeleted_at lib (wc_now w) vc"

definition isDeleted :: "vclock \<Rightarrow> bool" where
  "isDeleted vc = (case vc of [] \<Rightarrow> False | c # _ \<Rightarrow> ck_key c = ''delete'')"

definition isExpired :: "wall_clock \<Rightarrow> u32 \<Rightarrow> vclock \<Rightarrow> bool" where
  "isExpired w timeout vc =
     (if \<not> isDeleted vc then False
      else let expiry = ck_time (hd vc) + ucast timeout; now = wc_now w in now \<ge> expiry)"

section \<open>The text format\<close>

definition show_clock :: "vc_lib \<Rightarrow> clock \<Rightarrow> string" where
  "show_clock lib c = ck_key c @ ''.'' @ vl_encode lib (ck_time c)
     @ (if ck_count c \<noteq> 0 then ''.'' @ show_dec (ck_count c) else [])"

definition vc_toString :: "vc_lib \<Rightarrow> vclock \<Rightarrow> string" where
  "vc_toString lib vc = show_dec (length vc) @ concat (map (\<lambda>c. '','' @ show_clock lib c) vc)"

text \<open>
  One clock from its text. The second argument of \<^verbatim>\<open>substr\<close> is a length in C++; the code
  passes the position of the second dot.
\<close>

definition parse_clock :: "vc_lib \<Rightarrow> string \<Rightarrow> clock result" where
  "parse_clock lib clockStr =
     (case find_char (CHR ''.'') clockStr of
        None \<Rightarrow> Inr \<lparr>ck_key = [], ck_time = 0, ck_count = 0\<rparr>
      | Some pos \<Rightarrow>
          let key = take pos clockStr; rest = drop (pos + 1) clockStr
          in case find_char_from (CHR ''.'') (pos + 1) clockStr of
               None \<Rightarrow> Inr \<lparr>ck_key = key, ck_time = vl_decode lib rest, ck_count = 0\<rparr>
             | Some count_pos \<Rightarrow>
                 rbind (stoul (drop (count_pos + 1) clockStr))
                   (\<lambda>n. Inr \<lparr>ck_key = key, ck_time = vl_decode lib (take count_pos rest),
                              ck_count = vl_count lib n\<rparr>))"

definition read_clock :: "vc_lib \<Rightarrow> istream \<Rightarrow> (clock \<times> istream) result" where
  "read_clock lib st =
     (let (clockStr, st') = read_word [] st
      in if \<not> is_ok st' then Inr (\<lparr>ck_key = [], ck_time = 0, ck_count = 0\<rparr>, st')
         else rbind (parse_clock lib clockStr) (\<lambda>c. Inr (c, st')))"

fun read_clocks :: "vc_lib \<Rightarrow> nat \<Rightarrow> vclock \<Rightarrow> istream \<Rightarrow> (vclock \<times> istream) result" where
  "read_clocks lib 0 clocks st = Inr (clocks, st)"
| "read_clocks lib (Suc n) clocks st =
     rbind (read_clock lib st) (\<lambda>(cl, st').
       if \<not> is_ok st' then Inr (clocks, st')
       else read_clocks lib n (clocks @ [cl]) st')"

definition read_clock_list :: "vc_lib \<Rightarrow> istream \<Rightarrow> (vclock \<times> istream) result" where
  "read_clock_list lib st = (let (sz, st1) = read_unsigned 32 0 st in read_clocks lib sz [] st1)"

definition commas_to_spaces :: "string \<Rightarrow> string" where
  "commas_to_spaces s = map (\<lambda>c. if c = CHR '','' then CHR '' '' else c) s"

text \<open>The Boolean is the return value; on false the clock keeps its old value.\<close>

definition vc_fromString :: "vc_lib \<Rightarrow> string \<Rightarrow> vclock \<Rightarrow> (bool \<times> vclock) result" where
  "vc_fromString lib s vc =
     rbind (read_clock_list lib (istream_of (commas_to_spaces s))) (\<lambda>(clocks, st).
       if \<not> is_ok st then Inr (False, vc) else Inr (True, clocks))"

lemma commas_to_spaces_append [simp]:
  "commas_to_spaces (a @ b) = commas_to_spaces a @ commas_to_spaces b"
  by (simp add: commas_to_spaces_def)

lemma commas_to_spaces_id: "CHR '','' \<notin> set s \<Longrightarrow> commas_to_spaces s = s"
  unfolding commas_to_spaces_def by (rule map_idI) metis

section \<open>What the program relies on in turbolib\<close>

text \<open>
  The decoder reads back an encoded time, also when the text goes on with a dot; encoded
  times contain no separator.
\<close>

definition time_codec :: "vc_lib \<Rightarrow> bool" where
  "time_codec lib \<longleftrightarrow>
     (\<forall>t. vl_decode lib (vl_encode lib t) = t)
   \<and> (\<forall>t r. vl_decode lib (vl_encode lib t @ CHR ''.'' # r) = t)
   \<and> (\<forall>t. \<forall>c \<in> set (vl_encode lib t). c \<noteq> CHR ''.'' \<and> c \<noteq> CHR '','' \<and> \<not> is_space c)"

text \<open>\<^verbatim>\<open>increment\<close> moves the incremented clock to the front.\<close>

definition increments_front :: "vc_lib \<Rightarrow> bool" where
  "increments_front lib \<longleftrightarrow>
     (\<forall>k t vc. vl_increment lib k t vc \<noteq> [] \<and> ck_key (hd (vl_increment lib k t vc)) = k)"

text \<open>A clock whose key is not known yet starts at the given time.\<close>

definition starts_at_time :: "vc_lib \<Rightarrow> bool" where
  "starts_at_time lib \<longleftrightarrow>
     (\<forall>k t vc. k \<notin> ck_key ` set vc \<longrightarrow> ck_time (hd (vl_increment lib k t vc)) = t)"

definition printable_clock :: "vc_lib \<Rightarrow> clock \<Rightarrow> bool" where
  "printable_clock lib c \<longleftrightarrow>
     (\<forall>x \<in> set (ck_key c). x \<noteq> CHR ''.'' \<and> x \<noteq> CHR '','' \<and> \<not> is_space x)
   \<and> ck_count c < 2 ^ 64 \<and> vl_count lib (of_nat (ck_count c)) = ck_count c"

lemma increments_frontE:
  assumes "increments_front lib"
  obtains c r where "vl_increment lib k t vc = c # r" "ck_key c = k"
  using assms unfolding increments_front_def by (metis list.collapse)

lemma isDeleted_increment:
  assumes "increments_front lib"
  shows "isDeleted (vc_increment lib w k vc) \<longleftrightarrow> k = ''delete''"
  by (rule increments_frontE [OF assms, of k "wc_now w" vc])
    (auto simp: isDeleted_def vc_increment_def vc_increment_at_def)

lemma isDeleted_markDeleted:
  assumes "increments_front lib"
  shows "isDeleted (markDeleted lib w vc)" "isDeleted (markDeleted_at lib t vc)"
  by (rule increments_frontE [OF assms, of "''delete''" "wc_now w" vc],
      simp add: isDeleted_def markDeleted_def markDeleted_at_def vc_increment_at_def,
      rule increments_frontE [OF assms, of "''delete''" t vc],
      simp add: isDeleted_def markDeleted_def markDeleted_at_def vc_increment_at_def)

section \<open>Reading back a printed version\<close>

lemma parse_clock_two_dots:
  assumes "CHR ''.'' \<notin> set key" "CHR ''.'' \<notin> set time"
  shows "parse_clock lib (key @ CHR ''.'' # time @ CHR ''.'' # cnt) =
     rbind (stoul cnt) (\<lambda>n. Inr \<lparr>ck_key = key,
        ck_time = vl_decode lib (time @ take (length key + 1) (CHR ''.'' # cnt)),
        ck_count = vl_count lib n\<rparr>)"
proof -
  let ?s = "key @ CHR ''.'' # time @ CHR ''.'' # cnt"
  have f1: "find_char (CHR ''.'') ?s = Some (length key)"
    using assms(1) by (rule find_char_append)
  have "find_char (CHR ''.'') (time @ CHR ''.'' # cnt) = Some (length time)"
    using assms(2) by (rule find_char_append)
  then have f2: "find_char_from (CHR ''.'') (length key + 1) ?s = Some (length time + (length key + 1))"
    by (simp add: find_char_from_def)
  have t: "take (length time + Suc (length key)) (time @ CHR ''.'' # cnt)
      = time @ take (Suc (length key)) (CHR ''.'' # cnt)" by simp
  have d: "drop (length time + (length key + 1) + 1) ?s = cnt" by simp
  show ?thesis
    unfolding parse_clock_def f1 option.case f2 Let_def d using t by simp
qed

lemma parse_clock_one_dot:
  assumes "CHR ''.'' \<notin> set key" "CHR ''.'' \<notin> set time"
  shows "parse_clock lib (key @ CHR ''.'' # time) =
     Inr \<lparr>ck_key = key, ck_time = vl_decode lib time, ck_count = 0\<rparr>"
proof -
  have "find_char (CHR ''.'') (key @ CHR ''.'' # time) = Some (length key)"
    using assms(1) by (rule find_char_append)
  moreover have "find_char (CHR ''.'') time = None"
    using assms(2) by (simp add: find_char_None_iff)
  ultimately show ?thesis by (simp add: parse_clock_def find_char_from_def)
qed

lemma time_codecD:
  assumes "time_codec lib"
  shows "vl_decode lib (vl_encode lib t) = t" "vl_decode lib (vl_encode lib t @ CHR ''.'' # r) = t"
    "CHR ''.'' \<notin> set (vl_encode lib t)" "CHR '','' \<notin> set (vl_encode lib t)"
    "x \<in> set (vl_encode lib t) \<Longrightarrow> \<not> is_space x"
  using assms unfolding time_codec_def by blast+

lemma parse_show_clock:
  assumes "time_codec lib" "printable_clock lib c"
  shows "parse_clock lib (show_clock lib c) = Inr c"
proof -
  have k: "CHR ''.'' \<notin> set (ck_key c)" and n: "ck_count c < 2 ^ 64"
    and v: "vl_count lib (of_nat (ck_count c)) = ck_count c"
    using assms(2) by (auto simp: printable_clock_def)
  note t = time_codecD(3) [OF assms(1), of "ck_time c"]
  show ?thesis
  proof (cases "ck_count c = 0")
    case True
    then show ?thesis
      using parse_clock_one_dot [OF k t, of lib]
      by (simp add: show_clock_def time_codecD(1) [OF assms(1)])
  next
    case False
    have "stoul (show_dec (ck_count c)) = Inr (of_nat (ck_count c))"
      using stoul_show_dec [of "[]" "ck_count c"] n by simp
    then show ?thesis
      using False v parse_clock_two_dots [OF k t, of lib "show_dec (ck_count c)"]
      by (simp add: show_clock_def time_codecD(2) [OF assms(1)])
  qed
qed

lemma show_clock_chars:
  assumes "time_codec lib" "printable_clock lib c" "x \<in> set (show_clock lib c)"
  shows "\<not> is_space x" "x \<noteq> CHR '',''"
proof -
  have "\<not> is_space x \<and> x \<noteq> CHR '',''"
  proof (cases "x \<in> set (ck_key c)")
    case True
    then show ?thesis using assms(2) by (auto simp: printable_clock_def)
  next
    case False
    then consider "x = CHR ''.''" | "x \<in> set (vl_encode lib (ck_time c))" | "x \<in> set (show_dec (ck_count c))"
      using assms(3) by (auto simp: show_clock_def split: if_splits)
    then show ?thesis
    proof cases
      case 1
      then show ?thesis by (simp add: is_space_def)
    next
      case 2
      then show ?thesis using time_codecD(4,5) [OF assms(1)] by auto
    next
      case 3
      then show ?thesis
        using show_dec_digits digit_not_space is_digit_noteq(4) by blast
    qed
  qed
  then show "\<not> is_space x" "x \<noteq> CHR '',''" by auto
qed

lemma show_clock_nonempty: "show_clock lib c \<noteq> []"
  by (simp add: show_clock_def)

definition clock_words :: "vc_lib \<Rightarrow> vclock \<Rightarrow> string" where
  "clock_words lib vc = concat (map (\<lambda>c. '' '' @ show_clock lib c) vc)"

lemma commas_to_spaces_toString:
  assumes "time_codec lib" "\<forall>c \<in> set vc. printable_clock lib c"
  shows "commas_to_spaces (vc_toString lib vc) = show_dec (length vc) @ clock_words lib vc"
proof -
  have d: "commas_to_spaces (show_dec n) = show_dec n" for n
    unfolding commas_to_spaces_def
    by (rule map_idI) (use show_dec_digits is_digit_noteq(4) in fastforce)
  have c: "commas_to_spaces (show_clock lib c) = show_clock lib c" if "c \<in> set vc" for c
    unfolding commas_to_spaces_def
    by (rule map_idI) (use show_clock_chars(2) [OF assms(1)] assms(2) that in auto)
  have "commas_to_spaces (concat (map (\<lambda>c. '','' @ show_clock lib c) ds)) = clock_words lib ds"
    if "set ds \<subseteq> set vc" for ds
    using that
    by (induction ds) (use c in \<open>auto simp: clock_words_def commas_to_spaces_def\<close>)
  then show ?thesis using d by (simp add: vc_toString_def commas_to_spaces_def)
qed

lemma is_space_blank [simp]: "is_space (CHR '' '')"
  by (simp add: is_space_def)

lemma read_clocks_words:
  assumes "time_codec lib" "\<forall>c \<in> set vc. printable_clock lib c"
  shows "read_clocks lib (length vc) acc \<lparr>is_rest = clock_words lib vc, is_ok = True\<rparr>
           = Inr (acc @ vc, \<lparr>is_rest = [], is_ok = True\<rparr>)"
  using assms(2)
proof (induction vc arbitrary: acc)
  case Nil
  then show ?case by (simp add: clock_words_def)
next
  case (Cons c vc)
  let ?r = "clock_words lib vc"
  have r: "?r = [] \<or> is_space (hd ?r)" by (cases vc) (simp_all add: clock_words_def)
  have "list_all (\<lambda>x. \<not> is_space x) (show_clock lib c)"
    using show_clock_chars(1) [OF assms(1)] Cons.prems by (auto simp: list_all_iff)
  from read_word_word [OF _ show_clock_nonempty this r, of "'' ''" "[]"]
  have "read_word [] \<lparr>is_rest = clock_words lib (c # vc), is_ok = True\<rparr>
      = (show_clock lib c, \<lparr>is_rest = ?r, is_ok = True\<rparr>)"
    by (simp add: clock_words_def)
  then have "read_clock lib \<lparr>is_rest = clock_words lib (c # vc), is_ok = True\<rparr>
      = Inr (c, \<lparr>is_rest = ?r, is_ok = True\<rparr>)"
    using parse_show_clock [OF assms(1)] Cons.prems by (simp add: read_clock_def)
  then show ?case using Cons.IH [of "acc @ [c]"] Cons.prems by simp
qed

lemma fromString_toString:
  assumes "time_codec lib" "\<forall>c \<in> set vc. printable_clock lib c" "length vc < 2 ^ 32"
  shows "vc_fromString lib (vc_toString lib vc) old = Inr (True, vc)"
proof -
  let ?r = "clock_words lib vc"
  have "?r = [] \<or> \<not> is_digit (hd ?r)"
    by (cases vc) (simp_all add: clock_words_def is_digit_def)
  from read_unsigned_show_dec [OF _ this assms(3), of "[]" 0]
  have "read_unsigned 32 0 \<lparr>is_rest = show_dec (length vc) @ ?r, is_ok = True\<rparr>
      = (length vc, \<lparr>is_rest = ?r, is_ok = True\<rparr>)" by simp
  then show ?thesis
    using read_clocks_words [OF assms(1,2), of "[]"]
    by (simp add: vc_fromString_def read_clock_list_def istream_of_def
        commas_to_spaces_toString [OF assms(1,2)])
qed

section \<open>A library instance\<close>

text \<open>
  A concrete library that meets the assumptions: times as sixteen letters, one for each half
  byte; clocks kept newest first, at most six of them; versions compared clock by clock.
\<close>

fun nibbles :: "nat \<Rightarrow> nat \<Rightarrow> string" where
  "nibbles 0 n = []"
| "nibbles (Suc k) n = char_of (65 + n mod 16) # nibbles k (n div 16)"

fun unnibbles :: "string \<Rightarrow> nat" where
  "unnibbles [] = 0"
| "unnibbles (c # cs) = (of_char c - 65) + 16 * unnibbles cs"

definition ref_increment :: "string \<Rightarrow> u64 \<Rightarrow> vclock \<Rightarrow> vclock" where
  "ref_increment k t vc =
     (let c = (case find (\<lambda>c. ck_key c = k) vc of
                 None \<Rightarrow> \<lparr>ck_key = k, ck_time = t, ck_count = 0\<rparr>
               | Some c \<Rightarrow> if t > ck_time c then \<lparr>ck_key = k, ck_time = t, ck_count = 0\<rparr>
                          else c\<lparr>ck_count := ck_count c + 1\<rparr>)
      in take 6 (c # filter (\<lambda>c. ck_key c \<noteq> k) vc))"

definition clock_le :: "clock \<Rightarrow> clock \<Rightarrow> bool" where
  "clock_le a b \<longleftrightarrow> ck_key a = ck_key b
     \<and> (ck_time a < ck_time b \<or> ck_time a = ck_time b \<and> ck_count a \<le> ck_count b)"

definition vclock_le :: "vclock \<Rightarrow> vclock \<Rightarrow> bool" where
  "vclock_le a b \<longleftrightarrow> (\<forall>c \<in> set a. \<exists>d \<in> set b. clock_le c d)"

definition ref_compare :: "vclock \<Rightarrow> vclock \<Rightarrow> vcompare" where
  "ref_compare a b =
     (if vclock_le a b then (if vclock_le b a then EQUAL else LESS_THAN)
      else if vclock_le b a then GREATER_THAN else OTHER_COMPARE)"

definition ref_merge :: "vclock \<Rightarrow> vclock \<Rightarrow> vclock" where
  "ref_merge a b = take 6 (filter (\<lambda>c. \<not> (\<exists>d \<in> set b. clock_le c d)) a
      @ filter (\<lambda>d. \<not> (\<exists>c \<in> set a. clock_le d c \<and> \<not> clock_le c d)) b)"

definition ref_lib :: vc_lib where
  "ref_lib = \<lparr>vl_increment = ref_increment, vl_merge = ref_merge, vl_compare = ref_compare,
     vl_encode = (\<lambda>t. nibbles 16 (unat t)), vl_decode = (\<lambda>s. of_nat (unnibbles (take 16 s))),
     vl_count = unat\<rparr>"

lemma length_nibbles [simp]: "length (nibbles k n) = k"
  by (induction k arbitrary: n) auto

lemma nibble_char: "(of_char (char_of (65 + n mod 16 :: nat)) :: nat) = 65 + n mod 16"
proof -
  have "65 + n mod 16 < 256" using mod_less_divisor [of 16 n] by linarith
  then show ?thesis by simp
qed

lemma unnibbles_nibbles: "unnibbles (nibbles k n) = n mod 16 ^ k"
proof (induction k arbitrary: n)
  case 0
  then show ?case by simp
next
  case (Suc k)
  have "n mod 16 ^ Suc k = n mod 16 + 16 * (n div 16 mod 16 ^ k)"
    by (simp add: mod_mult2_eq)
  then show ?case using Suc by (simp only: nibbles.simps unnibbles.simps nibble_char)
qed

lemma nibbles_chars: "c \<in> set (nibbles k n) \<Longrightarrow> 65 \<le> (of_char c :: nat) \<and> (of_char c :: nat) < 81"
proof (induction k arbitrary: n)
  case 0
  then show ?case by simp
next
  case (Suc k)
  then show ?case
    using nibble_char [of n] mod_less_divisor [of 16 n] by auto
qed

lemma ref_decode: "vl_decode ref_lib (vl_encode ref_lib t @ r) = t"
proof -
  have "unat t < 16 ^ 16" using unsigned_less [of t, where ?'a = nat] by simp
  then have "unnibbles (nibbles 16 (unat t)) = unat t"
    by (simp only: unnibbles_nibbles mod_less)
  then show ?thesis by (simp add: ref_lib_def)
qed

lemma time_codec_ref_lib: "time_codec ref_lib"
  unfolding time_codec_def
proof (intro conjI allI ballI)
  fix t r c
  show "vl_decode ref_lib (vl_encode ref_lib t) = t" using ref_decode [of t "[]"] by simp
  show "vl_decode ref_lib (vl_encode ref_lib t @ CHR ''.'' # r) = t" by (rule ref_decode)
  assume "c \<in> set (vl_encode ref_lib t)"
  then have c: "65 \<le> (of_char c :: nat)" "(of_char c :: nat) < 81"
    using nibbles_chars by (auto simp: ref_lib_def)
  then show "c \<noteq> CHR ''.''" "c \<noteq> CHR '',''" "\<not> is_space c"
    by (auto simp: is_space_def)
qed

lemma increments_front_ref_lib: "increments_front ref_lib"
  by (auto simp: increments_front_def ref_lib_def ref_increment_def Let_def
      dest: find_Some_iff [THEN iffD1] split: option.splits)

lemma starts_at_time_ref_lib: "starts_at_time ref_lib"
  by (auto simp: starts_at_time_def ref_lib_def ref_increment_def Let_def find_Some_iff
      split: option.splits)

lemma unat_ucast_32_64: "unat (ucast (t :: u32) :: u64) = unat t"
  by transfer (simp add: take_bit_take_bit)

section \<open>Properties\<close>

text \<open>
  C23. Round trip of versions: what \<^verbatim>\<open>toString\<close> prints, \<^verbatim>\<open>fromString\<close> reads back, clock for clock,
  and it reports success; for keys without dots, commas and white space and counters that the
  clock's type can hold. (The names of stored files and the messages between peers carry
  versions in this form.)
\<close>

theorem version_text_roundtrip:
  assumes "time_codec lib" "\<forall>c \<in> set vc. printable_clock lib c" "length vc < 2 ^ 32"
  shows "vc_fromString lib (vc_toString lib vc) old = Inr (True, vc)"
  using assms by (rule fromString_toString)

theorem version_text_roundtrip_witness:
  "vc_fromString ref_lib (vc_toString ref_lib
      [\<lparr>ck_key = ''one'', ck_time = 22, ck_count = 1\<rparr>, \<lparr>ck_key = ''two'', ck_time = 11, ck_count = 0\<rparr>]) []
    = Inr (True, [\<lparr>ck_key = ''one'', ck_time = 22, ck_count = 1\<rparr>,
                  \<lparr>ck_key = ''two'', ck_time = 11, ck_count = 0\<rparr>])"
  by (rule version_text_roundtrip [OF time_codec_ref_lib])
    (simp_all add: printable_clock_def is_space_def ref_lib_def)

text \<open>
  A version text whose counter is missing makes \<^verbatim>\<open>fromString\<close> throw
  \<^verbatim>\<open>std::invalid_argument\<close> (from \<^verbatim>\<open>std::stoul\<close>) instead of returning false: for any key and any time
  without separators, and whatever the clock held before. No caller catches it, and versions
  arrive in messages of other peers and in requests of users.
\<close>

theorem missing_counter_throws:
  assumes "\<forall>x \<in> set (key @ time). x \<noteq> CHR ''.'' \<and> x \<noteq> CHR '','' \<and> \<not> is_space x"
  shows "vc_fromString lib (''1,'' @ key @ ''.'' @ time @ ''.'') old = Inl Invalid_argument"
proof -
  let ?w = "key @ CHR ''.'' # time @ [CHR ''.'']"
  have dot: "CHR ''.'' \<notin> set key" "CHR ''.'' \<notin> set time" using assms by auto
  have "commas_to_spaces ?w = ?w" using assms by (intro commas_to_spaces_id) auto
  then have "commas_to_spaces (''1,'' @ ?w) = ''1 '' @ ?w"
    unfolding commas_to_spaces_append by (simp only:) (simp add: commas_to_spaces_def)
  moreover have "read_unsigned 32 0 \<lparr>is_rest = ''1 '' @ ?w, is_ok = True\<rparr>
      = (1, \<lparr>is_rest = '' '' @ ?w, is_ok = True\<rparr>)"
    by (simp add: read_unsigned_def skip_ws_def split_sign_def is_space_def is_digit_def
        dec_val_def digit_val_def)
  moreover have "read_word [] \<lparr>is_rest = '' '' @ ?w, is_ok = True\<rparr>
      = (?w, \<lparr>is_rest = [], is_ok = True\<rparr>)"
    using read_word_word [of "'' ''" ?w "[]" "[]"] assms
    by (auto simp: list_all_iff is_space_def)
  moreover have "parse_clock lib ?w = Inl Invalid_argument"
    using parse_clock_two_dots [OF dot, of lib "[]"]
    by (simp add: stoul_def skip_ws_def split_sign_def)
  ultimately show ?thesis
    by (simp add: vc_fromString_def read_clock_list_def istream_of_def read_clock_def)
qed

theorem missing_counter_throws_witness:
  "vc_fromString ref_lib (''1,'' @ ''peer'' @ ''.'' @ ''AAAA'' @ ''.'') [] = Inl Invalid_argument"
  by (rule missing_counter_throws) (simp add: is_space_def)

text \<open>
  C24. A deletion marker expires exactly when it is due: a version that had no such marker and is marked as deleted at
  some time is reported as expired from that time plus the timeout on, that moment included, and not before; a version whose
  last change is another one than a deletion never is. (The sum is a 64 bit one, and must not wrap around; of a version that
  has been deleted before, the time of the marker is left to turbolib's clock.)
\<close>

theorem deletion_expires_when_due:
  assumes "increments_front lib" "starts_at_time lib" "''delete'' \<notin> ck_key ` set vc"
    and "unat (wc_now w) + unat timeout < 2 ^ 64"
  shows "(isExpired w' timeout (markDeleted lib w vc)
            \<longleftrightarrow> unat (wc_now w) + unat timeout \<le> unat (wc_now w'))
       \<and> (k \<noteq> ''delete'' \<longrightarrow> \<not> isExpired w' timeout (vc_increment lib w k vc))"
proof -
  have t: "ck_time (hd (markDeleted lib w vc)) = wc_now w"
    using assms(2,3) by (simp add: starts_at_time_def markDeleted_def markDeleted_at_def
        vc_increment_at_def)
  have "unat (wc_now w + ucast timeout) = unat (wc_now w) + unat (ucast timeout :: u64)"
    using assms(4) by (intro unat_add_lem [THEN iffD1]) (simp add: unat_ucast_32_64)
  then have "unat (wc_now w + ucast timeout) = unat (wc_now w) + unat timeout"
    by (simp add: unat_ucast_32_64)
  then show ?thesis
    using isDeleted_markDeleted(1) [OF assms(1)] isDeleted_increment [OF assms(1)] t
    by (simp add: isExpired_def Let_def word_le_nat_alt)
qed

theorem deletion_expires_when_due_witness:
  "isExpired \<lparr>wc_frozen = 0, wc_system = 2000\<rparr> 1000
      (markDeleted ref_lib \<lparr>wc_frozen = 0, wc_system = 900\<rparr> [\<lparr>ck_key = ''foo'', ck_time = 5, ck_count = 0\<rparr>])
   \<and> \<not> isExpired \<lparr>wc_frozen = 0, wc_system = 1899\<rparr> 1000
      (markDeleted ref_lib \<lparr>wc_frozen = 0, wc_system = 900\<rparr> [\<lparr>ck_key = ''foo'', ck_time = 5, ck_count = 0\<rparr>])"
  using deletion_expires_when_due [OF increments_front_ref_lib starts_at_time_ref_lib,
      of "[\<lparr>ck_key = ''foo'', ck_time = 5, ck_count = 0\<rparr>]" "\<lparr>wc_frozen = 0, wc_system = 900\<rparr>" 1000]
  by (simp add: wc_now_def)

end
