(* ===== verification/Peers.thy ===== *)
theory Peers
  imports Clock
begin

text \<open>
  Membership: \<^verbatim>\<open>membership/Peer\<close>, \<^verbatim>\<open>common/MyMemberId\<close> and \<^verbatim>\<open>membership/KnownPeers\<close>. Peers are
  shared by pointer between the routing table, the address index and the code that sends to them,
  so they live in a store of references; the routing table, the socket addresses and the string
  splitting of turbolib are parameters.
\<close>

section \<open>Peer\<close>

record peer =
  pr_uid :: string
  pr_ips :: "string list"
  pr_actionId :: u8

definition Peer :: "string \<Rightarrow> string list \<Rightarrow> peer" where
  "Peer uid ips = \<lparr>pr_uid = uid, pr_ips = ips, pr_actionId = 0\<rparr>"

definition Peer_copy :: "peer \<Rightarrow> peer" where
  "Peer_copy p = \<lparr>pr_uid = pr_uid p, pr_ips = pr_ips p, pr_actionId = 0\<rparr>"

definition pr_address :: "peer \<Rightarrow> string" where
  "pr_address p = (case pr_ips p of [] \<Rightarrow> [] | ip # _ \<Rightarrow> ip)"

text \<open>
  The hashes the routing table uses for a pointer to a peer, a peer and an identifier, and the equality of a
  pointer and an identifier; \<open>h\<close> is the hash of strings and \<open>peers\<close> the store of references.
\<close>

definition hash_of_pointer :: "(string \<Rightarrow> nat) \<Rightarrow> (nat \<Rightarrow> peer) \<Rightarrow> nat \<Rightarrow> nat" where
  "hash_of_pointer h peers r = h (pr_uid (peers r))"

definition hash_of_peer :: "(string \<Rightarrow> nat) \<Rightarrow> peer \<Rightarrow> nat" where
  "hash_of_peer h p = h (pr_uid p)"

definition hash_of_uid :: "(string \<Rightarrow> nat) \<Rightarrow> string \<Rightarrow> nat" where
  "hash_of_uid h uid = h uid"

definition pointer_is :: "(nat \<Rightarrow> peer) \<Rightarrow> nat \<Rightarrow> string \<Rightarrow> bool" where
  "pointer_is peers r uid \<longleftrightarrow> pr_uid (peers r) = uid"

lemma equal_peers_hash_alike:
  "pointer_is peers r uid \<Longrightarrow> hash_of_pointer h peers r = hash_of_uid h uid \<and> hash_of_peer h (peers r) = hash_of_uid h uid"
  by (simp add: pointer_is_def hash_of_pointer_def hash_of_peer_def hash_of_uid_def)

text \<open>\<open>++_actionId\<close> twice when the first one comes round to 0.\<close>

definition nextActionId :: "peer \<Rightarrow> u8 \<times> peer" where
  "nextActionId p =
     (let res = pr_actionId p + 1
      in if res = 0 then (res + 1, p\<lparr>pr_actionId := res + 1\<rparr>) else (res, p\<lparr>pr_actionId := res\<rparr>))"

text \<open>\<open>split\<close> and \<open>join\<close> stand for turbolib's \<^verbatim>\<open>str::split\<close> and \<^verbatim>\<open>str::join\<close>.\<close>

record str_lib =
  sl_split :: "string \<Rightarrow> char \<Rightarrow> string list"
  sl_join :: "string list \<Rightarrow> char \<Rightarrow> string"

definition pr_toString :: "str_lib \<Rightarrow> peer \<Rightarrow> string" where
  "pr_toString sl p =
     (let iplist = sl_join sl (pr_ips p) (CHR ''|'');
          iplist = (if iplist = [] then ''none'' else iplist)
      in pr_uid p @ '' '' @ iplist)"

definition pr_fromString :: "str_lib \<Rightarrow> string \<Rightarrow> peer \<Rightarrow> bool \<times> peer" where
  "pr_fromString sl serial p =
     (let splits = sl_split sl serial (CHR '' '')
      in if length splits < 2 then (False, p)
         else let p = p\<lparr>pr_uid := splits ! 0\<rparr>
              in if splits ! 1 \<noteq> ''none''
                 then (True, p\<lparr>pr_ips := sl_split sl (splits ! 1) (CHR ''|'')\<rparr>)
                 else (True, p))"

text \<open>
  The documented behaviour of the two functions: \<open>join\<close> puts the separator between the parts, and
  \<open>split\<close> takes the parts apart again when no part is empty or has the separator in it.
\<close>

definition splits_joins :: "str_lib \<Rightarrow> bool" where
  "splits_joins sl \<longleftrightarrow>
     (\<forall>c. sl_join sl [] c = [])
   \<and> (\<forall>x c. sl_join sl [x] c = x)
   \<and> (\<forall>x y xs c. sl_join sl (x # y # xs) c = x @ c # sl_join sl (y # xs) c)
   \<and> (\<forall>xs c. xs \<noteq> [] \<and> (\<forall>x \<in> set xs. x \<noteq> [] \<and> c \<notin> set x) \<longrightarrow> sl_split sl (sl_join sl xs c) c = xs)"

section \<open>MyMemberId\<close>

text \<open>The singleton is the string it holds; \<open>encode\<close> is turbolib's base64 and \<open>raw\<close> the 16 random bytes.\<close>

definition mid_set :: "string \<Rightarrow> string \<Rightarrow> string" where
  "mid_set i mid = i"

definition mid_generate :: "(string \<Rightarrow> string) \<Rightarrow> string \<Rightarrow> string \<Rightarrow> string" where
  "mid_generate encode raw mid = mid_set (encode raw) mid"

definition mid_str :: "string \<Rightarrow> string" where
  "mid_str mid = mid"

section \<open>KnownPeers\<close>

type_synonym ref = nat

text \<open>
  \<^verbatim>\<open>kademlia::routing_table\<close>: it finds and erases by uid (\<^verbatim>\<open>std::hash\<close> and \<^verbatim>\<open>operator==\<close> of the
  header read the uid of the peer behind a pointer, so they come with the pointer here), and
  \<open>rt_items\<close> is what a loop over it visits. \<open>rt_random\<close> takes the random choice as an argument.
\<close>

record 'rt routing_lib =
  rt_set_origin :: "string \<Rightarrow> ref \<Rightarrow> 'rt \<Rightarrow> 'rt"
  rt_find :: "string \<Rightarrow> 'rt \<Rightarrow> ref option"
  rt_insert :: "string \<Rightarrow> ref \<Rightarrow> 'rt \<Rightarrow> 'rt"
  rt_erase :: "string \<Rightarrow> 'rt \<Rightarrow> bool \<times> 'rt"
  rt_items :: "'rt \<Rightarrow> ref list"
  rt_random :: "nat \<Rightarrow> 'rt \<Rightarrow> ref option"

text \<open>\<^verbatim>\<open>socket_address\<close>: parsing, the address part, and the address without a port.\<close>

record 'a addr_lib =
  al_fromString :: "string \<Rightarrow> 'a option"
  al_address :: "'a \<Rightarrow> string"
  al_of :: "string \<Rightarrow> 'a"

record ('a, 'rt) known_peers =
  kp_filename :: string
  kp_self :: "ref option"
  kp_members :: 'rt
  kp_ips :: "'a \<rightharpoonup> ref"
  kp_peers :: "ref \<Rightarrow> peer"
  kp_fresh :: ref

definition kp_alloc :: "peer \<Rightarrow> ('a, 'rt) known_peers \<Rightarrow> ref \<times> ('a, 'rt) known_peers" where
  "kp_alloc p kp = (kp_fresh kp, kp\<lparr>kp_peers := (kp_peers kp)(kp_fresh kp := p), kp_fresh := Suc (kp_fresh kp)\<rparr>)"

definition kp_set_ips :: "ref \<Rightarrow> string list \<Rightarrow> ('a, 'rt) known_peers \<Rightarrow> ('a, 'rt) known_peers" where
  "kp_set_ips r ips kp = kp\<lparr>kp_peers := (kp_peers kp)(r := (kp_peers kp r)\<lparr>pr_ips := ips\<rparr>)\<rparr>"

text \<open>The loop of \<^verbatim>\<open>update\<close>: every address is entered with and without its port.\<close>

fun index_ips :: "'a addr_lib \<Rightarrow> ref \<Rightarrow> string list \<Rightarrow> ('a \<rightharpoonup> ref) \<Rightarrow> ('a \<rightharpoonup> ref)" where
  "index_ips al current [] m = m"
| "index_ips al current (ip # ips) m =
     (case al_fromString al ip of
        None \<Rightarrow> index_ips al current ips m
      | Some addr \<Rightarrow> index_ips al current ips
                        (m(addr \<mapsto> current, al_of al (al_address al addr) \<mapsto> current)))"

definition kp_update :: "'rt routing_lib \<Rightarrow> 'a addr_lib \<Rightarrow> string \<Rightarrow> string list
    \<Rightarrow> ('a, 'rt) known_peers \<Rightarrow> bool \<times> ('a, 'rt) known_peers" where
  "kp_update rl al uid ips kp =
     (case kp_self kp of
        None \<Rightarrow>
          (let (r, kp) = kp_alloc (Peer uid ips) kp
           in (True, kp\<lparr>kp_self := Some r, kp_members := rt_set_origin rl uid r (kp_members kp)\<rparr>))
      | Some s \<Rightarrow>
          if uid = pr_uid (kp_peers kp s) then (False, kp_set_ips s ips kp)
          else let it = rt_find rl uid (kp_members kp);
                   isNew = (it = None);
                   (current, kp) =
                     (case it of
                        None \<Rightarrow> let (r, kp) = kp_alloc (Peer uid ips) kp
                                in (r, kp\<lparr>kp_members := rt_insert rl uid r (kp_members kp)\<rparr>)
                      | Some r \<Rightarrow> (r, kp_set_ips r ips kp))
               in (isNew, kp\<lparr>kp_ips := index_ips al current ips (kp_ips kp)\<rparr>))"

text \<open>The loop of \<^verbatim>\<open>remove\<close>; \<open>u\<close> is the uid of the peer found and \<open>uid\<close> the one asked for.\<close>

fun unindex_ips :: "'a addr_lib \<Rightarrow> string \<Rightarrow> string \<Rightarrow> string list \<Rightarrow> ('a \<rightharpoonup> ref) \<Rightarrow> ('a \<rightharpoonup> ref)" where
  "unindex_ips al u uid [] m = m"
| "unindex_ips al u uid (ip # ips) m =
     (case al_fromString al ip of
        None \<Rightarrow> unindex_ips al u uid ips m
      | Some addr \<Rightarrow>
          (let m = m(addr := None); host = al_of al (al_address al addr)
           in unindex_ips al u uid ips (if m host \<noteq> None \<and> u = uid then m(host := None) else m)))"

definition kp_remove :: "'rt routing_lib \<Rightarrow> 'a addr_lib \<Rightarrow> string
    \<Rightarrow> ('a, 'rt) known_peers \<Rightarrow> bool \<times> ('a, 'rt) known_peers" where
  "kp_remove rl al uid kp =
     (case rt_find rl uid (kp_members kp) of
        None \<Rightarrow> (False, kp)
      | Some r \<Rightarrow>
          (let p = kp_peers kp r;
               kp = kp\<lparr>kp_ips := unindex_ips al (pr_uid p) uid (pr_ips p) (kp_ips kp)\<rparr>;
               (res, members) = rt_erase rl uid (kp_members kp)
           in (res, kp\<lparr>kp_members := members\<rparr>)))"

definition kp_addSelf :: "'rt routing_lib \<Rightarrow> (string \<Rightarrow> string) \<Rightarrow> string
    \<Rightarrow> ('a, 'rt) known_peers \<Rightarrow> string \<Rightarrow> bool \<times> ('a, 'rt) known_peers \<times> string" where
  "kp_addSelf rl encode raw kp mid =
     (case kp_self kp of
        Some s \<Rightarrow> (False, kp, mid_set (pr_uid (kp_peers kp s)) mid)
      | None \<Rightarrow>
          (let mid = mid_generate encode raw mid; peerId = mid_str mid;
               (r, kp) = kp_alloc (Peer peerId []) kp
           in (True, kp\<lparr>kp_self := Some r, kp_members := rt_set_origin rl peerId r (kp_members kp)\<rparr>, mid)))"

definition kp_lookup :: "'rt routing_lib \<Rightarrow> string \<Rightarrow> ('a, 'rt) known_peers \<Rightarrow> ref option" where
  "kp_lookup rl uid kp = rt_find rl uid (kp_members kp)"

definition kp_lookupAddr :: "'a addr_lib \<Rightarrow> 'a \<Rightarrow> ('a, 'rt) known_peers \<Rightarrow> ref option" where
  "kp_lookupAddr al addr kp =
     (case kp_ips kp addr of
        None \<Rightarrow> kp_ips kp (al_of al (al_address al addr))
      | Some r \<Rightarrow> Some r)"

definition kp_randomPeer :: "'rt routing_lib \<Rightarrow> nat \<Rightarrow> ('a, 'rt) known_peers \<Rightarrow> ref option" where
  "kp_randomPeer rl seed kp = rt_random rl seed (kp_members kp)"

text \<open>The peers \<^verbatim>\<open>forEachPeer\<close> calls its argument with, in order.\<close>

definition kp_eachPeer :: "'rt routing_lib \<Rightarrow> ('a, 'rt) known_peers \<Rightarrow> peer list" where
  "kp_eachPeer rl kp =
     map (kp_peers kp) ((case kp_self kp of None \<Rightarrow> [] | Some s \<Rightarrow> [s]) @ rt_items rl (kp_members kp))"

text \<open>
  \<open>put name version copies data\<close> stands for opening the entry for writing and, when that gives a
  stream, writing the data and committing it with close.
\<close>

definition MEMBERSHIP_FILE_PREFIX :: string where
  "MEMBERSHIP_FILE_PREFIX = ''.membership/''"

definition syncToDataStore :: "'rt routing_lib \<Rightarrow> vc_lib \<Rightarrow> wall_clock
    \<Rightarrow> (string \<Rightarrow> string \<Rightarrow> u16 \<Rightarrow> string \<Rightarrow> 's \<Rightarrow> 's) \<Rightarrow> ('a, 'rt) known_peers \<Rightarrow> 's \<Rightarrow> 's" where
  "syncToDataStore rl vl w put kp st =
     fold (\<lambda>p st. let addr = pr_address p
                  in if addr = [] then st
                     else put (MEMBERSHIP_FILE_PREFIX @ pr_uid p)
                            (vc_toString vl (vc_increment vl w (pr_uid p) [])) 0 addr st)
       (kp_eachPeer rl kp) st"

definition kp_toString :: "'rt routing_lib \<Rightarrow> str_lib \<Rightarrow> ('a, 'rt) known_peers \<Rightarrow> string" where
  "kp_toString rl sl kp = fold (\<lambda>p summary. summary @ pr_toString sl p @ [CHR 0x0A]) (kp_eachPeer rl kp) []"

definition load_line :: "'rt routing_lib \<Rightarrow> 'a addr_lib \<Rightarrow> str_lib \<Rightarrow> string
    \<Rightarrow> ('a, 'rt) known_peers \<Rightarrow> ('a, 'rt) known_peers" where
  "load_line rl al sl line kp =
     (let (ok, p) = pr_fromString sl line (Peer [] [])
      in if ok then snd (kp_update rl al (pr_uid p) (pr_ips p) kp) else kp)"

text \<open>\<open>lines\<close> and \<open>res\<close> are what turbolib's \<^verbatim>\<open>StateSaver\<close> reads from the file and returns.\<close>

definition kp_load :: "'rt routing_lib \<Rightarrow> 'a addr_lib \<Rightarrow> str_lib \<Rightarrow> (string \<Rightarrow> string) \<Rightarrow> string
    \<Rightarrow> string list \<Rightarrow> bool \<Rightarrow> ('a, 'rt) known_peers \<Rightarrow> string \<Rightarrow> bool \<times> ('a, 'rt) known_peers \<times> string" where
  "kp_load rl al sl encode raw lines res kp mid =
     (let kp = fold (load_line rl al sl) lines kp;
          (_, kp, mid) = kp_addSelf rl encode raw kp mid
      in (res, kp, mid))"

definition kp_save :: "'rt routing_lib \<Rightarrow> str_lib \<Rightarrow> (string \<Rightarrow> string \<Rightarrow> 'fs \<Rightarrow> bool \<times> 'fs)
    \<Rightarrow> ('a, 'rt) known_peers \<Rightarrow> 'fs \<Rightarrow> bool \<times> 'fs" where
  "kp_save rl sl file_save kp fs = file_save (kp_filename kp) (kp_toString rl sl kp) fs"

section \<open>Serialized peers\<close>

lemma splits_joinsD:
  assumes "splits_joins sl"
  shows "sl_join sl [] c = []" "sl_join sl [x] c = x"
    "sl_join sl (x # y # xs) c = x @ c # sl_join sl (y # xs) c"
    "xs \<noteq> [] \<Longrightarrow> \<forall>x \<in> set xs. x \<noteq> [] \<and> c \<notin> set x \<Longrightarrow> sl_split sl (sl_join sl xs c) c = xs"
  using assms by (simp_all add: splits_joins_def)

lemma set_sl_join:
  assumes "splits_joins sl"
  shows "set (sl_join sl xs c) \<subseteq> insert c (\<Union>x \<in> set xs. set x)"
proof (induction xs)
  case (Cons x xs)
  then show ?case by (cases xs) (auto simp: splits_joinsD(1-3) [OF assms])
qed (simp add: splits_joinsD [OF assms])

lemma sl_join_eq_Nil:
  assumes "splits_joins sl" "\<forall>x \<in> set xs. x \<noteq> []"
  shows "sl_join sl xs c = [] \<longleftrightarrow> xs = []"
  using assms(2) by (cases xs rule: remdups_adj.cases) (auto simp: splits_joinsD(1-3) [OF assms(1)])

lemma pr_fromString_words:
  assumes "splits_joins sl" "uid \<noteq> []" "CHR '' '' \<notin> set uid" "w \<noteq> []" "CHR '' '' \<notin> set w"
  shows "pr_fromString sl (uid @ '' '' @ w) p =
    (True, p\<lparr>pr_uid := uid, pr_ips := (if w = ''none'' then pr_ips p else sl_split sl w (CHR ''|''))\<rparr>)"
proof -
  have "sl_split sl (sl_join sl [uid, w] (CHR '' '')) (CHR '' '') = [uid, w]"
    by (rule splits_joinsD(4) [OF assms(1)]) (use assms in simp_all)
  then show ?thesis by (simp add: splits_joinsD [OF assms(1)] pr_fromString_def)
qed

section \<open>Action ids\<close>

fun action_ids :: "nat \<Rightarrow> peer \<Rightarrow> u8 list" where
  "action_ids 0 p = []"
| "action_ids (Suc n) p = (let (i, p') = nextActionId p in i # action_ids n p')"

text \<open>The position of the counter on the circle of the 255 ids.\<close>

definition id_base :: "u8 \<Rightarrow> nat" where
  "id_base a = (if a = 0 then 254 else unat a - 1)"

lemma nextActionId_cycle:
  fixes p :: peer
  defines "i \<equiv> fst (nextActionId p)"
  shows "pr_actionId (snd (nextActionId p)) = i" "i \<noteq> 0"
    "unat i = Suc ((id_base (pr_actionId p) + 1) mod 255)"
    "id_base i = (id_base (pr_actionId p) + 1) mod 255"
proof -
  let ?a = "pr_actionId p"
  show "pr_actionId (snd (nextActionId p)) = i" by (simp add: i_def nextActionId_def Let_def)
  have less: "unat ?a < 256" using unsigned_less [of ?a, where ?'a = nat] by simp
  show 2: "unat i = Suc ((id_base ?a + 1) mod 255)"
  proof (cases "?a + 1 = 0")
    case True
    then have "unat ?a = 255" using less unat_plus_if' [of ?a 1] by (simp split: if_splits)
    with True show ?thesis by (auto simp: i_def nextActionId_def id_base_def)
  next
    case False
    then have "unat (?a + 1) = unat ?a + 1" using less by (simp add: unat_plus_if' unat_eq_0 [symmetric] split: if_splits)
    moreover from this have "unat ?a \<noteq> 255"
      using unsigned_less [of "?a + 1", where ?'a = nat] by simp
    ultimately show ?thesis
      using False less by (auto simp: i_def nextActionId_def id_base_def Let_def unat_gt_0)
  qed
  then show "i \<noteq> 0" by auto
  with 2 show "id_base i = (id_base ?a + 1) mod 255" by (simp add: id_base_def)
qed

lemma action_ids_unat:
  "map unat (action_ids n p) = map (\<lambda>k. Suc ((id_base (pr_actionId p) + k) mod 255)) [1..<Suc n]"
proof (induction n arbitrary: p)
  case (Suc n)
  note cyc = nextActionId_cycle [of p]
  have "map (\<lambda>k. Suc ((id_base (pr_actionId p) + k) mod 255)) [1..<Suc (Suc n)]
      = Suc ((id_base (pr_actionId p) + 1) mod 255)
        # map (\<lambda>k. Suc ((id_base (pr_actionId p) + Suc k) mod 255)) [1..<Suc n]"
    by (simp add: upt_conv_Cons map_Suc_upt [symmetric] del: upt_Suc)
  moreover have "Suc ((id_base (pr_actionId p) + Suc k) mod 255)
      = Suc ((id_base (fst (nextActionId p)) + k) mod 255)" for k
    using cyc(4) by (simp add: mod_simps)
  ultimately show ?case
    using Suc.IH [of "snd (nextActionId p)"] cyc(1,3) by (simp add: case_prod_beta Let_def del: upt_Suc)
qed simp

section \<open>The address index\<close>

lemma index_ips_SomeD: "index_ips al c ips m a = Some r \<Longrightarrow> r = c \<or> m a = Some r"
  by (induction ips arbitrary: m) (fastforce split: option.splits if_splits)+

lemma index_ips_keeps: "m a = Some c \<Longrightarrow> index_ips al c ips m a = Some c"
  by (induction ips arbitrary: m) (auto split: option.splits)

lemma index_ips_enters:
  assumes "ip \<in> set ips" "al_fromString al ip = Some a" "b \<in> {a, al_of al (al_address al a)}"
  shows "index_ips al c ips m b = Some c"
  using assms
proof (induction ips arbitrary: m)
  case (Cons ip' ips)
  show ?case
  proof (cases "ip = ip'")
    case True
    then show ?thesis using Cons.prems by (auto intro: index_ips_keeps)
  next
    case False
    then show ?thesis using Cons by (auto split: option.splits)
  qed
qed simp

lemma index_ips_other:
  assumes "\<forall>ip \<in> set ips. \<forall>a. al_fromString al ip = Some a \<longrightarrow> b \<notin> {a, al_of al (al_address al a)}"
  shows "index_ips al c ips m b = m b"
  using assms by (induction ips arbitrary: m) (auto split: option.splits)

lemma unindex_ips_SomeD: "unindex_ips al u uid ips m a = Some r \<Longrightarrow> m a = Some r"
proof (induction ips arbitrary: m u)
  case (Cons ip ips)
  show ?case
  proof (cases "al_fromString al ip")
    case None
    then show ?thesis using Cons by simp
  next
    case (Some b)
    from Cons.prems Some show ?thesis
      by (simp add: Let_def split: if_splits) (drule Cons.IH, simp split: if_splits)+
  qed
qed simp

lemma unindex_ips_other:
  assumes "\<forall>ip \<in> set ips. \<forall>a. al_fromString al ip = Some a \<longrightarrow> b \<notin> {a, al_of al (al_address al a)}"
  shows "unindex_ips al u uid ips m b = m b"
  using assms by (induction ips arbitrary: m) (auto simp: Let_def split: option.splits)

lemma unindex_ips_absent: "m b = None \<Longrightarrow> unindex_ips al u uid ips m b = None"
  by (metis option.exhaust unindex_ips_SomeD)

lemma unindex_ips_removes:
  assumes "ip \<in> set ips" "al_fromString al ip = Some a" "b \<in> {a, al_of al (al_address al a)}"
  shows "unindex_ips al u u ips m b = None"
  using assms
proof (induction ips arbitrary: m)
  case (Cons ip' ips)
  show ?case
  proof (cases "ip = ip'")
    case True
    then show ?thesis using Cons.prems by (auto simp: Let_def intro!: unindex_ips_absent)
  next
    case False
    then show ?thesis using Cons by (auto simp: Let_def split: option.splits)
  qed
qed simp

section \<open>The routing table and the invariant\<close>

text \<open>
  What KnownPeers relies on: \<open>find\<close> gives an entry only if it was inserted under that uid and not
  erased since. (The table may refuse or evict entries, so \<open>find\<close> may fail after an \<open>insert\<close>.)
\<close>

definition routing :: "'rt routing_lib \<Rightarrow> bool" where
  "routing rl \<longleftrightarrow>
     (\<forall>u v r t q. rt_find rl u (rt_set_origin rl v r t) = Some q \<longrightarrow> rt_find rl u t = Some q)
   \<and> (\<forall>u v r t q. rt_find rl u (rt_insert rl v r t) = Some q \<longrightarrow> u = v \<and> q = r \<or> rt_find rl u t = Some q)
   \<and> (\<forall>u v t. rt_find rl u (snd (rt_erase rl v t)) = (if u = v then None else rt_find rl u t)
            \<and> (fst (rt_erase rl v t) \<longleftrightarrow> rt_find rl v t \<noteq> None))"

lemma routingD:
  assumes "routing rl"
  shows "rt_find rl u (rt_set_origin rl v r t) = Some q \<Longrightarrow> rt_find rl u t = Some q"
    "rt_find rl u (rt_insert rl v r t) = Some q \<Longrightarrow> u = v \<and> q = r \<or> rt_find rl u t = Some q"
    "rt_find rl u (snd (rt_erase rl v t)) = (if u = v then None else rt_find rl u t)"
    "fst (rt_erase rl v t) \<longleftrightarrow> rt_find rl v t \<noteq> None"
  using assms unfolding routing_def by blast+

definition kp_ok :: "'rt routing_lib \<Rightarrow> ('a, 'rt) known_peers \<Rightarrow> bool" where
  "kp_ok rl kp \<longleftrightarrow>
     (\<forall>u r. rt_find rl u (kp_members kp) = Some r \<longrightarrow> r < kp_fresh kp \<and> pr_uid (kp_peers kp r) = u)
   \<and> (\<forall>a r. kp_ips kp a = Some r \<longrightarrow> r < kp_fresh kp)
   \<and> (\<forall>s. kp_self kp = Some s \<longrightarrow> s < kp_fresh kp)"

lemma kp_ok_set_self:
  assumes "routing rl" "kp_ok rl kp"
  shows "kp_ok rl (kp\<lparr>kp_peers := (kp_peers kp)(kp_fresh kp := p), kp_fresh := Suc (kp_fresh kp),
    kp_self := Some (kp_fresh kp), kp_members := rt_set_origin rl u (kp_fresh kp) (kp_members kp)\<rparr>)"
  using assms(2) by (fastforce simp: kp_ok_def less_Suc_eq dest: routingD(1) [OF assms(1)])

lemma kp_ok_update:
  assumes "routing rl" "kp_ok rl kp"
  shows "kp_ok rl (snd (kp_update rl al uid ips kp))"
proof (cases "kp_self kp")
  case None
  then show ?thesis using kp_ok_set_self [OF assms]
    by (simp add: kp_update_def kp_alloc_def)
next
  case (Some s)
  show ?thesis
  proof (cases "uid = pr_uid (kp_peers kp s) \<or> rt_find rl uid (kp_members kp) \<noteq> None")
    case True
    then show ?thesis using assms(2) Some
      by (fastforce simp: kp_update_def kp_set_ips_def kp_ok_def dest: index_ips_SomeD)
  next
    case False
    then show ?thesis using assms(2) Some
      by (auto simp: kp_update_def kp_alloc_def kp_ok_def Peer_def less_Suc_eq
          dest: index_ips_SomeD dest!: routingD(2) [OF assms(1)])
  qed
qed

lemma kp_ok_remove:
  assumes "routing rl" "kp_ok rl kp"
  shows "kp_ok rl (snd (kp_remove rl al uid kp))"
  using assms(2) routingD(3) [OF assms(1)]
  by (auto simp: kp_remove_def kp_ok_def Let_def case_prod_beta split: option.splits if_splits
      dest: unindex_ips_SomeD)

lemma kp_ok_addSelf:
  assumes "routing rl" "kp_ok rl kp"
  shows "kp_ok rl (fst (snd (kp_addSelf rl encode raw kp mid)))"
  using kp_ok_set_self [OF assms] assms(2)
  by (cases "kp_self kp") (simp_all add: kp_addSelf_def kp_alloc_def Let_def)

lemma update_self_uid:
  assumes "routing rl" "kp_ok rl kp" "kp_self kp = Some s"
  shows "kp_self (snd (kp_update rl al uid ips kp)) = Some s
    \<and> pr_uid (kp_peers (snd (kp_update rl al uid ips kp)) s) = pr_uid (kp_peers kp s)"
  using assms(2,3)
  by (auto simp: kp_update_def kp_set_ips_def kp_alloc_def kp_ok_def Let_def case_prod_beta split: option.splits)

section \<open>The contract of IKnowPeers\<close>

text \<open>
  The first peer entered is this one and stays it; another one is found under each of its addresses
  as soon as it is entered.
\<close>

locale peer_directory =
  fixes inv :: "'s \<Rightarrow> bool"
    and update :: "string \<Rightarrow> string list \<Rightarrow> 's \<Rightarrow> 's"
    and self_id :: "'s \<Rightarrow> string option"
    and uid_at :: "'s \<Rightarrow> 'a \<Rightarrow> string option"
    and parse :: "string \<Rightarrow> 'a option"
  assumes inv_update: "inv s \<Longrightarrow> inv (update u ips s)"
    and self_first: "inv s \<Longrightarrow> self_id s = None \<Longrightarrow> self_id (update u ips s) = Some u"
    and self_stays: "inv s \<Longrightarrow> self_id s = Some me \<Longrightarrow> self_id (update u ips s) = Some me"
    and found: "inv s \<Longrightarrow> self_id s = Some me \<Longrightarrow> u \<noteq> me \<Longrightarrow> ip \<in> set ips \<Longrightarrow> parse ip = Some a
      \<Longrightarrow> uid_at (update u ips s) a = Some u"
begin

lemma updates_inv: "inv s \<Longrightarrow> inv (fold (\<lambda>(u, ips). update u ips) us s)"
  by (induction us arbitrary: s) (auto simp: inv_update)

lemma updates_self_stays:
  "inv s \<Longrightarrow> self_id s = Some me \<Longrightarrow> self_id (fold (\<lambda>(u, ips). update u ips) us s) = Some me"
  by (induction us arbitrary: s) (auto simp: inv_update self_stays)

lemma updates_self_first:
  "inv s \<Longrightarrow> self_id s = None \<Longrightarrow>
   self_id (fold (\<lambda>(u, ips). update u ips) us s) = (case us of [] \<Rightarrow> None | (u, _) # _ \<Rightarrow> Some u)"
  by (cases us) (auto simp: inv_update self_first updates_self_stays)

end

definition kp_self_id :: "('a, 'rt) known_peers \<Rightarrow> string option" where
  "kp_self_id kp = map_option (\<lambda>s. pr_uid (kp_peers kp s)) (kp_self kp)"

definition kp_uid_at :: "'a addr_lib \<Rightarrow> ('a, 'rt) known_peers \<Rightarrow> 'a \<Rightarrow> string option" where
  "kp_uid_at al kp a = map_option (\<lambda>r. pr_uid (kp_peers kp r)) (kp_lookupAddr al a kp)"

text \<open>The entry a new address points to, and what the peer behind it holds.\<close>

lemma update_enters:
  assumes "routing rl" "kp_ok rl kp" "kp_self kp = Some s" "uid \<noteq> pr_uid (kp_peers kp s)"
  obtains r where
    "kp_ips (snd (kp_update rl al uid ips kp)) = index_ips al r ips (kp_ips kp)"
    "pr_uid (kp_peers (snd (kp_update rl al uid ips kp)) r) = uid"
    "pr_ips (kp_peers (snd (kp_update rl al uid ips kp)) r) = ips"
    "rt_find rl uid (kp_members (snd (kp_update rl al uid ips kp))) \<in> {None, Some r}"
proof (cases "rt_find rl uid (kp_members kp)")
  case None
  have "rt_find rl uid (rt_insert rl uid r (kp_members kp)) \<in> {None, Some r}" for r
    using routingD(2) [OF assms(1)] None by fastforce
  then show ?thesis using None assms that [of "kp_fresh kp"]
    by (simp add: kp_update_def kp_alloc_def Peer_def)
next
  case (Some r)
  then show ?thesis using assms that [of r]
    by (simp add: kp_update_def kp_set_ips_def kp_ok_def)
qed

lemma update_keeps_uids:
  "r < kp_fresh kp \<Longrightarrow> pr_uid (kp_peers (snd (kp_update rl al uid ips kp)) r) = pr_uid (kp_peers kp r)"
  by (auto simp: kp_update_def kp_set_ips_def kp_alloc_def Let_def split: option.splits)

locale known_peers_lib =
  fixes rl :: "'rt routing_lib" and al :: "'a addr_lib"
  assumes rl: "routing rl"

sublocale known_peers_lib \<subseteq>
  peer_directory "kp_ok rl" "\<lambda>u ips kp. snd (kp_update rl al u ips kp)" kp_self_id "kp_uid_at al" "al_fromString al"
proof unfold_locales
  fix kp :: "('a, 'rt) known_peers" and u me ip ips and a :: 'a
  assume ok: "kp_ok rl kp"
  show "kp_ok rl (snd (kp_update rl al u ips kp))" by (rule kp_ok_update [OF rl ok])
  show "kp_self_id kp = None \<Longrightarrow> kp_self_id (snd (kp_update rl al u ips kp)) = Some u"
    by (simp add: kp_self_id_def kp_update_def kp_alloc_def Peer_def)
  assume self: "kp_self_id kp = Some me"
  then obtain s where s: "kp_self kp = Some s" "me = pr_uid (kp_peers kp s)"
    by (auto simp: kp_self_id_def)
  show "kp_self_id (snd (kp_update rl al u ips kp)) = Some me"
    using update_self_uid [OF rl ok s(1)] s(2) by (simp add: kp_self_id_def)
  assume "u \<noteq> me" and ip: "ip \<in> set ips" "al_fromString al ip = Some a"
  then have "u \<noteq> pr_uid (kp_peers kp s)" using s(2) by simp
  from update_enters [OF rl ok s(1) this, of al ips] obtain r where
    "kp_ips (snd (kp_update rl al u ips kp)) = index_ips al r ips (kp_ips kp)"
    "pr_uid (kp_peers (snd (kp_update rl al u ips kp)) r) = u" by metis
  then show "kp_uid_at al (snd (kp_update rl al u ips kp)) a = Some u"
    using index_ips_enters [OF ip] by (simp add: kp_uid_at_def kp_lookupAddr_def)
qed

definition parsed_lines :: "str_lib \<Rightarrow> string list \<Rightarrow> (string \<times> string list) list" where
  "parsed_lines sl lines =
     [(pr_uid p, pr_ips p). (ok, p) \<leftarrow> map (\<lambda>l. pr_fromString sl l (Peer [] [])) lines, ok]"

lemma fold_load_line:
  "fold (load_line rl al sl) lines kp
     = fold (\<lambda>(u, ips). (\<lambda>kp. snd (kp_update rl al u ips kp))) (parsed_lines sl lines) kp"
  by (induction lines arbitrary: kp) (auto simp: parsed_lines_def load_line_def Let_def split: prod.split)

context known_peers_lib
begin

lemma load_self:
  assumes "kp_ok rl kp" "kp_self kp = None"
  shows "kp_ok rl (fst (snd (kp_load rl al sl encode raw lines res kp mid)))
    \<and> snd (snd (kp_load rl al sl encode raw lines res kp mid))
        = (case parsed_lines sl lines of [] \<Rightarrow> encode raw | (u, _) # _ \<Rightarrow> u)
    \<and> kp_self_id (fst (snd (kp_load rl al sl encode raw lines res kp mid)))
        = Some (snd (snd (kp_load rl al sl encode raw lines res kp mid)))"
proof -
  let ?kp = "fold (load_line rl al sl) lines kp"
  have ok: "kp_ok rl ?kp" unfolding fold_load_line by (rule updates_inv [OF assms(1)])
  have self: "kp_self_id ?kp = (case parsed_lines sl lines of [] \<Rightarrow> None | (u, _) # _ \<Rightarrow> Some u)"
    unfolding fold_load_line
    by (rule updates_self_first [OF assms(1)]) (simp add: kp_self_id_def assms(2))
  have load: "kp_load rl al sl encode raw lines res kp mid = (res, snd (kp_addSelf rl encode raw ?kp mid))"
    by (simp add: kp_load_def Let_def case_prod_beta)
  show ?thesis
    unfolding load snd_conv fst_conv using kp_ok_addSelf [OF rl ok] self
    by (cases "kp_self ?kp") (auto simp: kp_addSelf_def kp_self_id_def kp_alloc_def Let_def Peer_def
        mid_set_def mid_str_def mid_generate_def split: list.splits)
qed

end

section \<open>A concrete routing table, socket address and string library\<close>

definition list_rt :: "(string \<times> ref) list routing_lib" where
  "list_rt = \<lparr>rt_set_origin = (\<lambda>_ _ t. t), rt_find = (\<lambda>u t. map_of t u),
     rt_insert = (\<lambda>u r t. t @ [(u, r)]),
     rt_erase = (\<lambda>u t. (map_of t u \<noteq> None, filter (\<lambda>x. fst x \<noteq> u) t)),
     rt_items = map snd,
     rt_random = (\<lambda>n t. if t = [] then None else Some (snd (t ! (n mod length t))))\<rparr>"

lemma map_of_filter_other: "map_of (filter (\<lambda>x. fst x \<noteq> v) t) u = (if u = v then None else map_of t u)"
  by (induction t) auto

lemma routing_list_rt: "routing list_rt"
  by (auto simp: routing_def list_rt_def map_of_filter_other map_add_Some_iff map_add_def
      split: option.splits if_splits)

definition list_addr :: "(string \<times> string) addr_lib" where
  "list_addr = \<lparr>al_fromString = (\<lambda>s. if s = [] then None
        else Some (takeWhile (\<lambda>c. c \<noteq> CHR '':'') s, tl (dropWhile (\<lambda>c. c \<noteq> CHR '':'') s))),
     al_address = fst, al_of = (\<lambda>h. (h, []))\<rparr>"

fun split_on :: "char \<Rightarrow> string \<Rightarrow> string list" where
  "split_on c [] = [[]]"
| "split_on c (x # xs) =
     (if x = c then [] # split_on c xs
      else (case split_on c xs of [] \<Rightarrow> [[x]] | y # ys \<Rightarrow> (x # y) # ys))"

fun join_with :: "string list \<Rightarrow> char \<Rightarrow> string" where
  "join_with [] c = []"
| "join_with [x] c = x"
| "join_with (x # y # xs) c = x @ c # join_with (y # xs) c"

definition list_str :: str_lib where
  "list_str = \<lparr>sl_split = (\<lambda>s c. split_on c s), sl_join = join_with\<rparr>"

lemma split_on_not_Nil [simp]: "split_on c xs \<noteq> []"
  by (induction xs) (auto split: list.splits)

lemma split_on_free: "c \<notin> set x \<Longrightarrow> split_on c x = [x]"
  by (induction x) auto

lemma split_on_append: "c \<notin> set x \<Longrightarrow> split_on c (x @ c # s) = x # split_on c s"
  by (induction x) auto

lemma splits_joins_list_str: "splits_joins list_str"
proof -
  have "split_on c (join_with xs c) = xs" if "xs \<noteq> []" "\<forall>x \<in> set xs. x \<noteq> [] \<and> c \<notin> set x" for xs c
    using that
  proof (induction xs)
    case (Cons x xs)
    then show ?case by (cases xs) (auto simp: split_on_free split_on_append)
  qed simp
  then show ?thesis by (simp add: splits_joins_def list_str_def)
qed

interpretation list_peers: known_peers_lib list_rt list_addr
  by unfold_locales (rule routing_list_rt)

section \<open>Properties\<close>

text \<open>
  The file decides who this member is: after \<^verbatim>\<open>load\<close>, the first line that parses is this
  member, and a fresh id is generated when there is none; the peer \<^verbatim>\<open>self()\<close> and the id that
  MyMemberId holds agree, and every pointer the state holds is to a peer of the uid it is filed
  under. Later lines cannot change the identity.
\<close>

theorem load_identifies_self:
  assumes "routing rl" "kp_ok rl kp" "kp_self kp = None"
  shows "case kp_load rl al sl encode raw lines res kp mid of (_, kp', mid') \<Rightarrow>
     kp_ok rl kp'
   \<and> mid' = (case parsed_lines sl lines of [] \<Rightarrow> encode raw | (u, _) # _ \<Rightarrow> u)
   \<and> kp_self_id kp' = Some mid'"
  using known_peers_lib.load_self [OF known_peers_lib.intro [OF assms(1)] assms(2,3)]
  by (simp add: case_prod_beta)

definition no_peers :: "string \<Rightarrow> (string \<times> string, (string \<times> ref) list) known_peers" where
  "no_peers file = \<lparr>kp_filename = file, kp_self = None, kp_members = [], kp_ips = (\<lambda>_. None),
     kp_peers = (\<lambda>_. Peer [] []), kp_fresh = 0\<rparr>"

lemma kp_ok_no_peers: "kp_ok list_rt (no_peers file)"
  by (simp add: kp_ok_def no_peers_def list_rt_def)

lemma load_identifies_self_witness:
  "kp_self_id (fst (snd (kp_load list_rt list_addr list_str id ''raw''
      [''garbage'', ''one 1.1.1.1:80|1.1.1.2:80'', ''two none''] True (no_peers ''f'') []))) = Some ''one''"
proof -
  have "parsed_lines list_str [''garbage'', ''one 1.1.1.1:80|1.1.1.2:80'', ''two none'']
      = [(''one'', [''1.1.1.1:80'', ''1.1.1.2:80'']), (''two'', [])]" by code_simp
  moreover have "kp_self (no_peers ''f'') = None" by (simp add: no_peers_def)
  ultimately show ?thesis
    using load_identifies_self [OF routing_list_rt kp_ok_no_peers [of "''f''"],
        where ?al = "list_addr" and ?sl = "list_str" and ?encode = "id" and ?raw = "''raw''"
        and ?lines = "[''garbage'', ''one 1.1.1.1:80|1.1.1.2:80'', ''two none'']"
        and ?res = "True" and ?mid = "[]"]
    by (simp add: case_prod_beta)
qed

text \<open>
  C27. A peer is found by its address as soon as it is known: after \<^verbatim>\<open>update\<close> of another peer than
  this one, \<^verbatim>\<open>lookupAddr\<close> of each address it was given leads to a peer with that uid and exactly
  the new address list; so does the same host under any port that has no entry of its own.
\<close>

theorem updated_peer_is_found_by_address:
  assumes "routing rl" "kp_ok rl kp" "kp_self kp = Some s" "uid \<noteq> pr_uid (kp_peers kp s)"
    and "ip \<in> set ips" "al_fromString al ip = Some a"
  shows "let kp' = snd (kp_update rl al uid ips kp) in
    \<exists>r. kp_lookupAddr al a kp' = Some r
      \<and> pr_uid (kp_peers kp' r) = uid \<and> pr_ips (kp_peers kp' r) = ips
      \<and> (\<forall>b. al_address al b = al_address al a \<and> kp_ips kp' b = None \<longrightarrow> kp_lookupAddr al b kp' = Some r)"
proof -
  obtain r where r: "kp_ips (snd (kp_update rl al uid ips kp)) = index_ips al r ips (kp_ips kp)"
    "pr_uid (kp_peers (snd (kp_update rl al uid ips kp)) r) = uid"
    "pr_ips (kp_peers (snd (kp_update rl al uid ips kp)) r) = ips"
    by (rule update_enters [OF assms(1-4)])
  show ?thesis
    unfolding Let_def
    by (rule exI [of _ r]) (use r index_ips_enters [OF assms(5,6)] in \<open>auto simp: kp_lookupAddr_def\<close>)
qed

definition one_peer :: "(string \<times> string, (string \<times> ref) list) known_peers" where
  "one_peer = snd (kp_update list_rt list_addr ''me'' [''1.1.1.1:80''] (no_peers ''f''))"

lemma kp_ok_one_peer: "kp_ok list_rt one_peer"
  unfolding one_peer_def by (rule kp_ok_update [OF routing_list_rt kp_ok_no_peers])

lemma one_peer_self: "kp_self one_peer = Some 0" "pr_uid (kp_peers one_peer 0) = ''me''"
  by code_simp+

lemma updated_peer_is_found_by_address_witness:
  "\<exists>r. kp_lookupAddr list_addr (''1.1.1.2'', ''9'')
     (snd (kp_update list_rt list_addr ''you'' [''1.1.1.2:80''] one_peer)) = Some r"
proof -
  have "al_fromString list_addr ''1.1.1.2:80'' = Some (''1.1.1.2'', ''80'')" by code_simp
  moreover have "kp_ips (snd (kp_update list_rt list_addr ''you'' [''1.1.1.2:80''] one_peer)) (''1.1.1.2'', ''9'') = None"
    by code_simp
  moreover have "al_address list_addr (''1.1.1.2'', ''9'') = al_address list_addr (''1.1.1.2'', ''80'')" by code_simp
  ultimately show ?thesis
    using updated_peer_is_found_by_address [OF routing_list_rt kp_ok_one_peer one_peer_self(1), of "''you''" "''1.1.1.2:80''"
        "[''1.1.1.2:80'']" list_addr "(''1.1.1.2'', ''80'')"] one_peer_self(2)
    by (auto simp: Let_def)
qed

text \<open>
  An address a peer has given up stays in the index for good: after an update with a new
  address and even after the peer is removed, \<^verbatim>\<open>lookupAddr\<close> of the old address still leads to a
  peer of that uid, although \<^verbatim>\<open>lookup\<close> does not know it any more.
\<close>

theorem old_address_outlives_peer:
  assumes "routing rl" "kp_ok rl kp" "kp_self kp = Some s" "uid \<noteq> pr_uid (kp_peers kp s)"
    and "al_fromString al ip1 = Some a" "al_fromString al ip2 = Some b"
    and "a \<notin> {b, al_of al (al_address al b)}"
  shows "let kp1 = snd (kp_update rl al uid [ip1] kp);
             kp2 = snd (kp_update rl al uid [ip2] kp1);
             kp3 = snd (kp_remove rl al uid kp2)
         in kp_lookup rl uid kp3 = None \<and> kp_uid_at al kp3 a = Some uid"
proof -
  let ?kp1 = "snd (kp_update rl al uid [ip1] kp)"
  let ?kp2 = "snd (kp_update rl al uid [ip2] ?kp1)"
  let ?kp3 = "snd (kp_remove rl al uid ?kp2)"
  have ok1: "kp_ok rl ?kp1" by (rule kp_ok_update [OF assms(1,2)])
  have self1: "kp_self ?kp1 = Some s" "uid \<noteq> pr_uid (kp_peers ?kp1 s)"
    using update_self_uid [OF assms(1-3)] assms(4) by simp_all
  obtain q where q: "kp_ips ?kp1 = index_ips al q [ip1] (kp_ips kp)" "pr_uid (kp_peers ?kp1 q) = uid"
    by (rule update_enters [OF assms(1-4)])
  obtain r where r: "kp_ips ?kp2 = index_ips al r [ip2] (kp_ips ?kp1)" "pr_ips (kp_peers ?kp2 r) = [ip2]"
    "rt_find rl uid (kp_members ?kp2) \<in> {None, Some r}"
    by (rule update_enters [OF assms(1) ok1 self1])
  have q1: "kp_ips ?kp1 a = Some q"
    using index_ips_enters [of ip1 "[ip1]" al a a] assms(5) q(1) by simp
  have other: "\<forall>ip \<in> set [ip2]. \<forall>c. al_fromString al ip = Some c \<longrightarrow> a \<notin> {c, al_of al (al_address al c)}"
    using assms(6,7) by simp
  have "kp_ips ?kp2 a = Some q" unfolding r(1) index_ips_other [OF other] by (rule q1)
  then have "kp_ips ?kp3 a = Some q"
    using r(2,3) unindex_ips_other [OF other]
    by (auto simp: kp_remove_def Let_def case_prod_beta)
  moreover have "kp_peers ?kp3 = kp_peers ?kp2"
    by (simp add: kp_remove_def Let_def case_prod_beta split: option.splits)
  moreover have "pr_uid (kp_peers ?kp2 q) = uid"
    using update_keeps_uids [of q ?kp1] q(2) q1 ok1 by (simp add: kp_ok_def)
  moreover have "kp_lookup rl uid ?kp3 = None"
    using routingD(3) [OF assms(1)]
    by (simp add: kp_lookup_def kp_remove_def Let_def case_prod_beta split: option.splits)
  ultimately show ?thesis by (simp add: kp_uid_at_def kp_lookupAddr_def)
qed

lemma old_address_outlives_peer_witness:
  "kp_uid_at list_addr (snd (kp_remove list_rt list_addr ''you''
     (snd (kp_update list_rt list_addr ''you'' [''1.1.1.3:80'']
       (snd (kp_update list_rt list_addr ''you'' [''1.1.1.2:80''] one_peer)))))) (''1.1.1.2'', ''80'') = Some ''you''"
proof -
  have "al_fromString list_addr ''1.1.1.2:80'' = Some (''1.1.1.2'', ''80'')"
    "al_fromString list_addr ''1.1.1.3:80'' = Some (''1.1.1.3'', ''80'')" by code_simp+
  moreover have "(''1.1.1.2'', ''80'') \<notin> {(''1.1.1.3'', ''80''), al_of list_addr (al_address list_addr (''1.1.1.3'', ''80''))}"
    by code_simp
  ultimately show ?thesis
    using old_address_outlives_peer [OF routing_list_rt kp_ok_one_peer one_peer_self(1), of "''you''" list_addr]
      one_peer_self(2)
    by (simp add: Let_def)
qed

text \<open>
  Removing a peer makes the others on its host unreachable by unknown ports: the entry for the
  host without a port is erased even if it leads to another peer, for the test meant to prevent
  that compares the uid of the removed peer with itself.
\<close>

theorem removal_drops_shared_host:
  assumes "rt_find rl u1 (kp_members kp) = Some r1" "pr_uid (kp_peers kp r1) = u1"
    and "ip \<in> set (pr_ips (kp_peers kp r1))" "al_fromString al ip = Some a"
    and "kp_ips kp (al_of al (al_address al a)) = Some r2" "r1 \<noteq> r2"
    and "al_address al b = al_address al a" "kp_ips kp b = None"
  shows "kp_lookupAddr al b kp = Some r2 \<and> kp_lookupAddr al b (snd (kp_remove rl al u1 kp)) = None"
proof -
  have "kp_ips (snd (kp_remove rl al u1 kp)) = unindex_ips al u1 u1 (pr_ips (kp_peers kp r1)) (kp_ips kp)"
    using assms(1,2) by (simp add: kp_remove_def Let_def case_prod_beta)
  then show ?thesis
    using assms(5,7,8) unindex_ips_removes [OF assms(3,4)]
    by (simp add: kp_lookupAddr_def unindex_ips_absent)
qed

definition same_host :: "(string \<times> string, (string \<times> ref) list) known_peers" where
  "same_host = snd (kp_update list_rt list_addr ''it'' [''1.1.1.2:81'']
                 (snd (kp_update list_rt list_addr ''you'' [''1.1.1.2:80''] one_peer)))"

lemma removal_drops_shared_host_witness:
  "kp_uid_at list_addr same_host (''1.1.1.2'', ''9'') = Some ''it''
   \<and> kp_uid_at list_addr (snd (kp_remove list_rt list_addr ''you'' same_host)) (''1.1.1.2'', ''9'') = None
   \<and> kp_lookup list_rt ''it'' (snd (kp_remove list_rt list_addr ''you'' same_host)) = Some 2"
proof -
  have 1: "rt_find list_rt ''you'' (kp_members same_host) = Some 1" "pr_uid (kp_peers same_host 1) = ''you''"
    "''1.1.1.2:80'' \<in> set (pr_ips (kp_peers same_host 1))"
    "al_fromString list_addr ''1.1.1.2:80'' = Some (''1.1.1.2'', ''80'')"
    "kp_ips same_host (al_of list_addr (al_address list_addr (''1.1.1.2'', ''80''))) = Some 2" "(1::ref) \<noteq> 2"
    "al_address list_addr (''1.1.1.2'', ''9'') = al_address list_addr (''1.1.1.2'', ''80'')"
    "kp_ips same_host (''1.1.1.2'', ''9'') = None"
    by code_simp+
  have 2: "pr_uid (kp_peers same_host 2) = ''it''"
    "kp_lookup list_rt ''it'' (snd (kp_remove list_rt list_addr ''you'' same_host)) = Some 2"
    by code_simp+
  show ?thesis
    using removal_drops_shared_host [OF 1] 2 by (simp add: kp_uid_at_def)
qed

text \<open>
  C28. Action ids do not collide before they have to: any 255 consecutive calls of
  \<^verbatim>\<open>nextActionId\<close> give 255 different ids, whatever the counter was, and none of them is 0, which
  stands for no action.
\<close>

theorem action_ids_are_distinct:
  assumes "n \<le> 255"
  shows "distinct (action_ids n p) \<and> 0 \<notin> set (action_ids n p)"
proof -
  let ?f = "\<lambda>k. Suc ((id_base (pr_actionId p) + k) mod 255)"
  have inj: "inj_on ?f {1..<Suc n}"
  proof (rule inj_onI)
    fix x y assume xy: "x \<in> {1..<Suc n}" "y \<in> {1..<Suc n}" "?f x = ?f y"
    then have "(id_base (pr_actionId p) + x) mod 255 = (id_base (pr_actionId p) + y) mod 255"
      by (simp only: nat.inject)
    then have "int (id_base (pr_actionId p) + x) mod 255 = int (id_base (pr_actionId p) + y) mod 255"
      by (drule_tac f = int in arg_cong) (simp only: of_nat_mod of_nat_numeral)
    then have "255 dvd int x - int y" by (simp only: mod_eq_dvd_iff of_nat_add add_diff_cancel_left)
    moreover have "\<bar>int x - int y\<bar> < 255" using xy(1,2) assms by auto
    ultimately have "int x - int y = 0"
      using dvd_imp_le_int [of "int x - int y" 255] by (metis abs_numeral not_le)
    then show "x = y" by simp
  qed
  have "distinct (map ?f [1..<Suc n])" using inj by (simp add: distinct_map del: upt_Suc)
  moreover have "0 \<notin> set (map ?f [1..<Suc n])" by (auto simp del: upt_Suc)
  ultimately have "distinct (map unat (action_ids n p))" and pos: "0 \<notin> set (map unat (action_ids n p))"
    unfolding action_ids_unat by blast+
  moreover have "0 \<notin> set (action_ids n p)" using pos by force
  ultimately show ?thesis by (simp add: distinct_map)
qed

lemma action_ids_are_distinct_witness: "distinct (action_ids 255 (Peer ''you'' []))"
  using action_ids_are_distinct [of 255 "Peer ''you'' []"] by simp

end
