(* ===== verification/Requests.thy ===== *)
theory Requests
  imports Wire Tabulator Peers
begin

text \<open>
  The requests of \<^verbatim>\<open>api/\<close> and the tables of \<^verbatim>\<open>api/Api.cpp\<close> that lead from a name or an id to a
  command; and \<^verbatim>\<open>peer_client/MessageSender\<close>, which sends requests to peers. The encoding of
  msgpack is a parameter.
\<close>

section \<open>Requests\<close>

type_synonym i16 = "16 word"

record write_req =
  wr_name :: string
  wr_version :: string
  wr_mirror :: i16
  wr_copies :: i16
  wr_offset :: u64
  wr_source :: string

definition Write :: write_req where
  "Write = \<lparr>wr_name = [], wr_version = [], wr_mirror = 0, wr_copies = ucast DEFAULT_MIRRORS,
     wr_offset = 0, wr_source = []\<rparr>"

text \<open>
  \<^verbatim>\<open>WriteInstructions\<close>: a write under way. The shared pointer to the stream that passes the entry
  on is a reference.
\<close>

record write_instructions = write_req +
  wi_outstream :: "nat option"
  wi_isComplete :: bool
  wi_digest :: u64

definition WriteInstructions :: write_instructions where
  "WriteInstructions = \<lparr>wr_name = [], wr_version = [], wr_mirror = 0, wr_copies = ucast DEFAULT_MIRRORS,
     wr_offset = 0, wr_source = [], wi_outstream = None, wi_isComplete = False, wi_digest = 0\<rparr>"

definition WriteInstructions_of :: "string \<Rightarrow> string \<Rightarrow> i16 \<Rightarrow> i16 \<Rightarrow> write_instructions" where
  "WriteInstructions_of name version mirror copies =
     WriteInstructions\<lparr>wr_name := name, wr_version := version, wr_mirror := mirror, wr_copies := copies\<rparr>"

record copy_req = write_req +
  cp_path :: string

record named_req =
  nr_name :: string
  nr_version :: string

record drop_req =
  dq_name :: string
  dq_copies :: i16

record list_keys_req =
  lk_all :: bool
  lk_deleted :: bool
  lk_limit :: u64
  lk_prefix :: string

record add_peer_req =
  ap_uid :: string
  ap_ip :: string

record key_req =
  kq_tree :: tree_id
  kq_first :: u64
  kq_last :: u64

record offer_req =
  of_name :: string
  of_version :: string
  of_source :: string

record ack_req =
  ak_name :: string
  ak_version :: string
  ak_size :: u64

text \<open>The subclasses of \<^verbatim>\<open>Turbopump::Request\<close>.\<close>

datatype request =
  WriteReq write_req
| CopyReq copy_req
| ReadReq named_req
| DeleteReq named_req
| WaitReq named_req
| DropReq drop_req
| ListKeysReq list_keys_req
| AddPeerReq add_peer_req
| RemovePeerReq string
| StatusReq string
| SyncReq tree_id
| KeyReq key_req
| OfferReq offer_req
| DemandReq offer_req
| AckReq ack_req

text \<open>\<^verbatim>\<open>_ID\<close> of each class.\<close>

definition Write_ID :: nat where [simp]: "Write_ID = 0"

definition Copy_ID :: nat where [simp]: "Copy_ID = 10"

definition Read_ID :: nat where [simp]: "Read_ID = 2"

definition Delete_ID :: nat where [simp]: "Delete_ID = 5"

definition Wait_ID :: nat where [simp]: "Wait_ID = 8"

definition Drop_ID :: nat where [simp]: "Drop_ID = 4"

definition ListKeys_ID :: nat where [simp]: "ListKeys_ID = 3"

definition AddPeer_ID :: nat where [simp]: "AddPeer_ID = 6"

definition RemovePeer_ID :: nat where [simp]: "RemovePeer_ID = 7"

definition Status_ID :: nat where [simp]: "Status_ID = 107"

definition Sync_ID :: nat where [simp]: "Sync_ID = 102"

definition KeyRequest_ID :: nat where [simp]: "KeyRequest_ID = 103"

definition OfferWrite_ID :: nat where [simp]: "OfferWrite_ID = 105"

definition DemandWrite_ID :: nat where [simp]: "DemandWrite_ID = 106"

definition AckWrite_ID :: nat where [simp]: "AckWrite_ID = 101"

text \<open>\<^verbatim>\<open>_ID\<close> of the class.\<close>

fun request_id :: "request \<Rightarrow> nat" where
  "request_id (WriteReq _) = Write_ID"
| "request_id (CopyReq _) = Copy_ID"
| "request_id (ReadReq _) = Read_ID"
| "request_id (DeleteReq _) = Delete_ID"
| "request_id (WaitReq _) = Wait_ID"
| "request_id (DropReq _) = Drop_ID"
| "request_id (ListKeysReq _) = ListKeys_ID"
| "request_id (AddPeerReq _) = AddPeer_ID"
| "request_id (RemovePeerReq _) = RemovePeer_ID"
| "request_id (StatusReq _) = Status_ID"
| "request_id (SyncReq _) = Sync_ID"
| "request_id (KeyReq _) = KeyRequest_ID"
| "request_id (OfferReq _) = OfferWrite_ID"
| "request_id (DemandReq _) = DemandWrite_ID"
| "request_id (AckReq _) = AckWrite_ID"

definition Write_INTERNAL_ID :: nat where
  "Write_INTERNAL_ID = 100"

section \<open>Api\<close>

text \<open>The commands and what distinguishes objects of the same class.\<close>

datatype hook = WhenLocalWriteFinishes | WhenMirrorWriteFinishes

datatype command_kind =
  AddPeerCommand
| CopyCommand hook
| DeleteCommand
| DropCommand
| ListKeysCommand
| ReadCommand
| RemovePeerCommand
| StatusCommand string
| WaitCommand
| WriteCommand hook
| AckWriteCommand
| DemandWriteCommand
| KeyRequestCommand
| OfferWriteCommand
| SyncCommand

definition api_commands :: "(string \<times> nat) list" where
  "api_commands =
     [(''add-peer'', 6), (''copy'', 10), (''delete'', 5), (''drop'', 4), (''list-keys'', 3), (''read'', 2),
      (''remove-peer'', 7), (''status'', 107), (''membership'', 108), (''ring'', 109), (''wait'', 8),
      (''write'', 0)]"

definition api_command_impl :: "nat \<Rightarrow> command_kind option" where
  "api_command_impl i =
     (if i = 6 then Some AddPeerCommand
      else if i = 10 then Some (CopyCommand WhenLocalWriteFinishes)
      else if i = 5 then Some DeleteCommand
      else if i = 4 then Some DropCommand
      else if i = 3 then Some ListKeysCommand
      else if i = 2 then Some ReadCommand
      else if i = 7 then Some RemovePeerCommand
      else if i = 107 then Some (StatusCommand [])
      else if i = 108 then Some (StatusCommand ''membership'')
      else if i = 109 then Some (StatusCommand ''ring'')
      else if i = 8 then Some WaitCommand
      else if i = 0 then Some (WriteCommand WhenLocalWriteFinishes)
      else if i = Write_INTERNAL_ID then Some (WriteCommand WhenMirrorWriteFinishes)
      else if i = 101 then Some AckWriteCommand
      else if i = 106 then Some DemandWriteCommand
      else if i = 103 then Some KeyRequestCommand
      else if i = 105 then Some OfferWriteCommand
      else if i = 102 then Some SyncCommand
      else None)"

text \<open>\<open>unpack kind buff\<close> is the request msgpack finds, None when it throws.\<close>

definition api_command :: "(command_kind \<Rightarrow> bytes \<Rightarrow> request option) \<Rightarrow> nat \<Rightarrow> bytes
    \<Rightarrow> (command_kind \<times> request) option" where
  "api_command unpack i buff =
     (case api_command_impl i of
        None \<Rightarrow> None
      | Some kind \<Rightarrow> (case unpack kind buff of None \<Rightarrow> None | Some req \<Rightarrow> Some (kind, req)))"

text \<open>\<open>load\<close> fills the fields of the request from the parameters of a user.\<close>

definition api_command_named :: "(command_kind \<Rightarrow> (string \<times> string) list \<Rightarrow> request) \<Rightarrow> string
    \<Rightarrow> (string \<times> string) list \<Rightarrow> (command_kind \<times> request) option" where
  "api_command_named load name params =
     (case map_of api_commands name of
        None \<Rightarrow> None
      | Some i \<Rightarrow> map_option (\<lambda>kind. (kind, load kind params)) (api_command_impl i))"

definition api_command_req :: "request \<Rightarrow> (command_kind \<times> request) option" where
  "api_command_req req = map_option (\<lambda>kind. (kind, req)) (api_command_impl (request_id req))"

section \<open>MessageSender\<close>

text \<open>The calls of \<^verbatim>\<open>IMessageSender\<close>.\<close>

datatype sender_call =
  DigestPing peer tree_id merkle_point
| DigestPings peer tree_id "merkle_point list"
| RequestKeyRange peer tree_id u64 u64
| RequestKey peer tree_id u64
| OfferWrite peer string string string
| DemandWrite peer string string string
| AcknowledgeWrite peer string string u64

text \<open>What is called on the writer of a connection: send, try to send, flush.\<close>

datatype writer_call = SendCall bytes | TrySendCall bytes | FlushCall bool

definition reqHeader :: "(request \<Rightarrow> bytes) \<Rightarrow> request \<Rightarrow> bytes" where
  "reqHeader mpack req = package (of_nat (request_id req)) (mpack req)"

definition sendMessage :: "'a addr_lib \<Rightarrow> ('a \<Rightarrow> 'w option) \<Rightarrow> peer \<Rightarrow> bytes \<Rightarrow> bool
    \<Rightarrow> ('w \<times> writer_call list) option" where
  "sendMessage al getWriter peer message blocking =
     (case al_fromString al (pr_address peer) of
        None \<Rightarrow> None
      | Some addr \<Rightarrow>
          (case getWriter addr of
             None \<Rightarrow> None
           | Some writer \<Rightarrow>
               Some (writer, [if blocking then SendCall message else TrySendCall message, FlushCall blocking])))"

fun digest_text :: "merkle_point list \<Rightarrow> string" where
  "digest_text [] = []"
| "digest_text (p # ps) = mp_toString p @ concat (map (\<lambda>q. ''|'' @ mp_toString q) ps)"

text \<open>The message of a call, its recipient and whether it is sent blocking.\<close>

fun message_of :: "(request \<Rightarrow> bytes) \<Rightarrow> sender_call \<Rightarrow> peer \<times> bytes \<times> bool" where
  "message_of mpack (DigestPing peer treeid point) =
     (peer, reqHeader mpack (SyncReq treeid) @ mp_toString point, False)"
| "message_of mpack (DigestPings peer treeid points) =
     (peer, reqHeader mpack (SyncReq treeid) @ digest_text points, False)"
| "message_of mpack (RequestKeyRange peer treeid first final) =
     (peer, reqHeader mpack (KeyReq \<lparr>kq_tree = treeid, kq_first = first, kq_last = final\<rparr>), False)"
| "message_of mpack (RequestKey peer treeid key) =
     (peer, reqHeader mpack (KeyReq \<lparr>kq_tree = treeid, kq_first = key, kq_last = key\<rparr>), False)"
| "message_of mpack (OfferWrite peer filename version source) =
     (peer, reqHeader mpack (OfferReq \<lparr>of_name = filename, of_version = version, of_source = source\<rparr>), False)"
| "message_of mpack (DemandWrite peer filename version source) =
     (peer, reqHeader mpack (DemandReq \<lparr>of_name = filename, of_version = version, of_source = source\<rparr>), False)"
| "message_of mpack (AcknowledgeWrite peer filename version len) =
     (peer, reqHeader mpack (AckReq \<lparr>ak_name = filename, ak_version = version, ak_size = len\<rparr>), True)"

definition send_call :: "(request \<Rightarrow> bytes) \<Rightarrow> 'a addr_lib \<Rightarrow> ('a \<Rightarrow> 'w option) \<Rightarrow> sender_call
    \<Rightarrow> ('w \<times> writer_call list) option" where
  "send_call mpack al getWriter c =
     (let (peer, message, blocking) = message_of mpack c in sendMessage al getWriter peer message blocking)"

section \<open>Properties\<close>

definition internal_kind :: "command_kind \<Rightarrow> bool" where
  "internal_kind kind \<longleftrightarrow> kind \<in> {WriteCommand WhenMirrorWriteFinishes, AckWriteCommand, DemandWriteCommand,
     KeyRequestCommand, OfferWriteCommand, SyncCommand}"

lemma api_commands_ids: "(name, i) \<in> set api_commands \<Longrightarrow> i \<in> {6, 10, 5, 4, 3, 2, 7, 107, 108, 109, 8, 0}"
  by (auto simp: api_commands_def)

lemma api_commands_distinct: "distinct (map fst api_commands)" "distinct (map snd api_commands)"
  by (simp_all add: api_commands_def)

lemma api_command_impl_external:
  assumes "i \<in> {6, 10, 5, 4, 3, 2, 7, 107, 108, 109, 8, 0}"
  obtains kind where "api_command_impl i = Some kind" "\<not> internal_kind kind"
  using assms by (auto simp: api_command_impl_def internal_kind_def Write_INTERNAL_ID_def)

lemma inj_command_impl: "inj_on api_command_impl {6, 10, 5, 4, 3, 2, 7, 107, 108, 109, 8, 0}"
  by (simp add: api_command_impl_def Write_INTERNAL_ID_def)

text \<open>
  C31. Users cannot reach the commands between peers: a name of the table leads to a command that is
  none of those that act on behalf of a peer (acknowledge, demand, offer, key request, sync, the
  write that counts as a mirror's), and different names lead to different commands.
\<close>

theorem names_reach_user_commands_only:
  assumes "name \<in> fst ` set api_commands"
  shows "\<exists>kind. api_command_named load name params = Some (kind, load kind params)
    \<and> \<not> internal_kind kind
    \<and> (\<forall>name'. name' \<noteq> name \<longrightarrow>
         map_option fst (api_command_named load name' params') \<noteq> Some kind)"
proof -
  obtain i where i: "(name, i) \<in> set api_commands" using assms by auto
  then have lookup: "map_of api_commands name = Some i"
    using api_commands_distinct(1) by simp
  obtain kind where kind: "api_command_impl i = Some kind" "\<not> internal_kind kind"
    by (rule api_command_impl_external [OF api_commands_ids [OF i]])
  have "map_option fst (api_command_named load name' params') \<noteq> Some kind" if "name' \<noteq> name" for name'
  proof
    assume "map_option fst (api_command_named load name' params') = Some kind"
    then obtain j where j: "map_of api_commands name' = Some j" "api_command_impl j = Some kind"
      by (auto simp: api_command_named_def split: option.splits)
    from j(1) have mem: "(name', j) \<in> set api_commands" by (rule map_of_SomeD)
    have "i = j"
      using inj_onD [OF inj_command_impl] kind(1) j(2) api_commands_ids [OF i] api_commands_ids [OF mem] by metis
    then show False
      using i mem that api_commands_distinct(2) by (force simp: distinct_map inj_on_def)
  qed
  then show ?thesis using lookup kind by (auto simp: api_command_named_def)
qed

lemma names_reach_user_commands_only_witness:
  "\<exists>kind. map_option fst (api_command_named (\<lambda>_ _. StatusReq []) ''drop'' []) = Some kind \<and> \<not> internal_kind kind"
proof -
  have "''drop'' \<in> fst ` set api_commands" by (simp add: api_commands_def)
  from names_reach_user_commands_only [OF this, where load = "\<lambda>_ _. StatusReq []" and params = "[]"]
  show ?thesis by fastforce
qed

end
