(* ===== verification/Streams.thy ===== *)
theory Streams
  imports Requests
begin

text \<open>
  The streams of \<^verbatim>\<open>storage/\<close>: the interfaces \<^verbatim>\<open>IReader\<close> and \<^verbatim>\<open>IWriter\<close>, \<^verbatim>\<open>readstream\<close> and
  \<^verbatim>\<open>writestream\<close> over them, and the implementations \<^verbatim>\<open>StringReader\<close>, \<^verbatim>\<open>FileReader\<close> and
  \<^verbatim>\<open>FileWriter\<close>. System calls are the parameter \<open>sys_ops\<close>; \<open>'f\<close> is the state of the system.
\<close>

section \<open>KeyMetadata and the interfaces\<close>

record key_metadata =
  km_version :: vclock
  km_totalCopies :: u16
  km_supercede :: bool
  km_digest :: u64

definition KeyMetadata :: key_metadata where
  "KeyMetadata = \<lparr>km_version = [], km_totalCopies = ucast DEFAULT_MIRRORS, km_supercede = True, km_digest = 0\<rparr>"

text \<open>
  \<open>ir_chunk n\<close> is what \<^verbatim>\<open>stream\<close> hands to \<^verbatim>\<open>write\<close> of a sink whose longest packet is \<open>n\<close>: the bytes,
  or None when nothing is written and 0 returned.
\<close>

record ('r, 'f) reader_ops =
  ir_good :: "'r \<Rightarrow> bool"
  ir_size :: "'r \<Rightarrow> 'f \<Rightarrow> u64"
  ir_setPosition :: "u64 \<Rightarrow> 'r \<Rightarrow> 'f \<Rightarrow> bool \<times> 'r \<times> 'f"
  ir_chunk :: "nat \<Rightarrow> 'r \<Rightarrow> 'f \<Rightarrow> bytes option \<times> 'r \<times> 'f"

record ('w, 'r, 'f) writer_ops =
  iw_good :: "'w \<Rightarrow> bool"
  iw_position :: "'w \<Rightarrow> 'f \<Rightarrow> u64"
  iw_write :: "bytes \<Rightarrow> 'w \<Rightarrow> 'f \<Rightarrow> 'w \<times> 'f"
  iw_flush :: "'w \<Rightarrow> 'f \<Rightarrow> bool \<times> 'w \<times> 'f"
  iw_close :: "'w \<Rightarrow> 'f \<Rightarrow> bool \<times> 'w \<times> 'f"
  iw_reader :: "'w \<Rightarrow> 'f \<Rightarrow> 'r \<times> 'f"
  iw_link :: "string \<Rightarrow> 'w \<Rightarrow> 'f \<Rightarrow> bool \<times> 'w \<times> 'f"

section \<open>readstream and writestream\<close>

text \<open>
  Without a reader or writer every method but \<^verbatim>\<open>good\<close> follows a null pointer, and the program asks
  \<^verbatim>\<open>good\<close> first; the \<open>None\<close> branches below only make the definitions total.
\<close>

record 'r readstream =
  rs_reader :: "'r option"
  rs_md :: key_metadata

definition readstream_none :: "'r readstream" where
  "readstream_none = \<lparr>rs_reader = None, rs_md = KeyMetadata\<rparr>"

definition rs_good :: "('r, 'f) reader_ops \<Rightarrow> 'r readstream \<Rightarrow> bool" where
  "rs_good ro rs = (case rs_reader rs of None \<Rightarrow> False | Some r \<Rightarrow> ir_good ro r)"

definition rs_setPosition :: "('r, 'f) reader_ops \<Rightarrow> u64 \<Rightarrow> 'r readstream \<Rightarrow> 'f
    \<Rightarrow> bool \<times> 'r readstream \<times> 'f" where
  "rs_setPosition ro offset rs f =
     (case rs_reader rs of
        None \<Rightarrow> (False, rs, f)
      | Some r \<Rightarrow> (let (ok, r, f) = ir_setPosition ro offset r f in (ok, rs\<lparr>rs_reader := Some r\<rparr>, f)))"

definition rs_stream :: "('r, 'f) reader_ops \<Rightarrow> nat \<Rightarrow> 'r readstream \<Rightarrow> 'f \<Rightarrow> bytes option \<times> 'r readstream \<times> 'f" where
  "rs_stream ro n rs f =
     (case rs_reader rs of
        None \<Rightarrow> (None, rs, f)
      | Some r \<Rightarrow> (let (b, r, f) = ir_chunk ro n r f in (b, rs\<lparr>rs_reader := Some r\<rparr>, f)))"

definition rs_size :: "('r, 'f) reader_ops \<Rightarrow> 'r readstream \<Rightarrow> 'f \<Rightarrow> u64" where
  "rs_size ro rs f = (case rs_reader rs of None \<Rightarrow> 0 | Some r \<Rightarrow> ir_size ro r f)"

definition rs_digest :: "'r readstream \<Rightarrow> u64" where
  "rs_digest rs = km_digest (rs_md rs)"

definition rs_mirrors :: "'r readstream \<Rightarrow> u16" where
  "rs_mirrors rs = km_totalCopies (rs_md rs)"

definition rs_version :: "vc_lib \<Rightarrow> 'r readstream \<Rightarrow> string" where
  "rs_version vl rs = vc_toString vl (km_version (rs_md rs))"

text \<open>\<open>ws_onClose\<close> may change the metadata it is given, or throw.\<close>

record ('w, 'f) writestream =
  ws_writer :: "'w option"
  ws_md :: key_metadata
  ws_onClose :: "(key_metadata \<Rightarrow> 'f \<Rightarrow> (bool \<times> key_metadata \<times> 'f) result) option"

definition writestream_none :: "('w, 'f) writestream" where
  "writestream_none = \<lparr>ws_writer = None, ws_md = KeyMetadata, ws_onClose = None\<rparr>"

definition ws_good :: "('w, 'r, 'f) writer_ops \<Rightarrow> ('w, 'f) writestream \<Rightarrow> bool" where
  "ws_good wo ws = (case ws_writer ws of None \<Rightarrow> False | Some w \<Rightarrow> iw_good wo w)"

definition ws_position :: "('w, 'r, 'f) writer_ops \<Rightarrow> ('w, 'f) writestream \<Rightarrow> 'f \<Rightarrow> u64" where
  "ws_position wo ws f = (case ws_writer ws of None \<Rightarrow> 0 | Some w \<Rightarrow> iw_position wo w f)"

definition ws_write :: "('w, 'r, 'f) writer_ops \<Rightarrow> bytes \<Rightarrow> ('w, 'f) writestream \<Rightarrow> 'f
    \<Rightarrow> ('w, 'f) writestream \<times> 'f" where
  "ws_write wo buff ws f =
     (case ws_writer ws of
        None \<Rightarrow> (ws, f)
      | Some w \<Rightarrow> (let (w, f) = iw_write wo buff w f in (ws\<lparr>ws_writer := Some w\<rparr>, f)))"

text \<open>\<open>dec\<close> prints the size; the hash is of the version and the size together.\<close>

definition ws_digest :: "hash_env \<Rightarrow> string \<Rightarrow> u64 \<Rightarrow> u64" where
  "ws_digest env version len = hash_integer env (Hash env (version @ show_dec (unat len)))"

definition ws_do_commit :: "hash_env \<Rightarrow> vc_lib \<Rightarrow> ('r, 'f) reader_ops \<Rightarrow> ('w, 'r, 'f) writer_ops \<Rightarrow> bool \<Rightarrow> 'w
    \<Rightarrow> ('w, 'f) writestream \<Rightarrow> 'f \<Rightarrow> ('r readstream \<times> ('w, 'f) writestream \<times> 'f) result" where
  "ws_do_commit env vl ro wo close w ws f =
     (let (reader, f) = iw_reader wo w f;
          md = (ws_md ws)\<lparr>km_digest := ws_digest env (vc_toString vl (km_version (ws_md ws))) (ir_size ro reader f)\<rparr>
      in rbind (case ws_onClose ws of
                  None \<Rightarrow> Inr (md, f)
                | Some onClose \<Rightarrow> if close then rbind (onClose md f) (\<lambda>(_, md, f). Inr (md, f)) else Inr (md, f))
           (\<lambda>(md, f). Inr (\<lparr>rs_reader = Some reader, rs_md = md\<rparr>, ws\<lparr>ws_writer := Some w, ws_md := md\<rparr>, f)))"

definition ws_commit :: "hash_env \<Rightarrow> vc_lib \<Rightarrow> ('r, 'f) reader_ops \<Rightarrow> ('w, 'r, 'f) writer_ops \<Rightarrow> bool
    \<Rightarrow> ('w, 'f) writestream \<Rightarrow> 'f \<Rightarrow> ('r readstream \<times> ('w, 'f) writestream \<times> 'f) result" where
  "ws_commit env vl ro wo close ws f =
     (case ws_writer ws of
        None \<Rightarrow> Inr (readstream_none, ws, f)
      | Some w \<Rightarrow>
          (let (flushed, w, f) = iw_flush wo w f
           in if \<not> flushed then Inr (readstream_none, ws\<lparr>ws_writer := Some w\<rparr>, f)
              else if close then
                (let (closed, w, f) = iw_close wo w f
                 in if \<not> closed then Inr (readstream_none, ws\<lparr>ws_writer := Some w\<rparr>, f)
                    else ws_do_commit env vl ro wo True w ws f)
              else ws_do_commit env vl ro wo False w ws f))"

definition ws_copy :: "hash_env \<Rightarrow> vc_lib \<Rightarrow> ('r, 'f) reader_ops \<Rightarrow> ('w, 'r, 'f) writer_ops \<Rightarrow> string
    \<Rightarrow> ('w, 'f) writestream \<Rightarrow> 'f \<Rightarrow> ('r readstream \<times> ('w, 'f) writestream \<times> 'f) result" where
  "ws_copy env vl ro wo source ws f =
     (case ws_writer ws of
        None \<Rightarrow> Inr (readstream_none, ws, f)
      | Some w \<Rightarrow>
          (let (linked, w, f) = iw_link wo source w f
           in if \<not> linked then Inr (readstream_none, ws\<lparr>ws_writer := Some w\<rparr>, f)
              else ws_do_commit env vl ro wo True w ws f))"

section \<open>StringReader\<close>

record string_reader =
  sr_data :: bytes
  sr_chunkSize :: nat

definition sr_chunk :: "string_reader \<Rightarrow> bytes option \<times> string_reader" where
  "sr_chunk sr =
     (let chunk = length (sr_data sr)
      in if chunk = 0 then (None, sr)
         else let chunk = (if sr_chunkSize sr \<noteq> 0 \<and> sr_chunkSize sr < chunk then sr_chunkSize sr else chunk)
              in (Some (take chunk (sr_data sr)), sr\<lparr>sr_data := drop chunk (sr_data sr)\<rparr>))"

definition string_reader_ops :: "(string_reader, 'f) reader_ops" where
  "string_reader_ops =
     \<lparr>ir_good = (\<lambda>_. True), ir_size = (\<lambda>r _. of_nat (length (sr_data r))),
      ir_setPosition = (\<lambda>_ r f. (True, r, f)),
      ir_chunk = (\<lambda>_ r f. let (b, r) = sr_chunk r in (b, r, f))\<rparr>"

section \<open>FileReader and FileWriter\<close>

text \<open>
  The calls of the system; a descriptor of -1 is a failed \<^verbatim>\<open>open\<close>. \<open>sy_read\<close> is None when \<^verbatim>\<open>read\<close>
  returns -1.
\<close>

record 'f sys_ops =
  sy_open_write :: "string \<Rightarrow> 'f \<Rightarrow> int \<times> 'f"
  sy_open_read :: "string \<Rightarrow> 'f \<Rightarrow> int \<times> 'f"
  sy_close :: "int \<Rightarrow> 'f \<Rightarrow> 'f"
  sy_position :: "int \<Rightarrow> 'f \<Rightarrow> u64"
  sy_seek :: "int \<Rightarrow> u64 \<Rightarrow> 'f \<Rightarrow> bool \<times> 'f"
  sy_write :: "int \<Rightarrow> bytes \<Rightarrow> 'f \<Rightarrow> 'f"
  sy_read :: "int \<Rightarrow> nat \<Rightarrow> 'f \<Rightarrow> bytes option \<times> 'f"
  sy_fstat_size :: "int \<Rightarrow> 'f \<Rightarrow> u64 option"
  sy_attr_set :: "int \<Rightarrow> string \<Rightarrow> string \<Rightarrow> 'f \<Rightarrow> bool \<times> 'f"
  sy_attr_get :: "int \<Rightarrow> string \<Rightarrow> 'f \<Rightarrow> string option"
  sy_link :: "string \<Rightarrow> string \<Rightarrow> 'f \<Rightarrow> bool \<times> 'f"
  sy_remove :: "string \<Rightarrow> 'f \<Rightarrow> 'f"

record file_reader =
  fr_fd :: int

definition fr_good :: "file_reader \<Rightarrow> bool" where
  "fr_good r \<longleftrightarrow> fr_fd r \<noteq> -1"

definition fr_close :: "'f sys_ops \<Rightarrow> file_reader \<Rightarrow> 'f \<Rightarrow> file_reader \<times> 'f" where
  "fr_close sy r f = (if fr_good r then (r\<lparr>fr_fd := -1\<rparr>, sy_close sy (fr_fd r) f) else (r, f))"

definition fr_setPosition :: "'f sys_ops \<Rightarrow> u64 \<Rightarrow> file_reader \<Rightarrow> 'f \<Rightarrow> bool \<times> file_reader \<times> 'f" where
  "fr_setPosition sy pos r f = (let (ok, f) = sy_seek sy (fr_fd r) pos f in (ok, r, f))"

definition fr_open :: "'f sys_ops \<Rightarrow> string \<Rightarrow> u64 \<Rightarrow> file_reader \<Rightarrow> 'f \<Rightarrow> bool \<times> file_reader \<times> 'f" where
  "fr_open sy filename offset r f =
     (let (fd, f) = sy_open_read sy filename f; r = r\<lparr>fr_fd := fd\<rparr>;
          (r, f) = (if offset \<noteq> 0
                    then let (ok, r, f) = fr_setPosition sy offset r f
                         in if ok then (r, f) else fr_close sy r f
                    else (r, f))
      in (fr_good r, r, f))"

definition FileReader :: "'f sys_ops \<Rightarrow> string \<Rightarrow> u64 \<Rightarrow> 'f \<Rightarrow> file_reader \<times> 'f" where
  "FileReader sy filename offset f = snd (fr_open sy filename offset \<lparr>fr_fd = -1\<rparr> f)"

definition fr_size :: "'f sys_ops \<Rightarrow> file_reader \<Rightarrow> 'f \<Rightarrow> u64" where
  "fr_size sy r f = (case sy_fstat_size sy (fr_fd r) f of None \<Rightarrow> NOT 0 | Some n \<Rightarrow> n)"

definition fr_attribute :: "'f sys_ops \<Rightarrow> string \<Rightarrow> file_reader \<Rightarrow> 'f \<Rightarrow> string" where
  "fr_attribute sy key r f = (case sy_attr_get sy (fr_fd r) key f of None \<Rightarrow> [] | Some v \<Rightarrow> v)"

text \<open>
  A failed \<^verbatim>\<open>read\<close> returns -1, which as \<^verbatim>\<open>unsigned\<close> is the length handed on with the buffer: what lies
  behind the buffer is \<open>beyond\<close>, for the model to have a value there.
\<close>

definition fr_chunk :: "'f sys_ops \<Rightarrow> bytes \<Rightarrow> nat \<Rightarrow> file_reader \<Rightarrow> 'f \<Rightarrow> bytes option \<times> file_reader \<times> 'f" where
  "fr_chunk sy beyond n r f =
     (let (b, f) = sy_read sy (fr_fd r) n f
      in case b of None \<Rightarrow> (Some beyond, r, f)
         | Some b \<Rightarrow> if b = [] then (None, r, f) else (Some b, r, f))"

definition file_reader_ops :: "'f sys_ops \<Rightarrow> bytes \<Rightarrow> (file_reader, 'f) reader_ops" where
  "file_reader_ops sy beyond =
     \<lparr>ir_good = fr_good, ir_size = fr_size sy, ir_setPosition = fr_setPosition sy,
      ir_chunk = fr_chunk sy beyond\<rparr>"

record file_writer =
  fw_fd :: int
  fw_filename :: string

definition fw_good :: "file_writer \<Rightarrow> bool" where
  "fw_good w \<longleftrightarrow> fw_fd w \<noteq> -1"

definition fw_open :: "'f sys_ops \<Rightarrow> file_writer \<Rightarrow> 'f \<Rightarrow> bool \<times> file_writer \<times> 'f" where
  "fw_open sy w f = (let (fd, f) = sy_open_write sy (fw_filename w) f; w = w\<lparr>fw_fd := fd\<rparr> in (fw_good w, w, f))"

definition FileWriter :: "'f sys_ops \<Rightarrow> string \<Rightarrow> 'f \<Rightarrow> file_writer \<times> 'f" where
  "FileWriter sy filename f = snd (fw_open sy \<lparr>fw_fd = -1, fw_filename = filename\<rparr> f)"

definition fw_position :: "'f sys_ops \<Rightarrow> file_writer \<Rightarrow> 'f \<Rightarrow> u64" where
  "fw_position sy w f = sy_position sy (fw_fd w) f"

definition fw_setAttribute :: "'f sys_ops \<Rightarrow> string \<Rightarrow> string \<Rightarrow> file_writer \<Rightarrow> 'f \<Rightarrow> bool \<times> 'f" where
  "fw_setAttribute sy key val w f = sy_attr_set sy (fw_fd w) key val f"

definition fw_write :: "'f sys_ops \<Rightarrow> bytes \<Rightarrow> file_writer \<Rightarrow> 'f \<Rightarrow> file_writer \<times> 'f" where
  "fw_write sy buffer w f = (w, sy_write sy (fw_fd w) buffer f)"

definition fw_flush :: "file_writer \<Rightarrow> 'f \<Rightarrow> bool \<times> file_writer \<times> 'f" where
  "fw_flush w f = (True, w, f)"

definition fw_close :: "'f sys_ops \<Rightarrow> file_writer \<Rightarrow> 'f \<Rightarrow> bool \<times> file_writer \<times> 'f" where
  "fw_close sy w f = (if fw_good w then (True, w\<lparr>fw_fd := -1\<rparr>, sy_close sy (fw_fd w) f) else (True, w, f))"

definition fw_link :: "'f sys_ops \<Rightarrow> string \<Rightarrow> file_writer \<Rightarrow> 'f \<Rightarrow> bool \<times> file_writer \<times> 'f" where
  "fw_link sy source w f =
     (let (w, f) = (if fw_good w
                    then let (_, w, f) = fw_close sy w f in (w, sy_remove sy (fw_filename w) f)
                    else (w, f));
          (linked, f) = sy_link sy source (fw_filename w) f
      in if \<not> linked then (let (_, w, f) = fw_open sy w f in (False, w, f)) else (True, w, f))"

definition fw_reader :: "'f sys_ops \<Rightarrow> file_writer \<Rightarrow> 'f \<Rightarrow> file_reader \<times> 'f" where
  "fw_reader sy w f = FileReader sy (fw_filename w) 0 f"

definition file_writer_ops :: "'f sys_ops \<Rightarrow> (file_writer, file_reader, 'f) writer_ops" where
  "file_writer_ops sy =
     \<lparr>iw_good = fw_good, iw_position = fw_position sy, iw_write = fw_write sy, iw_flush = fw_flush,
      iw_close = fw_close sy, iw_reader = fw_reader sy, iw_link = fw_link sy\<rparr>"

end
