(* ===== verification/Files.thy ===== *)
theory Files
  imports Streams "HOL-Library.AList" "HOL-Library.Multiset"
begin

text \<open>
  The file system under the stores: what \<^verbatim>\<open>storage/FileStore\<close> and \<^verbatim>\<open>storage/SimpleFileStore\<close> call of
  turbolib's \<^verbatim>\<open>File\<close>, of boost and of \<^verbatim>\<open>dirent.h\<close> is the parameter \<open>file_lib\<close>; \<open>dir_laws\<close> is what
  the proofs rely on, and \<open>mem_lib\<close> is an instance that the witnesses compute with. The section on
  combining digests is shared by the stores.
\<close>

section \<open>The file system\<close>

text \<open>
  \<open>fl_walk\<close> gives the paths that \<^verbatim>\<open>recursive_directory_iterator\<close> visits up to an error, \<open>fl_entries\<close> those of
  \<^verbatim>\<open>directory_iterator\<close>, each with \<^verbatim>\<open>is_directory\<close>; \<open>fl_append\<close> is \<^verbatim>\<open>/=\<close> of paths.
\<close>

record 'f file_lib =
  fl_sys :: "'f sys_ops"
  fl_list :: "string \<Rightarrow> 'f \<Rightarrow> string list"
  fl_create_directories :: "string \<Rightarrow> 'f \<Rightarrow> 'f"
  fl_remove_all :: "string \<Rightarrow> 'f \<Rightarrow> 'f"
  fl_rename :: "string \<Rightarrow> string \<Rightarrow> 'f \<Rightarrow> bool \<times> 'f"
  fl_size :: "string \<Rightarrow> 'f \<Rightarrow> u64"
  fl_remove :: "string \<Rightarrow> 'f \<Rightarrow> bool \<times> 'f"
  fl_exists :: "string \<Rightarrow> 'f \<Rightarrow> bool"
  fl_modified_time :: "string \<Rightarrow> 'f \<Rightarrow> u64"
  fl_set_modified_time :: "string \<Rightarrow> u64 \<Rightarrow> 'f \<Rightarrow> bool \<times> 'f"
  fl_append :: "string \<Rightarrow> string \<Rightarrow> string"
  fl_parent :: "string \<Rightarrow> string"
  fl_filename :: "string \<Rightarrow> string"
  fl_walk :: "string \<Rightarrow> 'f \<Rightarrow> (string \<times> bool) list"
  fl_entries :: "string \<Rightarrow> 'f \<Rightarrow> (string \<times> bool) list"

text \<open>\<^verbatim>\<open>s.find(t) != npos\<close> for a string \<^verbatim>\<open>t\<close>, and \<^verbatim>\<open>s.substr(pos)\<close>, which throws past the end.\<close>

definition contains_str :: "string \<Rightarrow> string \<Rightarrow> bool" where
  "contains_str t s = list_ex (\<lambda>i. has_prefix t (drop i s)) [0..<Suc (length s)]"

definition substr_from :: "nat \<Rightarrow> string \<Rightarrow> string result" where
  "substr_from pos s = (if pos > length s then Inl Out_of_range else Inr (drop pos s))"

definition in_dir :: "string \<Rightarrow> string \<Rightarrow> string" where
  "in_dir d n = d @ ''/'' @ n"

text \<open>
  Names in a directory are distinct. A rename that succeeds moves a name with its size and an
  unlinked name is gone (the program may change its own directories); other files keep their size.
\<close>

definition plain_name :: "string \<Rightarrow> bool" where
  "plain_name n \<longleftrightarrow> CHR ''/'' \<notin> set n \<and> n \<noteq> []"

definition dir_laws :: "'f file_lib \<Rightarrow> bool" where
  "dir_laws fl \<longleftrightarrow>
     (\<forall>d f. distinct (fl_list fl d f) \<and> (\<forall>n \<in> set (fl_list fl d f). plain_name n))
   \<and> (\<forall>d a b f f'. plain_name a \<and> plain_name b \<and> a \<noteq> b \<and> fl_rename fl (in_dir d a) (in_dir d b) f = (True, f')
        \<longrightarrow> set (fl_list fl d f') = insert b (set (fl_list fl d f) - {a})
          \<and> fl_size fl (in_dir d b) f' = fl_size fl (in_dir d a) f
          \<and> (\<forall>n. plain_name n \<and> n \<noteq> a \<and> n \<noteq> b \<longrightarrow> fl_size fl (in_dir d n) f' = fl_size fl (in_dir d n) f))
   \<and> (\<forall>d a f. plain_name a
        \<longrightarrow> set (fl_list fl d (snd (fl_remove fl (in_dir d a) f))) = set (fl_list fl d f) - {a}
          \<and> (\<forall>n. plain_name n \<and> n \<noteq> a
               \<longrightarrow> fl_size fl (in_dir d n) (snd (fl_remove fl (in_dir d a) f)) = fl_size fl (in_dir d n) f))"

lemma dir_laws_list:
  assumes "dir_laws fl"
  shows "distinct (fl_list fl d f)" "n \<in> set (fl_list fl d f) \<Longrightarrow> plain_name n"
  using assms [unfolded dir_laws_def, THEN conjunct1, THEN spec [where x = d], THEN spec [where x = f]]
  by simp_all

lemma dir_laws_rename:
  assumes "dir_laws fl" "plain_name a" "plain_name b" "a \<noteq> b"
    "fl_rename fl (in_dir d a) (in_dir d b) f = (True, f')"
  shows "set (fl_list fl d f') = insert b (set (fl_list fl d f) - {a})"
    "fl_size fl (in_dir d b) f' = fl_size fl (in_dir d a) f"
    "plain_name n \<Longrightarrow> n \<noteq> a \<Longrightarrow> n \<noteq> b \<Longrightarrow> fl_size fl (in_dir d n) f' = fl_size fl (in_dir d n) f"
  using assms(1) [unfolded dir_laws_def, THEN conjunct2, THEN conjunct1, THEN spec [where x = d],
      THEN spec [where x = a], THEN spec [where x = b], THEN spec [where x = f], THEN spec [where x = f']]
    assms(2-5) by simp_all

lemma dir_laws_remove:
  assumes "dir_laws fl" "plain_name a"
  shows "set (fl_list fl d (snd (fl_remove fl (in_dir d a) f))) = set (fl_list fl d f) - {a}"
    "plain_name n \<Longrightarrow> n \<noteq> a
      \<Longrightarrow> fl_size fl (in_dir d n) (snd (fl_remove fl (in_dir d a) f)) = fl_size fl (in_dir d n) f"
  using assms(1) [unfolded dir_laws_def, THEN conjunct2, THEN conjunct2, THEN spec [where x = d],
      THEN spec [where x = a], THEN spec [where x = f]] assms(2) by simp_all

section \<open>Combining digests\<close>

text \<open>The exclusive or of a function over a list of distinct things depends on their set only.\<close>

definition xor_sum :: "('a \<Rightarrow> u64) \<Rightarrow> 'a list \<Rightarrow> u64" where
  "xor_sum g xs = fold (\<lambda>x acc. acc XOR g x) xs 0"

lemma xor_fold_acc: "fold (\<lambda>x acc. acc XOR g x) xs a = a XOR xor_sum g xs"
proof (induction xs arbitrary: a)
  case Nil
  then show ?case by (simp add: xor_sum_def)
next
  case (Cons x xs)
  have "fold (\<lambda>x acc. acc XOR g x) (x # xs) a = (a XOR g x) XOR xor_sum g xs" using Cons by simp
  also have "\<dots> = a XOR (g x XOR xor_sum g xs)" by (simp add: ac_simps)
  also have "g x XOR xor_sum g xs = xor_sum g (x # xs)" using Cons [of "g x"] by (simp add: xor_sum_def)
  finally show ?case .
qed

lemma xor_sum_simps [simp]:
  "xor_sum g [] = 0"
  "xor_sum g (x # xs) = g x XOR xor_sum g xs"
  "xor_sum g (xs @ ys) = xor_sum g xs XOR xor_sum g ys"
proof -
  show "xor_sum g [] = 0" by (simp add: xor_sum_def)
  show "xor_sum g (x # xs) = g x XOR xor_sum g xs"
    using xor_fold_acc [of g xs "g x"] by (simp add: xor_sum_def)
  show "xor_sum g (xs @ ys) = xor_sum g xs XOR xor_sum g ys"
    using xor_fold_acc [of g ys "xor_sum g xs"] by (simp add: xor_sum_def)
qed

lemma xor_sum_set:
  assumes "distinct xs" "distinct ys" "set xs = set ys"
  shows "xor_sum g xs = xor_sum g ys"
proof -
  have m: "mset xs = mset ys" using assms by (simp add: set_eq_iff_mset_eq_distinct [symmetric])
  have "fold (\<lambda>x acc. acc XOR g x) xs = fold (\<lambda>x acc. acc XOR g x) ys"
    by (rule fold_multiset_equiv [OF _ m]) (simp add: fun_eq_iff xor.left_commute xor.commute)
  then show ?thesis by (simp add: xor_sum_def)
qed

lemma xor_move:
  fixes a b c d :: u64
  assumes "a XOR b = c XOR d"
  shows "b = d XOR (c XOR a)"
proof -
  have "b = a XOR (a XOR b)" by (simp add: xor.assoc [symmetric])
  also have "\<dots> = a XOR (c XOR d)" by (simp only: assms)
  also have "\<dots> = d XOR (c XOR a)" by (simp only: ac_simps)
  finally show ?thesis .
qed

lemma xor_sum_cong: "(\<And>x. x \<in> set xs \<Longrightarrow> g x = h x) \<Longrightarrow> xor_sum g xs = xor_sum h xs"
  by (induction xs) auto

lemma xor_sum_split:
  assumes "distinct xs" "distinct ys" "distinct zs" "set xs = set ys \<union> set zs" "set ys \<inter> set zs = {}"
  shows "xor_sum g xs = xor_sum g ys XOR xor_sum g zs"
  using xor_sum_set [of xs "ys @ zs" g] assms by simp

section \<open>A file system in memory\<close>

text \<open>Files by path; open files are positions in a list of path and offset; directories are implied.\<close>

record mem_file =
  mf_data :: bytes
  mf_time :: u64
  mf_attr :: "(string \<times> string) list"

record mem_fs =
  ms_files :: "(string \<times> mem_file) list"
  ms_open :: "(string \<times> nat) list"
  ms_now :: u64

definition ms_file :: "string \<Rightarrow> mem_fs \<Rightarrow> mem_file" where
  "ms_file p s = (case map_of (ms_files s) p of None \<Rightarrow> \<lparr>mf_data = [], mf_time = 0, mf_attr = []\<rparr> | Some m \<Rightarrow> m)"

definition ms_has :: "string \<Rightarrow> mem_fs \<Rightarrow> bool" where
  "ms_has p s = (map_of (ms_files s) p \<noteq> None)"

definition ms_put :: "string \<Rightarrow> mem_file \<Rightarrow> mem_fs \<Rightarrow> mem_fs" where
  "ms_put p m s = s\<lparr>ms_files := AList.update p m (ms_files s)\<rparr>"

definition ms_del :: "string \<Rightarrow> mem_fs \<Rightarrow> mem_fs" where
  "ms_del p s = s\<lparr>ms_files := AList.delete p (ms_files s)\<rparr>"

definition ms_fd :: "string \<Rightarrow> mem_fs \<Rightarrow> int \<times> mem_fs" where
  "ms_fd p s = (int (length (ms_open s)), s\<lparr>ms_open := ms_open s @ [(p, 0)]\<rparr>)"

definition ms_at :: "int \<Rightarrow> mem_fs \<Rightarrow> string \<times> nat" where
  "ms_at fd s = (if 0 \<le> fd \<and> nat fd < length (ms_open s) then ms_open s ! nat fd else ([], 0))"

definition ms_move :: "int \<Rightarrow> nat \<Rightarrow> mem_fs \<Rightarrow> mem_fs" where
  "ms_move fd pos s = s\<lparr>ms_open := (ms_open s)[nat fd := (fst (ms_at fd s), pos)]\<rparr>"

definition mem_sys :: "mem_fs sys_ops" where
  "mem_sys =
     \<lparr>sy_open_write = (\<lambda>p s. ms_fd p (if ms_has p s then s
                                       else ms_put p \<lparr>mf_data = [], mf_time = ms_now s, mf_attr = []\<rparr> s)),
      sy_open_read = (\<lambda>p s. if ms_has p s then ms_fd p s else (-1, s)),
      sy_close = (\<lambda>_ s. s),
      sy_position = (\<lambda>fd s. of_nat (snd (ms_at fd s))),
      sy_seek = (\<lambda>fd pos s. if fd = -1 then (False, s) else (True, ms_move fd (unat pos) s)),
      sy_write = (\<lambda>fd b s. if fd = -1 then s
         else let (p, pos) = ms_at fd s; m = ms_file p s; data = mf_data m
              in ms_move fd (pos + length b)
                   (ms_put p (m\<lparr>mf_data := take pos data @ b @ drop (pos + length b) data, mf_time := ms_now s\<rparr>) s)),
      sy_read = (\<lambda>fd n s. if fd = -1 then (None, s)
         else let (p, pos) = ms_at fd s; b = take n (drop pos (mf_data (ms_file p s)))
              in (Some b, ms_move fd (pos + length b) s)),
      sy_fstat_size = (\<lambda>fd s. if fd = -1 then None else Some (of_nat (length (mf_data (ms_file (fst (ms_at fd s)) s))))),
      sy_attr_set = (\<lambda>fd k v s. if fd = -1 then (False, s)
         else let p = fst (ms_at fd s); m = ms_file p s in (True, ms_put p (m\<lparr>mf_attr := AList.update k v (mf_attr m)\<rparr>) s)),
      sy_attr_get = (\<lambda>fd k s. if fd = -1 then None else map_of (mf_attr (ms_file (fst (ms_at fd s)) s)) k),
      sy_link = (\<lambda>a b s. if ms_has a s \<and> \<not> ms_has b s then (True, ms_put b (ms_file a s) s) else (False, s)),
      sy_remove = (\<lambda>p s. ms_del p s)\<rparr>"

definition mem_parent :: "string \<Rightarrow> string" where
  "mem_parent p = rev (drop 1 (dropWhile (\<lambda>c. c \<noteq> CHR ''/'') (rev p)))"

definition mem_filename :: "string \<Rightarrow> string" where
  "mem_filename p = rev (takeWhile (\<lambda>c. c \<noteq> CHR ''/'') (rev p))"

definition mem_below :: "string \<Rightarrow> mem_fs \<Rightarrow> string list" where
  "mem_below d s = filter (\<lambda>p. has_prefix (d @ ''/'') p) (remdups (map fst (ms_files s)))"

definition mem_list :: "string \<Rightarrow> mem_fs \<Rightarrow> string list" where
  "mem_list d s = filter plain_name (map (drop (Suc (length d))) (mem_below d s))"

definition mem_dirs :: "string \<Rightarrow> string \<Rightarrow> string list" where
  "mem_dirs d p = map (\<lambda>i. take i p) (filter (\<lambda>i. p ! i = CHR ''/'') [Suc (length d)..<length p])"

definition mem_lib :: "mem_fs file_lib" where
  "mem_lib =
     \<lparr>fl_sys = mem_sys, fl_list = mem_list, fl_create_directories = (\<lambda>_ s. s),
      fl_remove_all = (\<lambda>d s. fold ms_del (mem_below d s) s),
      fl_rename = (\<lambda>a b s. if ms_has a s then (True, ms_put b (ms_file a s) (ms_del a s)) else (False, s)),
      fl_size = (\<lambda>p s. of_nat (length (mf_data (ms_file p s)))),
      fl_remove = (\<lambda>p s. if ms_has p s then (True, ms_del p s) else (False, s)),
      fl_exists = ms_has, fl_modified_time = (\<lambda>p s. mf_time (ms_file p s)),
      fl_set_modified_time = (\<lambda>p t s. if ms_has p s then (True, ms_put p ((ms_file p s)\<lparr>mf_time := t\<rparr>) s) else (False, s)),
      fl_append = (\<lambda>a b. if b = [] then a else a @ ''/'' @ b),
      fl_parent = mem_parent, fl_filename = mem_filename,
      fl_walk = (\<lambda>d s. remdups (concat (map (\<lambda>p. map (\<lambda>x. (x, True)) (mem_dirs d p) @ [(p, False)]) (mem_below d s)))),
      fl_entries = (\<lambda>d s. map (\<lambda>n. (in_dir d n, False)) (mem_list d s))\<rparr>"

lemma ms_has_iff: "ms_has p s \<longleftrightarrow> p \<in> fst ` set (ms_files s)"
  by (simp add: ms_has_def map_of_eq_None_iff)

lemma set_mem_list: "set (mem_list d s) = {n. plain_name n \<and> ms_has (in_dir d n) s}"
proof (rule set_eqI)
  fix n
  have m: "n \<in> set (mem_list d s) \<longleftrightarrow> plain_name n
      \<and> (\<exists>p. p \<in> fst ` set (ms_files s) \<and> has_prefix (d @ ''/'') p \<and> n = drop (Suc (length d)) p)"
    by (auto simp: mem_list_def mem_below_def)
  have e: "has_prefix (d @ ''/'') p \<and> n = drop (Suc (length d)) p \<longleftrightarrow> p = in_dir d n" for p
  proof
    assume l: "has_prefix (d @ ''/'') p \<and> n = drop (Suc (length d)) p"
    then have "take (Suc (length d)) p = d @ ''/''" by (simp add: has_prefix_def)
    with l show "p = in_dir d n"
      using append_take_drop_id [of "Suc (length d)" p] by (simp add: in_dir_def)
  qed (simp add: has_prefix_def in_dir_def)
  show "n \<in> set (mem_list d s) \<longleftrightarrow> n \<in> {n. plain_name n \<and> ms_has (in_dir d n) s}"
    unfolding m e ms_has_iff by (auto simp: image_iff intro: sym)
qed

lemma distinct_mem_list: "distinct (mem_list d s)"
proof -
  have "inj_on (drop (Suc (length d))) (set (mem_below d s))"
  proof (rule inj_onI)
    fix x y
    assume "x \<in> set (mem_below d s)" "y \<in> set (mem_below d s)"
      and e: "drop (Suc (length d)) x = drop (Suc (length d)) y"
    then have "take (Suc (length d)) x = take (Suc (length d)) y"
      by (simp add: mem_below_def has_prefix_def)
    with e show "x = y" by (metis append_take_drop_id)
  qed
  then show ?thesis by (simp add: mem_list_def mem_below_def distinct_map)
qed

lemma in_dir_inj [simp]: "in_dir d a = in_dir d b \<longleftrightarrow> a = b"
  by (simp add: in_dir_def)

lemma ms_has_put [simp]: "ms_has p (ms_put q m s) \<longleftrightarrow> p = q \<or> ms_has p s"
  by (auto simp: ms_has_def ms_put_def update_conv)

lemma ms_has_del [simp]: "ms_has p (ms_del q s) \<longleftrightarrow> p \<noteq> q \<and> ms_has p s"
  by (auto simp: ms_has_def ms_del_def delete_conv')

lemma ms_file_put [simp]: "ms_file p (ms_put q m s) = (if p = q then m else ms_file p s)"
  by (simp add: ms_file_def ms_put_def update_conv')

lemma ms_file_del [simp]: "p \<noteq> q \<Longrightarrow> ms_file p (ms_del q s) = ms_file p s"
  by (simp add: ms_file_def ms_del_def delete_conv')

lemma ms_open_put [simp]: "ms_open (ms_put p m s) = ms_open s"
  by (simp add: ms_put_def)

lemma ms_at_put [simp]: "ms_at fd (ms_put p m s) = ms_at fd s"
  by (simp add: ms_at_def)

lemma ms_move_simps [simp]:
  "ms_has p (ms_move fd pos s) = ms_has p s" "ms_file p (ms_move fd pos s) = ms_file p s"
  by (simp_all add: ms_move_def ms_has_def ms_file_def)

lemma ms_at_move:
  "0 \<le> fd \<Longrightarrow> nat fd < length (ms_open s) \<Longrightarrow> ms_at fd (ms_move fd pos s) = (fst (ms_at fd s), pos)"
  "length (ms_open (ms_move fd pos s)) = length (ms_open s)"
  by (simp_all add: ms_at_def ms_move_def)

lemma ms_fd_simps [simp]:
  "ms_has p (snd (ms_fd q s)) = ms_has p s" "ms_file p (snd (ms_fd q s)) = ms_file p s"
  "fst (ms_fd q s) = int (length (ms_open s))" "length (ms_open (snd (ms_fd q s))) = Suc (length (ms_open s))"
  by (simp_all add: ms_fd_def ms_has_def ms_file_def)

lemma ms_at_fd: "nat fd < length (ms_open s) \<Longrightarrow> ms_at fd (snd (ms_fd q s)) = ms_at fd s"
  by (auto simp: ms_at_def ms_fd_def nth_append)

lemma dir_laws_mem_lib: "dir_laws mem_lib"
  unfolding dir_laws_def
  by (auto simp: mem_lib_def set_mem_list distinct_mem_list split: if_splits)

end
