(* ===== verification/FileStore.thy ===== *)
theory FileStore
  imports Files
begin

text \<open>
  \<^verbatim>\<open>storage/FileStore\<close>: every key is a directory, every version of it a file named by the text of the
  version; a version that is being received ends in a tilde. When a version is complete it replaces
  the versions it succeeds, and the digest handed on to the trees covers what was replaced.
\<close>

section \<open>The store\<close>

text \<open>
  \<open>se_order\<close> is the order in which \<^verbatim>\<open>unordered_set\<close> is traversed, \<open>se_join\<close> turbolib's \<^verbatim>\<open>str::join\<close> of a
  set with its default separator.
\<close>

record 'f store_env =
  se_files :: "'f file_lib"
  se_vl :: vc_lib
  se_hash :: hash_env
  se_wall :: wall_clock
  se_me :: string
  se_order :: "string list \<Rightarrow> string list"
  se_join :: "string list \<Rightarrow> string"
  se_home :: string

definition EXPIRY_TIMEOUT_SECONDS :: u32 where
  "EXPIRY_TIMEOUT_SECONDS = 60 * 60 * 24 * 7"

text \<open>A string is followed by a null byte, which \<^verbatim>\<open>str[1]\<close> reads in a string of length one.\<close>

definition mdFromString :: "string \<Rightarrow> key_metadata \<Rightarrow> bool \<times> key_metadata" where
  "mdFromString str md =
     (case str of
        [] \<Rightarrow> (False, md)
      | c # r \<Rightarrow> (True, md\<lparr>km_totalCopies := ucast (of_byte c),
                          km_supercede := (case r of [] \<Rightarrow> False | d # _ \<Rightarrow> d = CHR ''1'')\<rparr>))"

definition mdToString :: "key_metadata \<Rightarrow> string" where
  "mdToString md = byte_of (ucast (km_totalCopies md)) # (if km_supercede md then ''1'' else ''0'')"

definition dirpath :: "'f store_env \<Rightarrow> string \<Rightarrow> string" where
  "dirpath e name = se_home e @ ''/'' @ name"

definition filepath :: "'f store_env \<Rightarrow> string \<Rightarrow> string \<Rightarrow> string" where
  "filepath e name version = dirpath e name @ ''/'' @ version"

definition FileStore_new :: "'f store_env \<Rightarrow> 'f \<Rightarrow> 'f" where
  "FileStore_new e f = fl_create_directories (se_files e) (se_home e) f"

section \<open>Listing a directory\<close>

text \<open>
  The helper \<^verbatim>\<open>list\<close>: \<open>opendir\<close> gives a directory stream, \<open>readdir\<close> its next name and the stream behind it. The loop
  does not end while there are more names.
\<close>

partial_function (option) list_entries :: "('d \<Rightarrow> (string \<times> 'd) option) \<Rightarrow> 'd \<Rightarrow> string list \<Rightarrow> string list option" where
  "list_entries readdir dirp entries =
     (case readdir dirp of None \<Rightarrow> Some entries | Some (name, dirp) \<Rightarrow> list_entries readdir dirp (entries @ [name]))"

definition list_dir :: "(string \<Rightarrow> 'f \<Rightarrow> 'd option) \<Rightarrow> ('d \<Rightarrow> (string \<times> 'd) option) \<Rightarrow> string \<Rightarrow> 'f \<Rightarrow> string list option" where
  "list_dir opendir readdir dir f = (case opendir dir f of None \<Rightarrow> Some [] | Some dirp \<Rightarrow> list_entries readdir dirp [])"

text \<open>\<open>names_of\<close>: the names a directory stream gives, when it ends; then the helper returns them all, in their order.\<close>

inductive names_of :: "('d \<Rightarrow> (string \<times> 'd) option) \<Rightarrow> 'd \<Rightarrow> string list \<Rightarrow> bool" for readdir where
  at_end: "readdir dirp = None \<Longrightarrow> names_of readdir dirp []"
| one_more: "readdir dirp = Some (name, dirp') \<Longrightarrow> names_of readdir dirp' names \<Longrightarrow> names_of readdir dirp (name # names)"

lemma list_entries_all: "names_of readdir dirp names \<Longrightarrow> list_entries readdir dirp entries = Some (entries @ names)"
  by (induction arbitrary: entries rule: names_of.induct) (simp_all add: list_entries.simps)

lemma list_dir_all: "opendir dir f = Some dirp \<Longrightarrow> names_of readdir dirp names \<Longrightarrow> list_dir opendir readdir dir f = Some names"
  by (simp add: list_dir_def list_entries_all)

text \<open>A file library whose listing is the helper's.\<close>

definition lists_with :: "'f file_lib \<Rightarrow> (string \<Rightarrow> 'f \<Rightarrow> 'd option) \<Rightarrow> ('d \<Rightarrow> (string \<times> 'd) option) \<Rightarrow> bool" where
  "lists_with fl opendir readdir \<longleftrightarrow> (\<forall>dir f. list_dir opendir readdir dir f = Some (fl_list fl dir f))"

section \<open>Versions\<close>

fun keep_versions :: "bool \<Rightarrow> string list \<Rightarrow> string list" where
  "keep_versions inprogress [] = []"
| "keep_versions inprogress (ver # vs) =
     (if find_char (CHR '','') ver = None then keep_versions inprogress vs
      else if last ver = CHR ''~'' then
        (if \<not> inprogress then keep_versions inprogress vs
         else butlast ver # keep_versions inprogress vs)
      else ver # keep_versions inprogress vs)"

definition fs_versions :: "'f store_env \<Rightarrow> string \<Rightarrow> bool \<Rightarrow> 'f \<Rightarrow> string list" where
  "fs_versions e name inprogress f = keep_versions inprogress (fl_list (se_files e) (dirpath e name) f)"

lemma versions_read:
  assumes "lists_with (se_files e) opendir readdir" "opendir (dirpath e name) f = Some dirp" "names_of readdir dirp names"
  shows "fs_versions e name inprogress f = keep_versions inprogress names"
proof -
  have "list_dir opendir readdir (dirpath e name) f = Some names" by (rule list_dir_all) (rule assms(2,3))+
  then show ?thesis using assms(1) by (simp add: fs_versions_def lists_with_def)
qed

lemma versions_of_missing_directory:
  assumes "lists_with (se_files e) opendir readdir" "opendir (dirpath e name) f = None"
  shows "fs_versions e name inprogress f = []"
proof -
  have "list_dir opendir readdir (dirpath e name) f = Some []" using assms(2) by (simp add: list_dir_def)
  then show ?thesis using assms(1) by (simp add: fs_versions_def lists_with_def)
qed

definition fs_exists :: "'f store_env \<Rightarrow> string \<Rightarrow> string \<Rightarrow> 'f \<Rightarrow> bool" where
  "fs_exists e name version f = (version \<in> set (fs_versions e name True f))"

fun merge_versions :: "vc_lib \<Rightarrow> vclock \<Rightarrow> string list \<Rightarrow> vclock result" where
  "merge_versions vl version [] = Inr version"
| "merge_versions vl version (s # vs) =
     rbind (vc_fromString vl s []) (\<lambda>(_, temp). merge_versions vl (vl_merge vl version temp) vs)"

definition fs_mergedVersion :: "'f store_env \<Rightarrow> string \<Rightarrow> bool \<Rightarrow> 'f \<Rightarrow> vclock result" where
  "fs_mergedVersion e name inprogress f = merge_versions (se_vl e) [] (fs_versions e name inprogress f)"

definition fs_isExpired :: "'f store_env \<Rightarrow> string \<Rightarrow> bool result" where
  "fs_isExpired e version =
     rbind (vc_fromString (se_vl e) version [])
       (\<lambda>(ok, vc). Inr (if \<not> ok then False else isExpired (se_wall e) EXPIRY_TIMEOUT_SECONDS vc))"

definition fs_remove :: "'f store_env \<Rightarrow> string \<Rightarrow> 'f \<Rightarrow> bool \<times> 'f" where
  "fs_remove e name f =
     (let f = fl_remove_all (se_files e) (dirpath e name) f in (fs_versions e name True f = [], f))"

section \<open>Completion of a write\<close>

text \<open>The set of versions to delete, in the order of insertion.\<close>

fun purge_marks :: "vc_lib \<Rightarrow> vclock \<Rightarrow> string list \<Rightarrow> string list \<Rightarrow> string list result" where
  "purge_marks vl master [] toDelete = Inr toDelete"
| "purge_marks vl master (v # vs) toDelete =
     rbind (vc_fromString vl v []) (\<lambda>(_, version).
       purge_marks vl master vs
         (case vl_compare vl version master of
            LESS_THAN \<Rightarrow> List.insert (vc_toString vl version) toDelete
          | GREATER_THAN \<Rightarrow> List.insert (vc_toString vl master) toDelete
          | _ \<Rightarrow> toDelete))"

definition purge_step :: "'f store_env \<Rightarrow> string \<Rightarrow> string \<Rightarrow> key_metadata \<times> 'f \<Rightarrow> key_metadata \<times> 'f" where
  "purge_step e name vstr st =
     (let (master, f) = st; path = filepath e name vstr;
          master = master\<lparr>km_digest := km_digest master XOR ws_digest (se_hash e) vstr (fl_size (se_files e) path f)\<rparr>
      in (master, snd (fl_remove (se_files e) path f)))"

definition purgeObsolete :: "'f store_env \<Rightarrow> string \<Rightarrow> key_metadata \<Rightarrow> 'f
    \<Rightarrow> (bool \<times> key_metadata \<times> 'f) result" where
  "purgeObsolete e name master f =
     rbind (purge_marks (se_vl e) (km_version master) (fs_versions e name False f) []) (\<lambda>toDelete.
       let (master, f) = fold (purge_step e name) (se_order e toDelete) (master, f)
       in Inr (True, master, f))"

definition fs_onWriteComplete :: "'f store_env \<Rightarrow> string \<Rightarrow> key_metadata \<Rightarrow> 'f
    \<Rightarrow> (bool \<times> key_metadata \<times> 'f) result" where
  "fs_onWriteComplete e name md f =
     (let filename = filepath e name (vc_toString (se_vl e) (km_version md)); tempname = filename @ ''~'';
          (renamed, f) = fl_rename (se_files e) tempname filename f
      in if \<not> renamed then Inr (False, md, f) else purgeObsolete e name md f)"

section \<open>Writing and reading\<close>

text \<open>\<open>offset\<close> is not used by the code.\<close>

definition fs_open_version :: "'f store_env \<Rightarrow> string \<Rightarrow> string \<Rightarrow> 'f \<Rightarrow> vclock option result" where
  "fs_open_version e name version f =
     rbind (vc_fromString (se_vl e) version []) (\<lambda>(_, v).
       if v = [] then rbind (fs_mergedVersion e name True f)
                        (\<lambda>m. Inr (Some (vc_increment (se_vl e) (se_wall e) (se_me e) m)))
       else if fs_exists e name version f \<or> isExpired (se_wall e) EXPIRY_TIMEOUT_SECONDS v then Inr None
       else Inr (Some v))"

definition fs_write :: "'f store_env \<Rightarrow> string \<Rightarrow> string \<Rightarrow> u16 \<Rightarrow> 'f
    \<Rightarrow> ((file_writer, 'f) writestream \<times> 'f) result" where
  "fs_write e name version copies f =
     rbind (fs_open_version e name version f) (\<lambda>opened. case opened of
        None \<Rightarrow> Inr (writestream_none, f)
      | Some v \<Rightarrow>
          (let md = KeyMetadata\<lparr>km_version := v, km_totalCopies := copies\<rparr>;
               tempname = filepath e name (vc_toString (se_vl e) v) @ ''~'';
               f = fl_create_directories (se_files e) (dirpath e name) f;
               (writer, f) = FileWriter (fl_sys (se_files e)) tempname f;
               f = (if fw_good writer
                    then snd (fw_setAttribute (fl_sys (se_files e)) ''user.md'' (mdToString md) writer f) else f)
           in Inr (\<lparr>ws_writer = Some writer, ws_md = md, ws_onClose = Some (fs_onWriteComplete e name)\<rparr>, f)))"

definition fs_read :: "'f store_env \<Rightarrow> string \<Rightarrow> string \<Rightarrow> bool \<Rightarrow> 'f
    \<Rightarrow> (file_reader readstream \<times> 'f) result" where
  "fs_read e name version inprogress f =
     rbind (vc_fromString (se_vl e) version []) (\<lambda>(_, v).
     rbind (if v = [] then fs_mergedVersion e name inprogress f else Inr v) (\<lambda>v.
       let sy = fl_sys (se_files e); md = KeyMetadata\<lparr>km_version := v\<rparr>;
           filename = filepath e name (vc_toString (se_vl e) v);
           reader = \<lparr>fr_fd = -1\<rparr>;
           (reader, f) = (if inprogress then snd (fr_open sy (filename @ ''~'') 0 reader f) else (reader, f));
           (reader, f) = (if \<not> fr_good reader then snd (fr_open sy filename 0 reader f) else (reader, f));
           md = (if fr_good reader then snd (mdFromString (fr_attribute sy ''user.md'' reader f) md) else md)
       in Inr (\<lparr>rs_reader = Some reader, rs_md = md\<rparr>, f)))"

fun read_versions :: "'f store_env \<Rightarrow> string \<Rightarrow> string list \<Rightarrow> file_reader readstream list \<Rightarrow> 'f
    \<Rightarrow> (file_reader readstream list \<times> 'f) result" where
  "read_versions e name [] acc f = Inr (acc, f)"
| "read_versions e name (v # vs) acc f =
     rbind (fs_read e name v False f) (\<lambda>(r, f). read_versions e name vs (acc @ [r]) f)"

definition fs_readAll :: "'f store_env \<Rightarrow> string \<Rightarrow> 'f \<Rightarrow> (file_reader readstream list \<times> 'f) result" where
  "fs_readAll e name f = read_versions e name (fs_versions e name False f) [] f"

section \<open>Enumeration\<close>

text \<open>
  The entries of one directory: digest and set of the report, and the metadata of the first file. The
  file that is opened for it is closed again.
\<close>

fun scan_entries :: "'f store_env \<Rightarrow> (string \<times> bool) list \<Rightarrow> key_metadata \<Rightarrow> string list \<Rightarrow> 'f
    \<Rightarrow> key_metadata \<times> string list \<times> 'f" where
  "scan_entries e [] md report f = (md, report, f)"
| "scan_entries e ((vpath, isdir) # es) md report f =
     (if isdir then scan_entries e es md report f
      else
        (let fl = se_files e; vstr = fl_filename fl vpath; sz = fl_size fl vpath f;
             (md, f) = (if report = [] then
                          (let (reader, f) = FileReader (fl_sys fl) vpath 0 f;
                               md = (if fr_good reader
                                     then snd (mdFromString (fr_attribute (fl_sys fl) ''user.md'' reader f) md) else md)
                           in (md, snd (fr_close (fl_sys fl) reader f)))
                        else (md, f));
             md = md\<lparr>km_digest := km_digest md XOR ws_digest (se_hash e) vstr sz\<rparr>
         in scan_entries e es md (List.insert (show_dec (unat sz) @ '':'' @ vstr) report) f))"

fun enum_dirs :: "'f store_env \<Rightarrow> (string \<Rightarrow> key_metadata \<Rightarrow> string \<Rightarrow> 's \<Rightarrow> 's) \<Rightarrow> u64 \<Rightarrow> (string \<times> bool) list
    \<Rightarrow> u64 \<Rightarrow> 'f \<Rightarrow> 's \<Rightarrow> ('f \<times> 's) result" where
  "enum_dirs e callback limit [] i f s = Inr (f, s)"
| "enum_dirs e callback limit ((pa, isdir) # ps) i f s =
     (if \<not> isdir then enum_dirs e callback limit ps i f s
      else
        (let (md, report, f) = scan_entries e (fl_entries (se_files e) pa f) KeyMetadata [] f
         in if report = [] then enum_dirs e callback limit ps i f s
            else rbind (if contains_str (se_home e) pa then substr_from (length (se_home e) + 1) pa
                        else Inr (fl_filename (se_files e) pa))
              (\<lambda>filename.
                 let s = callback filename md (se_join e (sort report)) s
                 in if i + 1 \<ge> limit then Inr (f, s) else enum_dirs e callback limit ps (i + 1) f s)))"

definition fs_enumerate :: "'f store_env \<Rightarrow> (string \<Rightarrow> key_metadata \<Rightarrow> string \<Rightarrow> 's \<Rightarrow> 's) \<Rightarrow> u64 \<Rightarrow> string
    \<Rightarrow> 'f \<Rightarrow> 's \<Rightarrow> ('f \<times> 's) result" where
  "fs_enumerate e callback limit prefix f s =
     enum_dirs e callback limit (fl_walk (se_files e) (fl_append (se_files e) (se_home e) prefix) f) 0 f s"

section \<open>What a directory of versions means\<close>

text \<open>
  The names of complete versions stand for their clocks; \<open>newest\<close> is the abstract contract of the
  store: of all versions, those that no other version succeeds.
\<close>

definition version_of :: "vc_lib \<Rightarrow> string \<Rightarrow> vclock" where
  "version_of vl s = (case vc_fromString vl s [] of Inl _ \<Rightarrow> [] | Inr (_, v) \<Rightarrow> v)"

definition canonical :: "vc_lib \<Rightarrow> string \<Rightarrow> bool" where
  "canonical vl s \<longleftrightarrow> vc_fromString vl s [] = Inr (True, version_of vl s) \<and> vc_toString vl (version_of vl s) = s"

definition version_name :: "string \<Rightarrow> bool" where
  "version_name s \<longleftrightarrow> plain_name s \<and> CHR '','' \<in> set s \<and> last s \<noteq> CHR ''~''"

definition older :: "vc_lib \<Rightarrow> string \<Rightarrow> string \<Rightarrow> bool" where
  "older vl s t \<longleftrightarrow> vl_compare vl (version_of vl s) (version_of vl t) = LESS_THAN"

definition newest :: "vc_lib \<Rightarrow> string set \<Rightarrow> string set" where
  "newest vl S = {s \<in> S. \<not> (\<exists>t \<in> S. older vl s t)}"

text \<open>\<^verbatim>\<open>compare\<close> read from the other side.\<close>

definition compare_dual :: "vc_lib \<Rightarrow> bool" where
  "compare_dual vl \<longleftrightarrow> (\<forall>a b. vl_compare vl a b = GREATER_THAN \<longleftrightarrow> vl_compare vl b a = LESS_THAN)"

definition traverses :: "(string list \<Rightarrow> string list) \<Rightarrow> bool" where
  "traverses ord \<longleftrightarrow> (\<forall>xs. distinct xs \<longrightarrow> distinct (ord xs) \<and> set (ord xs) = set xs)"

text \<open>The digest the trees hold for a key: of all its complete versions together.\<close>

definition version_digest :: "'f store_env \<Rightarrow> string \<Rightarrow> 'f \<Rightarrow> string \<Rightarrow> u64" where
  "version_digest e name f s = ws_digest (se_hash e) s (fl_size (se_files e) (filepath e name s) f)"

definition key_digest :: "'f store_env \<Rightarrow> string \<Rightarrow> 'f \<Rightarrow> u64" where
  "key_digest e name f = xor_sum (version_digest e name f) (fs_versions e name False f)"

lemma keep_complete: "keep_versions False vs = filter (\<lambda>v. CHR '','' \<in> set v \<and> last v \<noteq> CHR ''~'') vs"
  by (induction vs) (auto simp: find_char_None_iff)

lemma set_keep_all:
  "s \<in> set (keep_versions True vs) \<longleftrightarrow>
     CHR '','' \<in> set s \<and> (s @ ''~'' \<in> set vs \<or> s \<in> set vs \<and> last s \<noteq> CHR ''~'')"
proof (induction vs)
  case (Cons v vs)
  have "s = butlast v \<and> last v = CHR ''~'' \<and> v \<noteq> [] \<longleftrightarrow> v = s @ ''~''"
    by (metis append_butlast_last_id butlast_snoc last_snoc snoc_eq_iff_butlast)
  then show ?case using Cons by (cases "v = []") (auto simp: find_char_None_iff dest: in_set_butlastD)
qed simp

lemma filepath_in_dir: "filepath e name s = in_dir (dirpath e name) s"
  by (simp add: filepath_def in_dir_def)

lemma fs_versions_distinct: "dir_laws (se_files e) \<Longrightarrow> distinct (fs_versions e name False f)"
  by (simp add: fs_versions_def keep_complete dir_laws_list)

lemma fs_versions_names:
  "dir_laws (se_files e) \<Longrightarrow> set (fs_versions e name False f)
     = {s. version_name s \<and> s \<in> set (fl_list (se_files e) (dirpath e name) f)}"
  by (auto simp: fs_versions_def keep_complete version_name_def dest: dir_laws_list)

section \<open>Deleting what is obsolete\<close>

definition obsolete :: "vc_lib \<Rightarrow> string \<Rightarrow> string set \<Rightarrow> string set" where
  "obsolete vl m S = {s \<in> S. older vl s m} \<union> (if \<exists>s \<in> S. older vl m s then {m} else {})"

lemma purge_marks_canonical:
  assumes "compare_dual vl" "canonical vl m" "\<forall>s \<in> set vs. canonical vl s" "distinct acc"
  shows "\<exists>ts. purge_marks vl (version_of vl m) vs acc = Inr ts \<and> distinct ts
           \<and> set ts = set acc \<union> obsolete vl m (set vs)"
  using assms(3,4)
proof (induction vs arbitrary: acc)
  case Nil
  then show ?case by (simp add: obsolete_def)
next
  case (Cons v vs)
  define acc' where "acc' = (if older vl v m then List.insert v acc
                             else if older vl m v then List.insert m acc else acc)"
  have v: "vc_fromString vl v [] = Inr (True, version_of vl v)" "vc_toString vl (version_of vl v) = v"
    and m: "vc_toString vl (version_of vl m) = m"
    using Cons.prems assms(2) by (simp_all add: canonical_def)
  have g: "vl_compare vl (version_of vl v) (version_of vl m) = GREATER_THAN \<longleftrightarrow> older vl m v"
    using assms(1) by (simp add: compare_dual_def older_def)
  have "purge_marks vl (version_of vl m) (v # vs) acc = purge_marks vl (version_of vl m) vs acc'"
    using g by (cases "vl_compare vl (version_of vl v) (version_of vl m)")
      (simp_all add: v m acc'_def older_def)
  moreover have "\<not> (older vl v m \<and> older vl m v)" using g by (auto simp: older_def)
  then have "set acc \<union> obsolete vl m (set (v # vs)) = set acc' \<union> obsolete vl m (set vs)"
    by (auto simp: obsolete_def acc'_def)
  moreover have "distinct acc'" using Cons.prems(2) by (simp add: acc'_def)
  ultimately show ?case using Cons.IH [of acc'] Cons.prems by simp
qed

lemma purge_steps:
  assumes "dir_laws (se_files e)" "distinct ts" "\<forall>t \<in> set ts. plain_name t"
  shows "\<exists>f'. fold (purge_step e name) ts (md, f)
             = (md\<lparr>km_digest := km_digest md XOR xor_sum (version_digest e name f) ts\<rparr>, f')
         \<and> set (fl_list (se_files e) (dirpath e name) f') = set (fl_list (se_files e) (dirpath e name) f) - set ts
         \<and> (\<forall>s. plain_name s \<longrightarrow> s \<notin> set ts \<longrightarrow> version_digest e name f' s = version_digest e name f s)"
  using assms(2,3)
proof (induction ts arbitrary: md f)
  case Nil
  then show ?case by simp
next
  case (Cons t ts)
  let ?f = "snd (fl_remove (se_files e) (filepath e name t) f)"
  let ?md = "md\<lparr>km_digest := km_digest md XOR version_digest e name f t\<rparr>"
  have t: "plain_name t" using Cons.prems by simp
  note del = dir_laws_remove [OF assms(1) t, where d = "dirpath e name" and f = f, folded filepath_in_dir]
  have d: "version_digest e name ?f s = version_digest e name f s" if "plain_name s" "s \<noteq> t" for s
    using del(2) [OF that] by (simp add: version_digest_def)
  have step: "purge_step e name t (md, f) = (?md, ?f)"
    by (simp add: purge_step_def Let_def version_digest_def)
  obtain f' where f': "fold (purge_step e name) ts (?md, ?f)
        = (?md\<lparr>km_digest := km_digest ?md XOR xor_sum (version_digest e name ?f) ts\<rparr>, f')"
      "set (fl_list (se_files e) (dirpath e name) f') = set (fl_list (se_files e) (dirpath e name) ?f) - set ts"
      "\<forall>s. plain_name s \<longrightarrow> s \<notin> set ts \<longrightarrow> version_digest e name f' s = version_digest e name ?f s"
    using Cons.IH [of ?md ?f] Cons.prems by auto
  have x: "xor_sum (version_digest e name ?f) ts = xor_sum (version_digest e name f) ts"
    by (rule xor_sum_cong) (use Cons.prems in \<open>auto intro!: d\<close>)
  show ?case
    using f' by (intro exI [where x = f'])
      (use d in \<open>auto simp: step x del(1) ac_simps\<close>)
qed

lemma completion:
  assumes "dir_laws (se_files e)" "compare_dual (se_vl e)" "traverses (se_order e)"
    "\<forall>s \<in> set (fs_versions e name False f). canonical (se_vl e) s"
    "canonical (se_vl e) m" "version_name m" "km_version md = version_of (se_vl e) m"
    "fl_rename (se_files e) (filepath e name (m @ ''~'')) (filepath e name m) f = (True, f1)"
  obtains f' where
    "fs_onWriteComplete e name md f = Inr (True,
       md\<lparr>km_digest := km_digest md XOR xor_sum (version_digest e name f1)
            (filter (\<lambda>s. s \<in> obsolete (se_vl e) m (set (fs_versions e name False f1))) (fs_versions e name False f1))\<rparr>, f')"
    "set (fs_versions e name False f1) = insert m (set (fs_versions e name False f))"
    "set (fs_versions e name False f') = set (fs_versions e name False f1)
       - obsolete (se_vl e) m (set (fs_versions e name False f1))"
    "\<forall>s \<in> set (fs_versions e name False f'). version_digest e name f' s = version_digest e name f1 s"
    "\<forall>s \<in> set (fs_versions e name False f) - {m}. version_digest e name f1 s = version_digest e name f s"
    "fl_size (se_files e) (filepath e name m) f1 = fl_size (se_files e) (filepath e name (m @ ''~'')) f"
proof -
  let ?d = "dirpath e name" and ?fl = "se_files e" and ?V = "\<lambda>f. fs_versions e name False f"
  let ?O = "obsolete (se_vl e) m (set (?V f1))"
  have pm: "plain_name m" "plain_name (m @ ''~'')" "m @ ''~'' \<noteq> m" "\<not> version_name (m @ ''~'')"
    using assms(6) by (auto simp: version_name_def plain_name_def)
  note ren = dir_laws_rename [OF assms(1) pm(2,1,3) assms(8) [unfolded filepath_in_dir]]
  note names = fs_versions_names [OF assms(1)]
  have V1: "set (?V f1) = insert m (set (?V f))"
    using ren(1) pm(4) assms(6) by (auto simp: names)
  then have can: "\<forall>s \<in> set (?V f1). canonical (se_vl e) s" using assms(4,5) by simp
  obtain ts where ts: "purge_marks (se_vl e) (km_version md) (?V f1) [] = Inr ts" "distinct ts"
      "set ts = ?O"
    using purge_marks_canonical [OF assms(2,5) can, of "[]"] assms(7) by auto
  have O: "?O \<subseteq> set (?V f1)" using V1 by (auto simp: obsolete_def)
  have ord: "distinct (se_order e ts)" "set (se_order e ts) = ?O"
    using assms(3) ts by (simp_all add: traverses_def)
  have plain: "\<forall>t \<in> set (se_order e ts). plain_name t"
    using ord(2) O by (auto simp: names version_name_def)
  obtain f' where f': "fold (purge_step e name) (se_order e ts) (md, f1)
        = (md\<lparr>km_digest := km_digest md XOR xor_sum (version_digest e name f1) (se_order e ts)\<rparr>, f')"
      "set (fl_list ?fl ?d f') = set (fl_list ?fl ?d f1) - set (se_order e ts)"
      "\<forall>s. plain_name s \<longrightarrow> s \<notin> set (se_order e ts) \<longrightarrow> version_digest e name f' s = version_digest e name f1 s"
    using purge_steps [OF assms(1) ord(1) plain, where md = md and f = f1] by blast
  have xs: "xor_sum (version_digest e name f1) (se_order e ts)
      = xor_sum (version_digest e name f1) (filter (\<lambda>s. s \<in> ?O) (?V f1))"
    using O ord fs_versions_distinct [OF assms(1)] by (intro xor_sum_set) auto
  have printed: "vc_toString (se_vl e) (km_version md) = m" using assms(5,7) by (simp add: canonical_def)
  have run: "fs_onWriteComplete e name md f
      = Inr (True, md\<lparr>km_digest := km_digest md XOR xor_sum (version_digest e name f1)
            (filter (\<lambda>s. s \<in> ?O) (?V f1))\<rparr>, f')"
    using assms(8) by (simp add: fs_onWriteComplete_def printed filepath_def purgeObsolete_def ts(1) f'(1) xs)
  show ?thesis
  proof (rule that [OF run V1])
    show "set (?V f') = set (?V f1) - ?O" using f'(2) ord(2) by (auto simp: names)
    then show "\<forall>s \<in> set (?V f'). version_digest e name f' s = version_digest e name f1 s"
      using f'(3) ord(2) by (auto simp: names version_name_def)
    show "\<forall>s \<in> set (?V f) - {m}. version_digest e name f1 s = version_digest e name f s"
    proof
      fix s
      assume "s \<in> set (?V f) - {m}"
      then have "plain_name s" "s \<noteq> m" "s \<noteq> m @ ''~''" using pm(4) by (auto simp: names version_name_def)
      then show "version_digest e name f1 s = version_digest e name f s"
        using ren(3) by (simp add: version_digest_def filepath_in_dir)
    qed
    show "fl_size ?fl (filepath e name m) f1 = fl_size ?fl (filepath e name (m @ ''~'')) f"
      using ren(2) by (simp add: filepath_in_dir)
  qed
qed

text \<open>What a completed write hands on, combined with the digest before, is the digest after.\<close>

lemma completion_digest:
  assumes "dir_laws (se_files e)" "compare_dual (se_vl e)" "traverses (se_order e)"
    "\<forall>s \<in> set (fs_versions e name False f). canonical (se_vl e) s"
    "canonical (se_vl e) m" "version_name m" "m \<notin> set (fs_versions e name False f)"
    "km_version md = version_of (se_vl e) m"
    "km_digest md = ws_digest (se_hash e) m (fl_size (se_files e) (filepath e name (m @ ''~'')) f)"
    "fl_rename (se_files e) (filepath e name (m @ ''~'')) (filepath e name m) f = (True, f1)"
  shows "\<exists>md' f'. fs_onWriteComplete e name md f = Inr (True, md', f')
           \<and> key_digest e name f' = key_digest e name f XOR km_digest md'"
proof -
  let ?V = "\<lambda>f. fs_versions e name False f" and ?O = "obsolete (se_vl e) m (set (fs_versions e name False f1))"
  obtain f' where run: "fs_onWriteComplete e name md f = Inr (True,
       md\<lparr>km_digest := km_digest md XOR xor_sum (version_digest e name f1) (filter (\<lambda>s. s \<in> ?O) (?V f1))\<rparr>, f')"
    and V1: "set (?V f1) = insert m (set (?V f))"
    and V': "set (?V f') = set (?V f1) - ?O"
    and same: "\<forall>s \<in> set (?V f'). version_digest e name f' s = version_digest e name f1 s"
      "\<forall>s \<in> set (?V f) - {m}. version_digest e name f1 s = version_digest e name f s"
    and sz: "fl_size (se_files e) (filepath e name m) f1 = fl_size (se_files e) (filepath e name (m @ ''~'')) f"
    by (rule completion [OF assms(1-6,8,10)])
  note dist = fs_versions_distinct [OF assms(1)]
  let ?g = "version_digest e name f1"
  have m: "km_digest md = ?g m" using assms(9) sz by (simp add: version_digest_def)
  have old: "key_digest e name f = xor_sum ?g (?V f)"
    unfolding key_digest_def using same(2) assms(7) by (intro xor_sum_cong) auto
  have "xor_sum ?g (?V f1) = xor_sum ?g [m] XOR xor_sum ?g (?V f)"
    using V1 assms(7) dist by (intro xor_sum_split) auto
  moreover have "xor_sum ?g (?V f1) = xor_sum ?g (filter (\<lambda>s. s \<in> ?O) (?V f1)) XOR xor_sum ?g (?V f')"
    using V' dist by (intro xor_sum_split) auto
  moreover have "key_digest e name f' = xor_sum ?g (?V f')"
    unfolding key_digest_def using same(1) by (intro xor_sum_cong) auto
  ultimately have "xor_sum ?g (filter (\<lambda>s. s \<in> ?O) (?V f1)) XOR key_digest e name f' = ?g m XOR key_digest e name f"
    using old by simp
  then have "key_digest e name f' = key_digest e name f XOR (?g m XOR xor_sum ?g (filter (\<lambda>s. s \<in> ?O) (?V f1)))"
    by (rule xor_move)
  then show ?thesis using run m by (intro exI conjI) auto
qed

lemma newest_as_obsolete:
  assumes "compare_dual vl" "\<forall>s \<in> S. \<forall>t \<in> S. \<not> older vl s t" "\<not> older vl m m"
  shows "insert m S - obsolete vl m (insert m S) = newest vl (insert m S)"
  using assms by (auto simp: newest_def obsolete_def)

section \<open>An instance\<close>

lemma compare_dual_ref_lib: "compare_dual ref_lib"
  by (simp add: compare_dual_def ref_lib_def ref_compare_def)

lemma traverses_id: "traverses id"
  by (simp add: traverses_def)

definition mem_env :: "mem_fs store_env" where
  "mem_env = \<lparr>se_files = mem_lib, se_vl = ref_lib, se_hash = plain_env, se_wall = \<lparr>wc_frozen = 0, wc_system = 2000000\<rparr>,
     se_me = ''me'', se_order = id, se_join = (\<lambda>xs. concat (map (\<lambda>x. x @ ''|'') xs)), se_home = ''/h''\<rparr>"

definition name_of :: "string \<Rightarrow> u64 \<Rightarrow> string" where
  "name_of k t = vc_toString ref_lib [\<lparr>ck_key = k, ck_time = t, ck_count = 0\<rparr>]"

text \<open>A key with an old version of \<open>a\<close>, one of \<open>b\<close>, and a new version of \<open>a\<close> about to be completed.\<close>

definition mem_text :: "string \<Rightarrow> mem_file" where
  "mem_text s = \<lparr>mf_data = s, mf_time = 5, mf_attr = []\<rparr>"

definition mem_state :: mem_fs where
  "mem_state = \<lparr>ms_files = [(''/h/k/'' @ name_of ''a'' 1, mem_text ''one''), (''/h/k/'' @ name_of ''b'' 1, mem_text ''two''),
     (''/h/k/'' @ name_of ''a'' 2 @ ''~'', mem_text ''three'')], ms_open = [], ms_now = 7\<rparr>"

definition mem_md :: key_metadata where
  "mem_md = KeyMetadata\<lparr>km_version := version_of ref_lib (name_of ''a'' 2),
     km_digest := ws_digest plain_env (name_of ''a'' 2) 5\<rparr>"

lemma mem_env_simps [simp]:
  "se_files mem_env = mem_lib" "se_vl mem_env = ref_lib" "se_order mem_env = id" "se_hash mem_env = plain_env"
  by (simp_all add: mem_env_def)

lemma canonical_toString:
  assumes "time_codec vl" "\<forall>c \<in> set vc. printable_clock vl c" "length vc < 2 ^ 32"
  shows "version_of vl (vc_toString vl vc) = vc" "canonical vl (vc_toString vl vc)"
  using fromString_toString [OF assms] by (simp_all add: version_of_def canonical_def)

lemma name_of_clock:
  assumes "\<forall>x \<in> set k. x \<noteq> CHR ''.'' \<and> x \<noteq> CHR '','' \<and> \<not> is_space x"
  shows "version_of ref_lib (name_of k t) = [\<lparr>ck_key = k, ck_time = t, ck_count = 0\<rparr>]"
    "canonical ref_lib (name_of k t)"
  using canonical_toString [OF time_codec_ref_lib, of "[\<lparr>ck_key = k, ck_time = t, ck_count = 0\<rparr>]"] assms
  by (simp_all add: name_of_def printable_clock_def ref_lib_def)

lemma name_of_text: "name_of k t = show_dec 1 @ '','' @ k @ ''.'' @ nibbles 16 (unat t)"
  by (simp add: name_of_def vc_toString_def show_clock_def ref_lib_def)

lemma version_name_name_of:
  assumes "CHR ''/'' \<notin> set k"
  shows "version_name (name_of k t)"
proof -
  let ?n = "nibbles 16 (unat t)"
  have n: "c \<in> set ?n \<Longrightarrow> c \<noteq> CHR ''/'' \<and> c \<noteq> CHR ''~''" for c
    using nibbles_chars [of c 16 "unat t"] by auto
  have "?n \<noteq> []" using length_nibbles [of 16 "unat t"] by force
  then have "last (name_of k t) \<in> set ?n" by (simp add: name_of_text)
  moreover have "c \<in> set (show_dec 1) \<Longrightarrow> c \<noteq> CHR ''/''" for c
    using show_dec_digits [of c 1] by (auto simp: is_digit_def)
  ultimately show ?thesis
    using n assms by (auto simp: version_name_def plain_name_def name_of_text)
qed

lemma older_name_of:
  assumes "\<forall>x \<in> set k \<union> set l. x \<noteq> CHR ''.'' \<and> x \<noteq> CHR '','' \<and> \<not> is_space x"
  shows "older ref_lib (name_of k t) (name_of l u) \<longleftrightarrow> k = l \<and> t < u"
proof -
  have "version_of ref_lib (name_of k t) = [\<lparr>ck_key = k, ck_time = t, ck_count = 0\<rparr>]"
    "version_of ref_lib (name_of l u) = [\<lparr>ck_key = l, ck_time = u, ck_count = 0\<rparr>]"
    using assms by (simp_all add: name_of_clock)
  then show ?thesis
    by (auto simp: older_def ref_lib_def ref_compare_def vclock_le_def clock_le_def)
qed

lemma name_of_inj:
  assumes "\<forall>x \<in> set k \<union> set l. x \<noteq> CHR ''.'' \<and> x \<noteq> CHR '','' \<and> \<not> is_space x"
  shows "name_of k t = name_of l u \<longleftrightarrow> k = l \<and> t = u"
proof
  assume "name_of k t = name_of l u"
  then have "version_of ref_lib (name_of k t) = version_of ref_lib (name_of l u)" by simp
  then show "k = l \<and> t = u" using assms by (simp add: name_of_clock)
qed simp

lemma mem_versions:
  "set (fs_versions mem_env ''k'' False mem_state) = {name_of ''a'' 1, name_of ''b'' 1}"
proof -
  have "version_name (name_of ''a'' 1)" "version_name (name_of ''b'' 1)" "\<not> version_name (name_of ''a'' 2 @ ''~'')"
    by (simp_all add: version_name_name_of) (simp add: version_name_def)
  moreover have "\<And>s. version_name s \<Longrightarrow> plain_name s" by (simp add: version_name_def)
  ultimately show ?thesis
    using fs_versions_names [of mem_env "''k''" mem_state] dir_laws_mem_lib
    by (auto simp: mem_lib_def set_mem_list dirpath_def mem_env_def in_dir_def ms_has_def mem_state_def
        split: if_splits)
qed

lemma mem_facts:
  "\<forall>s \<in> set (fs_versions mem_env ''k'' False mem_state). canonical ref_lib s"
  "\<forall>s \<in> set (fs_versions mem_env ''k'' False mem_state).
     \<forall>t \<in> set (fs_versions mem_env ''k'' False mem_state). \<not> older ref_lib s t"
  "canonical ref_lib (name_of ''a'' 2)" "version_name (name_of ''a'' 2)" "\<not> older ref_lib (name_of ''a'' 2) (name_of ''a'' 2)"
  "name_of ''a'' 2 \<notin> set (fs_versions mem_env ''k'' False mem_state)"
  "fst (fl_rename mem_lib (filepath mem_env ''k'' (name_of ''a'' 2 @ ''~'')) (filepath mem_env ''k'' (name_of ''a'' 2)) mem_state)"
  "fl_size mem_lib (filepath mem_env ''k'' (name_of ''a'' 2 @ ''~'')) mem_state = 5"
proof -
  note names = mem_versions name_of_clock older_name_of name_of_inj is_space_def
  show "\<forall>s \<in> set (fs_versions mem_env ''k'' False mem_state). canonical ref_lib s"
    "\<forall>s \<in> set (fs_versions mem_env ''k'' False mem_state).
       \<forall>t \<in> set (fs_versions mem_env ''k'' False mem_state). \<not> older ref_lib s t"
    "canonical ref_lib (name_of ''a'' 2)" "\<not> older ref_lib (name_of ''a'' 2) (name_of ''a'' 2)"
    "name_of ''a'' 2 \<notin> set (fs_versions mem_env ''k'' False mem_state)"
    by (simp_all add: names)
  show v: "version_name (name_of ''a'' 2)" by (simp add: version_name_name_of)
  have t: "name_of k t \<noteq> name_of ''a'' 2 @ ''~''" if "CHR ''/'' \<notin> set k" for k t
    using version_name_name_of [OF that, of t] by (auto simp: version_name_def)
  have p: "filepath mem_env ''k'' s = ''/h/k/'' @ s" for s
    by (simp add: filepath_def dirpath_def mem_env_def)
  show "fst (fl_rename mem_lib (filepath mem_env ''k'' (name_of ''a'' 2 @ ''~'')) (filepath mem_env ''k'' (name_of ''a'' 2)) mem_state)"
    by (simp add: p mem_lib_def ms_has_def mem_state_def)
  show "fl_size mem_lib (filepath mem_env ''k'' (name_of ''a'' 2 @ ''~'')) mem_state = 5"
    using t [of "''a''" 1] t [of "''b''" 1]
    by (simp add: p mem_lib_def ms_file_def mem_state_def mem_text_def eq_commute)
qed

text \<open>
  \<^verbatim>\<open>exists\<close> holds of a version exactly if a file of that name is complete or in progress: a version whose
  transfer has begun is not offered to the store again.
\<close>

lemma version_exists_iff_file:
  "fs_exists e name version f \<longleftrightarrow>
     CHR '','' \<in> set version
     \<and> (version @ ''~'' \<in> set (fl_list (se_files e) (dirpath e name) f)
        \<or> version \<in> set (fl_list (se_files e) (dirpath e name) f) \<and> last version \<noteq> CHR ''~'')"
  unfolding fs_exists_def fs_versions_def by (rule set_keep_all)

text \<open>
  Metadata kept with a file: reading back what was written gives the number of copies modulo 256 and the
  flag; a number of copies above 255 is not kept.
\<close>

lemma metadata_text_roundtrip:
  "mdFromString (mdToString md) md' =
     (True, md'\<lparr>km_totalCopies := of_nat (unat (km_totalCopies md) mod 256), km_supercede := km_supercede md\<rparr>)"
proof -
  have a: "unat (of_nat (unat (km_totalCopies md) mod 256) :: u16) = unat (km_totalCopies md) mod 256"
    by (intro of_nat_inverse less_trans [OF mod_less_divisor]) simp_all
  have b: "unat (ucast (ucast (km_totalCopies md) :: u8) :: u16) = unat (km_totalCopies md) mod 256"
    by (simp add: unsigned_ucast_eq unat_mod_distrib take_bit_eq_mod)
  have "ucast (ucast (km_totalCopies md) :: u8) = (of_nat (unat (km_totalCopies md) mod 256) :: u16)"
    by (rule word_unat_eq_iff [THEN iffD2]) (simp only: a b)
  then show ?thesis by (simp add: mdFromString_def mdToString_def)
qed

section \<open>Properties\<close>

text \<open>
  C5. Refinement: completing a write does to the set of versions of the key what the contract says:
  the new version is added and exactly the versions that no other one succeeds are kept, given that
  no stored version succeeded another before (which then holds again). This is for names of versions as
  the program prints them and for any order in which the set of obsolete names is traversed.
\<close>

theorem completed_write_keeps_newest:
  assumes "dir_laws (se_files e)" "compare_dual (se_vl e)" "traverses (se_order e)"
    "\<forall>s \<in> set (fs_versions e name False f). canonical (se_vl e) s"
    "\<forall>s \<in> set (fs_versions e name False f). \<forall>t \<in> set (fs_versions e name False f). \<not> older (se_vl e) s t"
    "canonical (se_vl e) m" "version_name m" "\<not> older (se_vl e) m m" "km_version md = version_of (se_vl e) m"
    "fl_rename (se_files e) (filepath e name (m @ ''~'')) (filepath e name m) f = (True, f1)"
  shows "\<exists>md' f'. fs_onWriteComplete e name md f = Inr (True, md', f')
           \<and> set (fs_versions e name False f') = newest (se_vl e) (insert m (set (fs_versions e name False f)))"
proof -
  obtain f' where f': "fs_onWriteComplete e name md f = Inr (True,
       md\<lparr>km_digest := km_digest md XOR xor_sum (version_digest e name f1)
            (filter (\<lambda>s. s \<in> obsolete (se_vl e) m (set (fs_versions e name False f1))) (fs_versions e name False f1))\<rparr>, f')"
      "set (fs_versions e name False f1) = insert m (set (fs_versions e name False f))"
      "set (fs_versions e name False f') = set (fs_versions e name False f1)
         - obsolete (se_vl e) m (set (fs_versions e name False f1))"
    by (rule completion [OF assms(1-4,6,7,9,10)])
  then show ?thesis using newest_as_obsolete [OF assms(2,5,8)] by (intro exI conjI) auto
qed

theorem completed_write_keeps_newest_witness:
  "\<exists>md' f'. fs_onWriteComplete mem_env ''k'' mem_md mem_state = Inr (True, md', f')
     \<and> set (fs_versions mem_env ''k'' False f')
         = newest (se_vl mem_env) (insert (name_of ''a'' 2) (set (fs_versions mem_env ''k'' False mem_state)))"
  by (rule completed_write_keeps_newest)
    (simp_all add: dir_laws_mem_lib compare_dual_ref_lib traverses_id mem_facts mem_md_def prod_eq_iff)

text \<open>
  C13. Invariant of the trees: the digest that a completed write hands on, combined with the digest of the
  key before, is the digest of the versions that are stored now; so a tree that is told of every
  completed write keeps the digest of what is on disk. (For a version that is new, and metadata
  with the digest of the new file, as \<^verbatim>\<open>writestream\<close> computes it.)
\<close>

theorem completed_write_digest:
  assumes "dir_laws (se_files e)" "compare_dual (se_vl e)" "traverses (se_order e)"
    "\<forall>s \<in> set (fs_versions e name False f). canonical (se_vl e) s"
    "canonical (se_vl e) m" "version_name m" "m \<notin> set (fs_versions e name False f)"
    "km_version md = version_of (se_vl e) m"
    "km_digest md = ws_digest (se_hash e) m (fl_size (se_files e) (filepath e name (m @ ''~'')) f)"
    "fl_rename (se_files e) (filepath e name (m @ ''~'')) (filepath e name m) f = (True, f1)"
  shows "\<exists>md' f'. fs_onWriteComplete e name md f = Inr (True, md', f')
           \<and> key_digest e name f' = key_digest e name f XOR km_digest md'"
  by (rule completion_digest [OF assms])

theorem completed_write_digest_witness:
  "\<exists>md' f'. fs_onWriteComplete mem_env ''k'' mem_md mem_state = Inr (True, md', f')
     \<and> key_digest mem_env ''k'' f' = key_digest mem_env ''k'' mem_state XOR km_digest md'"
  by (rule completed_write_digest [where m = "name_of ''a'' 2"])
    (simp_all add: dir_laws_mem_lib compare_dual_ref_lib traverses_id mem_facts mem_md_def prod_eq_iff)

end
