(* ===== verification/SimpleStore.thy ===== *)
theory SimpleStore
  imports FileStore Peers
begin

text \<open>
  \<^verbatim>\<open>storage/SimpleFileStore\<close>: one file for each key. The version is the time of modification; a file
  beside it whose name starts with \<^verbatim>\<open>.deleted.\<close> marks a deletion, one that starts with a dot and ends in a
  tilde is being received, and one with two tildes is the previous content during a change.
\<close>

section \<open>FilePaths\<close>

record file_paths =
  fp_homedir :: string
  fp_name :: string

definition FilePaths :: "'f file_lib \<Rightarrow> string \<Rightarrow> string \<Rightarrow> file_paths" where
  "FilePaths fl homedir name =
     \<lparr>fp_homedir = fl_append fl homedir (fl_parent fl name) @ ''/'', fp_name = fl_filename fl name\<rparr>"

definition fp_current :: "file_paths \<Rightarrow> string" where
  "fp_current p = fp_homedir p @ fp_name p"

definition fp_inprogress :: "file_paths \<Rightarrow> string" where
  "fp_inprogress p = fp_homedir p @ ''.'' @ fp_name p @ ''~''"

definition fp_deleted :: "file_paths \<Rightarrow> string" where
  "fp_deleted p = fp_homedir p @ ''.deleted.'' @ fp_name p"

definition fp_reserve :: "file_paths \<Rightarrow> string" where
  "fp_reserve p = fp_inprogress p @ ''~''"

lemma file_paths_distinct:
  "distinct [fp_current p, fp_inprogress p, fp_deleted p, fp_reserve p]"
proof -
  have "distinct (map length [fp_current p, fp_inprogress p, fp_deleted p, fp_reserve p])"
    by (simp add: fp_current_def fp_inprogress_def fp_deleted_def fp_reserve_def)
  then show ?thesis by (simp only: distinct_map)
qed

lemma file_paths_ne [simp]:
  "fp_current p \<noteq> fp_inprogress p" "fp_inprogress p \<noteq> fp_current p"
  "fp_current p \<noteq> fp_deleted p" "fp_deleted p \<noteq> fp_current p"
  "fp_current p \<noteq> fp_reserve p" "fp_reserve p \<noteq> fp_current p"
  "fp_inprogress p \<noteq> fp_deleted p" "fp_deleted p \<noteq> fp_inprogress p"
  "fp_inprogress p \<noteq> fp_reserve p" "fp_reserve p \<noteq> fp_inprogress p"
  "fp_deleted p \<noteq> fp_reserve p" "fp_reserve p \<noteq> fp_deleted p"
  using file_paths_distinct [of p] by auto

section \<open>Versions\<close>

definition lookupVersion :: "'f store_env \<Rightarrow> string \<Rightarrow> bool \<Rightarrow> 'f \<Rightarrow> vclock" where
  "lookupVersion e path deleted f =
     (let mtime = fl_modified_time (se_files e) path f;
          vc = vc_increment_at (se_vl e) ''sec'' mtime []
      in if deleted then markDeleted_at (se_vl e) mtime vc else vc)"

definition removeIfExists :: "'f store_env \<Rightarrow> string \<Rightarrow> bool \<Rightarrow> 'f \<Rightarrow> u64 \<times> 'f" where
  "removeIfExists e path deleted f =
     (if fl_exists (se_files e) path f
      then let obs = lookupVersion e path deleted f;
               digest = ws_digest (se_hash e) (vc_toString (se_vl e) obs) (fl_size (se_files e) path f)
           in (digest, snd (fl_remove (se_files e) path f))
      else (0, f))"

definition timeFromVersion :: "vclock \<Rightarrow> u64" where
  "timeFromVersion version = (case version of [] \<Rightarrow> 0 | c # _ \<Rightarrow> ck_time c)"

definition testIfVersionGreater :: "'f store_env \<Rightarrow> vclock \<Rightarrow> string \<Rightarrow> 'f \<Rightarrow> bool" where
  "testIfVersionGreater e version path f =
     (if \<not> fl_exists (se_files e) path f then True
      else let prev = fl_modified_time (se_files e) path f; current = timeFromVersion version
           in current > prev \<or> (current = prev \<and> isDeleted version))"

definition SimpleFileStore_new :: "'f store_env \<Rightarrow> 'f \<Rightarrow> 'f" where
  "SimpleFileStore_new e f = fl_create_directories (se_files e) (se_home e) f"

definition sf_filepath :: "'f store_env \<Rightarrow> string \<Rightarrow> file_paths" where
  "sf_filepath e name = FilePaths (se_files e) (se_home e) name"

definition sf_versions :: "'f store_env \<Rightarrow> string \<Rightarrow> bool \<Rightarrow> 'f \<Rightarrow> string list" where
  "sf_versions e name inprogress f =
     (let p = sf_filepath e name; fl = se_files e; txt = (\<lambda>path del. vc_toString (se_vl e) (lookupVersion e path del f))
      in (if fl_exists fl (fp_current p) f then [txt (fp_current p) False] else [])
         @ (if fl_exists fl (fp_deleted p) f then [txt (fp_deleted p) True] else [])
         @ (if inprogress \<and> fl_exists fl (fp_inprogress p) f then [txt (fp_inprogress p) False] else []))"

definition sf_mergedVersion :: "'f store_env \<Rightarrow> string \<Rightarrow> bool \<Rightarrow> 'f \<Rightarrow> vclock result" where
  "sf_mergedVersion e name inprogress f = merge_versions (se_vl e) [] (sf_versions e name inprogress f)"

definition sf_exists :: "'f store_env \<Rightarrow> string \<Rightarrow> string \<Rightarrow> 'f \<Rightarrow> bool result" where
  "sf_exists e name version f =
     rbind (vc_fromString (se_vl e) version []) (\<lambda>(_, v).
     rbind (sf_mergedVersion e name True f) (\<lambda>merged.
       let c = vl_compare (se_vl e) v merged in Inr (c = EQUAL \<or> c = LESS_THAN)))"

definition sf_isExpired :: "'f store_env \<Rightarrow> string \<Rightarrow> bool result" where
  "sf_isExpired e version =
     rbind (vc_fromString (se_vl e) version [])
       (\<lambda>(ok, vc). Inr (if \<not> ok then False else isExpired (se_wall e) EXPIRY_TIMEOUT_SECONDS vc))"

section \<open>Completion\<close>

definition onDeleteComplete :: "'f store_env \<Rightarrow> string \<Rightarrow> key_metadata \<Rightarrow> 'f \<Rightarrow> bool \<times> key_metadata \<times> 'f" where
  "onDeleteComplete e name md f =
     (let p = sf_filepath e name; fl = se_files e
      in if \<not> testIfVersionGreater e (km_version md) (fp_current p) f
         then (False, md, snd (fl_remove fl (fp_inprogress p) f))
         else
           (let (currentDigest, f) = removeIfExists e (fp_deleted p) True f;
                (ok, f) = fl_set_modified_time fl (fp_inprogress p) (timeFromVersion (km_version md)) f;
                (ok, f) = (if ok then fl_rename fl (fp_inprogress p) (fp_deleted p) f else (False, f))
            in if \<not> ok then (False, md, snd (fl_remove fl (fp_inprogress p) f))
               else (let (d, f) = removeIfExists e (fp_current p) False f
                     in (True, md\<lparr>km_digest := km_digest md XOR d XOR currentDigest\<rparr>, f))))"

definition sf_onWriteComplete :: "'f store_env \<Rightarrow> string \<Rightarrow> key_metadata \<Rightarrow> 'f \<Rightarrow> bool \<times> key_metadata \<times> 'f" where
  "sf_onWriteComplete e name md f =
     (if isDeleted (km_version md) then onDeleteComplete e name md f
      else
        (let p = sf_filepath e name; fl = se_files e
         in if \<not> testIfVersionGreater e (km_version md) (fp_deleted p) f
            then (False, md, snd (fl_remove fl (fp_inprogress p) f))
            else
              (let (_, f) = fl_rename fl (fp_current p) (fp_reserve p) f;
                   (ok, f) = fl_set_modified_time fl (fp_inprogress p) (timeFromVersion (km_version md)) f;
                   (ok, f) = (if ok then fl_rename fl (fp_inprogress p) (fp_current p) f else (False, f))
               in if \<not> ok then
                    (let (_, f) = fl_rename fl (fp_reserve p) (fp_current p) f
                     in (False, md, snd (fl_remove fl (fp_inprogress p) f)))
                  else
                    (let (d, f) = removeIfExists e (fp_reserve p) False f;
                         (d', f) = removeIfExists e (fp_deleted p) True f
                     in (True, md\<lparr>km_digest := km_digest md XOR d XOR d'\<rparr>, f)))))"

section \<open>Writing, reading and removing\<close>

text \<open>\<open>copies\<close> and \<open>offset\<close> are not used by the code.\<close>

definition sf_write :: "'f store_env \<Rightarrow> string \<Rightarrow> string \<Rightarrow> 'f \<Rightarrow> ((file_writer, 'f) writestream \<times> 'f) result" where
  "sf_write e name version f =
     rbind (vc_fromString (se_vl e) version []) (\<lambda>(_, v).
     rbind (sf_mergedVersion e name True f) (\<lambda>merged.
       let v = (if v = [] then vc_increment (se_vl e) (se_wall e) ''sec'' v else v);
           md = KeyMetadata\<lparr>km_version := v\<rparr>;
           current = timeFromVersion merged; prospective = timeFromVersion v
       in if prospective < current \<or> (prospective = current \<and> \<not> isDeleted v)
             \<or> isExpired (se_wall e) EXPIRY_TIMEOUT_SECONDS v
          then Inr (writestream_none, f)
          else
            (let tempname = fp_inprogress (sf_filepath e name);
                 f = fl_create_directories (se_files e) (fl_parent (se_files e) tempname) f;
                 (writer, f) = FileWriter (fl_sys (se_files e)) tempname f
             in Inr (\<lparr>ws_writer = Some writer, ws_md = md,
                      ws_onClose = Some (\<lambda>md f. Inr (sf_onWriteComplete e name md f))\<rparr>, f))))"

definition sf_read :: "'f store_env \<Rightarrow> string \<Rightarrow> string \<Rightarrow> 'f \<Rightarrow> (file_reader readstream \<times> 'f) result" where
  "sf_read e name version f =
     rbind (if version = [] then Inr [] else rbind (vc_fromString (se_vl e) version []) (\<lambda>(_, v). Inr v)) (\<lambda>v.
     rbind (sf_mergedVersion e name True f) (\<lambda>merged.
       if version \<noteq> [] \<and> vl_compare (se_vl e) v merged \<noteq> EQUAL then Inr (readstream_none, f)
       else
         (let p = sf_filepath e name; v = (if version \<noteq> [] then v else merged);
              filename = (if isDeleted v then fp_deleted p else fp_current p);
              (reader, f) = FileReader (fl_sys (se_files e)) filename 0 f;
              md = KeyMetadata\<lparr>km_version := v\<rparr>;
              md = (if has_prefix MEMBERSHIP_FILE_PREFIX name then md\<lparr>km_totalCopies := 0\<rparr> else md)
          in Inr (\<lparr>rs_reader = Some reader, rs_md = md\<rparr>, f))))"

definition sf_readAll :: "'f store_env \<Rightarrow> string \<Rightarrow> 'f \<Rightarrow> (file_reader readstream list \<times> 'f) result" where
  "sf_readAll e name f =
     rbind (sf_read e name [] f) (\<lambda>(current, f).
       Inr (if (case rs_reader current of None \<Rightarrow> False | Some r \<Rightarrow> fr_good r) then [current] else [], f))"

partial_function (option) remove_parents :: "'f file_lib \<Rightarrow> string \<Rightarrow> 'f \<Rightarrow> 'f option" where
  "remove_parents fl path f =
     (let (removed, f) = fl_remove fl path f
      in if removed then remove_parents fl (fl_parent fl path) f else Some f)"

definition sf_remove :: "'f store_env \<Rightarrow> string \<Rightarrow> 'f \<Rightarrow> (bool \<times> 'f) option" where
  "sf_remove e name f =
     (let p = sf_filepath e name; fl = se_files e;
          (a, f) = fl_remove fl (fp_inprogress p) f;
          (b, f) = fl_remove fl (fp_deleted p) f;
          (c, f) = fl_remove fl (fp_current p) f
      in map_option (\<lambda>f. (a \<or> b \<or> c, f)) (remove_parents fl (fl_parent fl (fp_current p)) f))"

section \<open>Enumeration\<close>

definition file_entry :: "'f store_env \<Rightarrow> string \<Rightarrow> 'f \<Rightarrow> (string \<times> key_metadata \<times> string) result" where
  "file_entry e filename f =
     rbind (if contains_str (se_home e) filename then substr_from (length (se_home e) + 1) filename
            else Inr (fl_filename (se_files e) filename))
       (\<lambda>shortname.
          let deleted = has_prefix ''.deleted.'' shortname;
              shortname = (if deleted then drop 9 shortname else shortname);
              version = lookupVersion e filename deleted f;
              versionString = vc_toString (se_vl e) version;
              sz = fl_size (se_files e) filename f;
              md = KeyMetadata\<lparr>km_version := version, km_digest := 0 XOR ws_digest (se_hash e) versionString sz\<rparr>;
              md = (if has_prefix MEMBERSHIP_FILE_PREFIX shortname then md\<lparr>km_totalCopies := 0\<rparr> else md)
          in Inr (shortname, md, show_dec (unat sz) @ '':'' @ versionString))"

fun enum_files :: "'f store_env \<Rightarrow> (string \<Rightarrow> key_metadata \<Rightarrow> string \<Rightarrow> 's \<Rightarrow> 's) \<Rightarrow> u64 \<Rightarrow> (string \<times> bool) list
    \<Rightarrow> u64 \<Rightarrow> 'f \<Rightarrow> 's \<Rightarrow> 's result" where
  "enum_files e callback limit [] i f s = Inr s"
| "enum_files e callback limit ((pa, isdir) # ps) i f s =
     (if isdir then enum_files e callback limit ps i f s
      else if last pa = CHR ''~'' then enum_files e callback limit ps i f s
      else rbind (file_entry e pa f) (\<lambda>(name, md, report).
             let s = callback name md report s
             in if i + 1 \<ge> limit then Inr s else enum_files e callback limit ps (i + 1) f s))"

definition sf_enumerate :: "'f store_env \<Rightarrow> (string \<Rightarrow> key_metadata \<Rightarrow> string \<Rightarrow> 's \<Rightarrow> 's) \<Rightarrow> u64 \<Rightarrow> string
    \<Rightarrow> 'f \<Rightarrow> 's \<Rightarrow> 's result" where
  "sf_enumerate e callback limit prefix f s =
     enum_files e callback limit (fl_walk (se_files e) (fl_append (se_files e) (se_home e) prefix) f) 0 f s"

section \<open>What the store relies on\<close>

text \<open>
  \<open>stat_of\<close> is the view of a file the laws speak of: its time and size. A rename of an existing file,
  an unlink and setting the time act on it as expected, when the program may change its own files.
\<close>

definition stat_of :: "'f file_lib \<Rightarrow> 'f \<Rightarrow> string \<Rightarrow> (u64 \<times> u64) option" where
  "stat_of fl f p = (if fl_exists fl p f then Some (fl_modified_time fl p f, fl_size fl p f) else None)"

definition path_laws :: "'f file_lib \<Rightarrow> bool" where
  "path_laws fl \<longleftrightarrow>
     (\<forall>a b f. a \<noteq> b \<longrightarrow> fst (fl_rename fl a b f) = fl_exists fl a f
        \<and> stat_of fl (snd (fl_rename fl a b f))
            = (if fl_exists fl a f then (stat_of fl f)(b := stat_of fl f a, a := None) else stat_of fl f))
   \<and> (\<forall>a f. stat_of fl (snd (fl_remove fl a f)) = (stat_of fl f)(a := None))
   \<and> (\<forall>a t f. fst (fl_set_modified_time fl a t f) = fl_exists fl a f
        \<and> stat_of fl (snd (fl_set_modified_time fl a t f))
            = (if fl_exists fl a f then (stat_of fl f)(a \<mapsto> (t, fl_size fl a f)) else stat_of fl f))"

lemma path_laws_rename:
  assumes "path_laws fl" "a \<noteq> b"
  shows "fst (fl_rename fl a b f) = fl_exists fl a f"
    "stat_of fl (snd (fl_rename fl a b f))
       = (if fl_exists fl a f then (stat_of fl f)(b := stat_of fl f a, a := None) else stat_of fl f)"
  using assms(1) [unfolded path_laws_def, THEN conjunct1, THEN spec [where x = a], THEN spec [where x = b],
      THEN spec [where x = f]] assms(2) by simp_all

lemma path_laws_remove:
  assumes "path_laws fl"
  shows "stat_of fl (snd (fl_remove fl a f)) = (stat_of fl f)(a := None)"
  using assms [unfolded path_laws_def, THEN conjunct2, THEN conjunct1] by simp

lemma path_laws_time:
  assumes "path_laws fl"
  shows "fst (fl_set_modified_time fl a t f) = fl_exists fl a f"
    "stat_of fl (snd (fl_set_modified_time fl a t f))
       = (if fl_exists fl a f then (stat_of fl f)(a \<mapsto> (t, fl_size fl a f)) else stat_of fl f)"
  using assms [unfolded path_laws_def, THEN conjunct2, THEN conjunct2] by simp_all

lemma stat_exists: "fl_exists fl p f \<longleftrightarrow> stat_of fl f p \<noteq> None"
  by (simp add: stat_of_def)

lemma path_laws_mem_lib: "path_laws mem_lib"
  unfolding path_laws_def
  by (auto simp: mem_lib_def stat_of_def fun_eq_iff)

text \<open>The digests of the two entries of a key, from what \<open>stat_of\<close> shows.\<close>

definition stamped :: "vc_lib \<Rightarrow> bool \<Rightarrow> u64 \<Rightarrow> vclock" where
  "stamped vl deleted t = (let vc = vc_increment_at vl ''sec'' t [] in if deleted then markDeleted_at vl t vc else vc)"

definition entry_digest :: "'f store_env \<Rightarrow> bool \<Rightarrow> (u64 \<times> u64) option \<Rightarrow> u64" where
  "entry_digest e deleted st = (case st of None \<Rightarrow> 0
     | Some (t, n) \<Rightarrow> ws_digest (se_hash e) (vc_toString (se_vl e) (stamped (se_vl e) deleted t)) n)"

definition simple_digest :: "'f store_env \<Rightarrow> string \<Rightarrow> 'f \<Rightarrow> u64" where
  "simple_digest e name f =
     (let p = sf_filepath e name; st = stat_of (se_files e) f
      in entry_digest e False (st (fp_current p)) XOR entry_digest e True (st (fp_deleted p)))"

lemma removeIfExists_stat:
  assumes "path_laws (se_files e)"
  shows "fst (removeIfExists e p del f) = entry_digest e del (stat_of (se_files e) f p)"
    "stat_of (se_files e) (snd (removeIfExists e p del f)) = (stat_of (se_files e) f)(p := None)"
proof -
  show "fst (removeIfExists e p del f) = entry_digest e del (stat_of (se_files e) f p)"
    by (simp add: removeIfExists_def entry_digest_def stat_of_def lookupVersion_def stamped_def Let_def)
  show "stat_of (se_files e) (snd (removeIfExists e p del f)) = (stat_of (se_files e) f)(p := None)"
  proof (cases "fl_exists (se_files e) p f")
    case True
    then show ?thesis by (simp add: removeIfExists_def Let_def path_laws_remove [OF assms])
  next
    case False
    then have "stat_of (se_files e) f p = None" by (simp add: stat_of_def)
    with False show ?thesis by (simp add: removeIfExists_def fun_upd_idem)
  qed
qed

text \<open>The first increment of a clock leaves one entry.\<close>

definition starts_single :: "vc_lib \<Rightarrow> bool" where
  "starts_single vl \<longleftrightarrow> (\<forall>k t. vl_increment vl k t [] = [\<lparr>ck_key = k, ck_time = t, ck_count = 0\<rparr>])"

lemma starts_single_ref_lib: "starts_single ref_lib"
  by (simp add: starts_single_def ref_lib_def ref_increment_def)

lemma stamped_facts:
  assumes "increments_front vl" "starts_at_time vl" "starts_single vl"
  shows "isDeleted (stamped vl del t) \<longleftrightarrow> del" "timeFromVersion (stamped vl del t) = t"
proof -
  let ?sec = "[\<lparr>ck_key = ''sec'', ck_time = t, ck_count = 0\<rparr>]"
  have c: "vl_increment vl ''sec'' t [] = ?sec" using assms(3) by (simp add: starts_single_def)
  obtain d q where d: "vl_increment vl ''delete'' t ?sec = d # q" "ck_key d = ''delete''"
    using assms(1) by (rule increments_frontE)
  have "ck_time (hd (vl_increment vl ''delete'' t ?sec)) = t"
    using assms(2) by (simp add: starts_at_time_def)
  with c d show "isDeleted (stamped vl del t) \<longleftrightarrow> del" "timeFromVersion (stamped vl del t) = t"
    by (simp_all add: isDeleted_def timeFromVersion_def stamped_def markDeleted_at_def vc_increment_at_def Let_def)
qed

lemma write_completion:
  assumes "path_laws (se_files e)" "\<not> isDeleted (km_version md)"
    "stat_of (se_files e) f (fp_inprogress p) = Some (t0, n)" "stat_of (se_files e) f (fp_reserve p) = None"
    "testIfVersionGreater e (km_version md) (fp_deleted p) f" "p = sf_filepath e name"
  shows "\<exists>f'. sf_onWriteComplete e name md f
      = (True, md\<lparr>km_digest := km_digest md XOR entry_digest e False (stat_of (se_files e) f (fp_current p))
                                  XOR entry_digest e True (stat_of (se_files e) f (fp_deleted p))\<rparr>, f')
    \<and> stat_of (se_files e) f' = (stat_of (se_files e) f)(fp_inprogress p := None,
        fp_current p \<mapsto> (timeFromVersion (km_version md), n), fp_deleted p := None)"
proof -
  let ?fl = "se_files e" and ?cur = "fp_current p" and ?tmp = "fp_inprogress p" and ?del = "fp_deleted p"
    and ?res = "fp_reserve p" and ?t = "timeFromVersion (km_version md)"
  define f1 where "f1 = snd (fl_rename ?fl ?cur ?res f)"
  define f2 where "f2 = snd (fl_set_modified_time ?fl ?tmp ?t f1)"
  define f3 where "f3 = snd (fl_rename ?fl ?tmp ?cur f2)"
  define f4 where "f4 = snd (removeIfExists e ?res False f3)"
  define f5 where "f5 = snd (removeIfExists e ?del True f4)"
  let ?st = "stat_of ?fl"
  have s1: "?st f1 = (?st f)(?res := ?st f ?cur, ?cur := None)"
    unfolding f1_def using path_laws_rename(2) [OF assms(1), of ?cur ?res f] assms(4)
    by (cases "?st f ?cur") (simp_all add: stat_exists fun_upd_idem)
  have e1: "?st f1 ?tmp = Some (t0, n)" using assms(3) by (simp add: s1)
  have s2: "?st f2 = (?st f1)(?tmp \<mapsto> (?t, n))" and ok2: "fst (fl_set_modified_time ?fl ?tmp ?t f1)"
    unfolding f2_def using path_laws_time [OF assms(1), of ?tmp ?t f1] e1 by (auto simp: stat_of_def split: if_splits)
  have s3: "?st f3 = (?st f2)(?cur \<mapsto> (?t, n), ?tmp := None)" and ok3: "fst (fl_rename ?fl ?tmp ?cur f2)"
    unfolding f3_def using path_laws_rename [OF assms(1), of ?tmp ?cur f2] by (auto simp: stat_exists s2)
  have s4: "?st f4 = (?st f3)(?res := None)" and d4: "fst (removeIfExists e ?res False f3) = entry_digest e False (?st f ?cur)"
    unfolding f4_def using removeIfExists_stat [OF assms(1)] by (simp_all add: s3 s2 s1)
  have s5: "?st f5 = (?st f4)(?del := None)" and d5: "fst (removeIfExists e ?del True f4) = entry_digest e True (?st f ?del)"
    unfolding f5_def using removeIfExists_stat [OF assms(1)] by (simp_all add: s4 s3 s2 s1)
  have "sf_onWriteComplete e name md f = (True, md\<lparr>km_digest := km_digest md XOR entry_digest e False (?st f ?cur)
      XOR entry_digest e True (?st f ?del)\<rparr>, f5)"
    using assms(2,5) ok2 ok3 d4 d5
    by (simp add: assms(6) [symmetric] sf_onWriteComplete_def Let_def case_prod_beta f1_def [symmetric] f2_def [symmetric]
        f3_def [symmetric] f4_def [symmetric] f5_def [symmetric])
  moreover have "?st f5 = (?st f)(?tmp := None, ?cur \<mapsto> (?t, n), ?del := None)"
    using assms(4) by (auto simp: s5 s4 s3 s2 s1 fun_eq_iff)
  ultimately show ?thesis by blast
qed

lemma delete_completion:
  assumes "path_laws (se_files e)" "isDeleted (km_version md)"
    "stat_of (se_files e) f (fp_inprogress p) = Some (t0, n)"
    "testIfVersionGreater e (km_version md) (fp_current p) f" "p = sf_filepath e name"
  shows "\<exists>f'. sf_onWriteComplete e name md f
      = (True, md\<lparr>km_digest := km_digest md XOR entry_digest e False (stat_of (se_files e) f (fp_current p))
                                  XOR entry_digest e True (stat_of (se_files e) f (fp_deleted p))\<rparr>, f')
    \<and> stat_of (se_files e) f' = (stat_of (se_files e) f)(fp_inprogress p := None,
        fp_deleted p \<mapsto> (timeFromVersion (km_version md), n), fp_current p := None)"
proof -
  let ?fl = "se_files e" and ?cur = "fp_current p" and ?tmp = "fp_inprogress p" and ?del = "fp_deleted p"
    and ?t = "timeFromVersion (km_version md)"
  define f1 where "f1 = snd (removeIfExists e ?del True f)"
  define f2 where "f2 = snd (fl_set_modified_time ?fl ?tmp ?t f1)"
  define f3 where "f3 = snd (fl_rename ?fl ?tmp ?del f2)"
  define f4 where "f4 = snd (removeIfExists e ?cur False f3)"
  let ?st = "stat_of ?fl"
  have s1: "?st f1 = (?st f)(?del := None)" and d1: "fst (removeIfExists e ?del True f) = entry_digest e True (?st f ?del)"
    unfolding f1_def using removeIfExists_stat [OF assms(1)] by simp_all
  have e1: "?st f1 ?tmp = Some (t0, n)" using assms(3) by (simp add: s1)
  have s2: "?st f2 = (?st f1)(?tmp \<mapsto> (?t, n))" and ok2: "fst (fl_set_modified_time ?fl ?tmp ?t f1)"
    unfolding f2_def using path_laws_time [OF assms(1), of ?tmp ?t f1] e1 by (auto simp: stat_of_def split: if_splits)
  have s3: "?st f3 = (?st f2)(?del \<mapsto> (?t, n), ?tmp := None)" and ok3: "fst (fl_rename ?fl ?tmp ?del f2)"
    unfolding f3_def using path_laws_rename [OF assms(1), of ?tmp ?del f2] by (auto simp: stat_exists s2)
  have s4: "?st f4 = (?st f3)(?cur := None)" and d4: "fst (removeIfExists e ?cur False f3) = entry_digest e False (?st f ?cur)"
    unfolding f4_def using removeIfExists_stat [OF assms(1)] by (simp_all add: s3 s2 s1)
  have "sf_onWriteComplete e name md f = (True, md\<lparr>km_digest := km_digest md XOR entry_digest e False (?st f ?cur)
      XOR entry_digest e True (?st f ?del)\<rparr>, f4)"
    using assms(2,4) ok2 ok3 d4 d1
    by (simp add: assms(5) [symmetric] sf_onWriteComplete_def onDeleteComplete_def Let_def case_prod_beta f1_def [symmetric]
        f2_def [symmetric] f3_def [symmetric] f4_def [symmetric])
  moreover have "?st f4 = (?st f)(?tmp := None, ?del \<mapsto> (?t, n), ?cur := None)"
    by (auto simp: s4 s3 s2 s1 fun_eq_iff)
  ultimately show ?thesis by blast
qed

section \<open>An instance, and helper facts\<close>

definition sec_clock :: "u64 \<Rightarrow> vclock" where
  "sec_clock t = [\<lparr>ck_key = ''sec'', ck_time = t, ck_count = 0\<rparr>]"

text \<open>Merging keeps the newer of two clocks of one key.\<close>

definition merges_newer :: "vc_lib \<Rightarrow> bool" where
  "merges_newer vl \<longleftrightarrow> (\<forall>c. vl_merge vl [] [c] = [c])
     \<and> (\<forall>k a b. a < b \<longrightarrow> vl_merge vl [\<lparr>ck_key = k, ck_time = a, ck_count = 0\<rparr>] [\<lparr>ck_key = k, ck_time = b, ck_count = 0\<rparr>]
          = [\<lparr>ck_key = k, ck_time = b, ck_count = 0\<rparr>])"

lemma merges_newer_ref_lib: "merges_newer ref_lib"
  by (auto simp: merges_newer_def ref_lib_def ref_merge_def clock_le_def)

text \<open>There are finitely many files: each one that is removed leaves fewer.\<close>

definition finite_files :: "'f file_lib \<Rightarrow> bool" where
  "finite_files fl \<longleftrightarrow> (\<exists>m :: 'f \<Rightarrow> nat. \<forall>p f. fst (fl_remove fl p f) \<longrightarrow> m (snd (fl_remove fl p f)) < m f)"

lemma finite_files_mem_lib: "finite_files mem_lib"
  unfolding finite_files_def
proof (intro exI allI impI)
  fix p f
  assume "fst (fl_remove mem_lib p f)"
  then have h: "ms_has p f" by (simp add: mem_lib_def split: if_splits)
  then obtain x where "x \<in> set (ms_files f)" "p = fst x" by (auto simp: ms_has_iff)
  then have "length (ms_files (ms_del p f)) < length (ms_files f)"
    unfolding ms_del_def AList.delete_eq by (auto intro!: length_filter_less)
  with h show "length (ms_files (snd (fl_remove mem_lib p f))) < length (ms_files f)" by (simp add: mem_lib_def)
qed

lemma remove_parents_returns:
  assumes "finite_files fl"
  shows "\<exists>f'. remove_parents fl path f = Some f'"
proof -
  obtain m where m: "\<And>p f. fst (fl_remove fl p f) \<Longrightarrow> m (snd (fl_remove fl p f)) < (m f :: nat)"
    using assms unfolding finite_files_def by blast
  show ?thesis
  proof (induction "m f" arbitrary: path f rule: less_induct)
    case less
    show ?case
    proof (cases "fst (fl_remove fl path f)")
      case True
      then show ?thesis
        using less [OF m [OF True]] by (subst remove_parents.simps) (simp add: case_prod_beta)
    next
      case False
      then show ?thesis by (subst remove_parents.simps) (simp add: case_prod_beta)
    qed
  qed
qed

text \<open>
  The marker of a deleted key with a directory in its name: \<^verbatim>\<open>enumerate\<close> reports it as a key of its own, with a
  version that is not a deletion.
\<close>

lemma nested_marker_is_listed_as_key:
  assumes "starts_single (se_vl e)" "\<not> has_prefix ''.deleted.'' (dir @ ''/.deleted.'' @ n)"
  shows "\<exists>md report. file_entry e (se_home e @ ''/'' @ dir @ ''/.deleted.'' @ n) f = Inr (dir @ ''/.deleted.'' @ n, md, report)
           \<and> \<not> isDeleted (km_version md)"
proof -
  let ?p = "se_home e @ ''/'' @ dir @ ''/.deleted.'' @ n"
  have "contains_str (se_home e) ?p"
    unfolding contains_str_def list_ex_iff by (rule bexI [where x = 0]) simp_all
  moreover have "substr_from (length (se_home e) + 1) ?p = Inr (dir @ ''/.deleted.'' @ n)"
    by (simp add: substr_from_def)
  ultimately show ?thesis
    using assms by (simp add: file_entry_def Let_def lookupVersion_def vc_increment_at_def starts_single_def isDeleted_def)
qed

definition simple_state :: mem_fs where
  "simple_state = \<lparr>ms_files = [(''/h/k'', \<lparr>mf_data = ''ab'', mf_time = 5, mf_attr = []\<rparr>),
     (''/h/.k~'', \<lparr>mf_data = ''abc'', mf_time = 9, mf_attr = []\<rparr>)], ms_open = [], ms_now = 9\<rparr>"

definition write_md :: key_metadata where
  "write_md = KeyMetadata\<lparr>km_version := stamped ref_lib False 10,
     km_digest := ws_digest plain_env (vc_toString ref_lib (stamped ref_lib False 10)) 3\<rparr>"

lemma paths_of_k:
  "fp_current (sf_filepath mem_env ''k'') = ''/h/k''" "fp_inprogress (sf_filepath mem_env ''k'') = ''/h/.k~''"
  "fp_deleted (sf_filepath mem_env ''k'') = ''/h/.deleted.k''" "fp_reserve (sf_filepath mem_env ''k'') = ''/h/.k~~''"
  by (simp_all add: sf_filepath_def FilePaths_def mem_env_def mem_lib_def mem_parent_def mem_filename_def
      fp_current_def fp_inprogress_def fp_deleted_def fp_reserve_def)

lemma simple_stat:
  "stat_of mem_lib simple_state ''/h/k'' = Some (5, 2)" "stat_of mem_lib simple_state ''/h/.k~'' = Some (9, 3)"
  "stat_of mem_lib simple_state ''/h/.deleted.k'' = None" "stat_of mem_lib simple_state ''/h/.k~~'' = None"
  by (simp_all add: stat_of_def mem_lib_def simple_state_def ms_has_def ms_file_def)

section \<open>Properties\<close>

text \<open>
  C35. Refinement: a write or a deletion of any version that completes and is not outdated leaves exactly one entry of the
  key, with the time of its version: the content for a write, the marker for a deletion, and nothing in
  progress; other files keep their time and size. To the digest of the version it adds the digests of the entries that are
  replaced, no more and no less; so what is handed on is the change of the digest of the key exactly if the digest it was
  given is the one that the store computes of the new entry, from its time. An outdated one loses what was in progress, and nothing else.
\<close>

theorem simple_completion:
  assumes "path_laws (se_files e)" "p = sf_filepath e name" "del = isDeleted (km_version md)" "t = timeFromVersion (km_version md)"
    "stat_of (se_files e) f (fp_inprogress p) = Some (t0, n)" "stat_of (se_files e) f (fp_reserve p) = None"
  shows "\<exists>f'. if testIfVersionGreater e (km_version md) (if del then fp_current p else fp_deleted p) f
    then sf_onWriteComplete e name md f = (True, md\<lparr>km_digest := km_digest md XOR simple_digest e name f\<rparr>, f')
      \<and> stat_of (se_files e) f' = (stat_of (se_files e) f)(fp_inprogress p := None,
           fp_current p := (if del then None else Some (t, n)), fp_deleted p := (if del then Some (t, n) else None))
      \<and> (simple_digest e name f' = simple_digest e name f XOR (km_digest md XOR simple_digest e name f)
          \<longleftrightarrow> km_digest md = ws_digest (se_hash e) (vc_toString (se_vl e) (stamped (se_vl e) del t)) n)
    else sf_onWriteComplete e name md f = (False, md, f') \<and> stat_of (se_files e) f' = (stat_of (se_files e) f)(fp_inprogress p := None)"
proof (cases "testIfVersionGreater e (km_version md) (if del then fp_current p else fp_deleted p) f")
  case True
  let ?D = "\<lambda>f. entry_digest e False (stat_of (se_files e) f (fp_current p)) XOR entry_digest e True (stat_of (se_files e) f (fp_deleted p))"
  have sd: "simple_digest e name f = ?D f" for f by (simp add: simple_digest_def assms(2) [symmetric] Let_def)
  have "\<exists>f'. sf_onWriteComplete e name md f = (True, md\<lparr>km_digest := km_digest md XOR ?D f\<rparr>, f')
    \<and> stat_of (se_files e) f' = (stat_of (se_files e) f)(fp_inprogress p := None,
         fp_current p := (if del then None else Some (t, n)), fp_deleted p := (if del then Some (t, n) else None))"
  proof (cases del)
    case True
    then show ?thesis
      using delete_completion [OF assms(1) _ assms(5) _ assms(2), where md = md] assms(3,4) \<open>testIfVersionGreater e _ _ f\<close>
      by (simp add: xor.assoc fun_upd_twist)
  next
    case False
    then show ?thesis
      using write_completion [OF assms(1) _ assms(5,6) _ assms(2), where md = md] assms(3,4) \<open>testIfVersionGreater e _ _ f\<close>
      by (simp add: xor.assoc)
  qed
  then obtain f' where f': "sf_onWriteComplete e name md f = (True, md\<lparr>km_digest := km_digest md XOR ?D f\<rparr>, f')"
      "stat_of (se_files e) f' = (stat_of (se_files e) f)(fp_inprogress p := None,
         fp_current p := (if del then None else Some (t, n)), fp_deleted p := (if del then Some (t, n) else None))"
    by blast
  have "?D f' = ws_digest (se_hash e) (vc_toString (se_vl e) (stamped (se_vl e) del t)) n"
    by (cases del) (simp_all add: f'(2) entry_digest_def)
  then have "simple_digest e name f' = simple_digest e name f XOR (km_digest md XOR simple_digest e name f)
      \<longleftrightarrow> km_digest md = ws_digest (se_hash e) (vc_toString (se_vl e) (stamped (se_vl e) del t)) n"
    unfolding sd by (simp add: xor.left_commute) metis
  with f' True show ?thesis unfolding sd by auto
next
  case False
  have "sf_onWriteComplete e name md f = (False, md, snd (fl_remove (se_files e) (fp_inprogress p) f))"
    using False assms(2,3) by (auto simp: sf_onWriteComplete_def onDeleteComplete_def Let_def split: if_splits)
  then show ?thesis using False path_laws_remove [OF assms(1), of "fp_inprogress p" f] by auto
qed

theorem simple_completion_witness:
  "\<exists>f'. sf_onWriteComplete mem_env ''k'' write_md simple_state
      = (True, write_md\<lparr>km_digest := km_digest write_md XOR simple_digest mem_env ''k'' simple_state\<rparr>, f')
    \<and> stat_of mem_lib f' = (stat_of mem_lib simple_state)(''/h/.k~'' := None, ''/h/k'' := Some (10, 3), ''/h/.deleted.k'' := None)
    \<and> simple_digest mem_env ''k'' f' = simple_digest mem_env ''k'' simple_state
        XOR (km_digest write_md XOR simple_digest mem_env ''k'' simple_state)"
proof -
  let ?p = "sf_filepath mem_env ''k''"
  have l: "path_laws (se_files mem_env)" "se_files mem_env = mem_lib" by (simp_all add: mem_env_def path_laws_mem_lib)
  have v: "isDeleted (km_version write_md) = False" "timeFromVersion (km_version write_md) = 10"
    using stamped_facts [OF increments_front_ref_lib starts_at_time_ref_lib starts_single_ref_lib, of False 10]
    by (simp_all add: write_md_def)
  have f: "stat_of (se_files mem_env) simple_state (fp_inprogress ?p) = Some (9, 3)"
      "stat_of (se_files mem_env) simple_state (fp_reserve ?p) = None"
    by (simp_all add: paths_of_k simple_stat l)
  have g: "testIfVersionGreater mem_env (km_version write_md) (fp_deleted ?p) simple_state"
    by (simp add: testIfVersionGreater_def paths_of_k stat_exists simple_stat l)
  have d: "km_digest write_md = ws_digest (se_hash mem_env) (vc_toString (se_vl mem_env) (stamped (se_vl mem_env) False 10)) 3"
    by (simp add: write_md_def mem_env_def)
  show ?thesis
    using simple_completion [OF l(1) refl v [symmetric] f] g d unfolding paths_of_k l(2) by simp
qed

text \<open>
  The digest of a deletion as \<^verbatim>\<open>DeleteCommand\<close> makes it, whose marker is younger than the version it deletes, is not
  the one of the entry that is stored, whose two times are the same; so the trees keep a digest that the store does not have.
\<close>

lemma ordinary_deletion_has_another_text:
  assumes "c < t"
  shows "markDeleted_at ref_lib t (sec_clock c) \<noteq> stamped ref_lib True (timeFromVersion (markDeleted_at ref_lib t (sec_clock c)))"
  using assms
  by (simp add: markDeleted_at_def stamped_def vc_increment_at_def sec_clock_def ref_lib_def ref_increment_def timeFromVersion_def)

text \<open>
  While a write is in progress, a reader who asks for the newest version is told the version of the
  unfinished file together with the content of the old one, and a reader who asks for the version
  that is stored gets nothing.
\<close>

theorem read_labels_unfinished_version:
  assumes "starts_single (se_vl e)" "merges_newer (se_vl e)" "time_codec (se_vl e)" "vl_count (se_vl e) 0 = 0"
    "p = sf_filepath e name" "stat_of (se_files e) f (fp_current p) = Some (c, n)"
    "stat_of (se_files e) f (fp_deleted p) = None" "stat_of (se_files e) f (fp_inprogress p) = Some (t, k)" "c < t"
    "vl_compare (se_vl e) (sec_clock c) (sec_clock t) = LESS_THAN"
  shows "(\<exists>rs f'. sf_read e name [] f = Inr (rs, f') \<and> km_version (rs_md rs) = sec_clock t
           \<and> rs_reader rs = Some (fst (FileReader (fl_sys (se_files e)) (fp_current p) 0 f)))
       \<and> sf_read e name (vc_toString (se_vl e) (sec_clock c)) f = Inr (readstream_none, f)"
proof -
  have look: "lookupVersion e q False f = sec_clock (fl_modified_time (se_files e) q f)" for q
    using assms(1) by (simp add: lookupVersion_def vc_increment_at_def starts_single_def sec_clock_def)
  have vs: "sf_versions e name True f = [vc_toString (se_vl e) (sec_clock c), vc_toString (se_vl e) (sec_clock t)]"
    using assms(6-8) by (auto simp: sf_versions_def assms(5) [symmetric] look stat_of_def split: if_splits)
  have rt: "vc_fromString (se_vl e) (vc_toString (se_vl e) (sec_clock u)) [] = Inr (True, sec_clock u)" for u
    using assms(3,4) by (intro fromString_toString) (auto simp: sec_clock_def printable_clock_def is_space_def)
  have merged: "sf_mergedVersion e name True f = Inr (sec_clock t)"
    using assms(2,9) by (simp add: sf_mergedVersion_def vs rt) (simp add: merges_newer_def sec_clock_def)
  have nd: "\<not> isDeleted (sec_clock t)" by (simp add: isDeleted_def sec_clock_def)
  have ne: "vc_toString (se_vl e) (sec_clock c) \<noteq> []" by (simp add: vc_toString_def)
  have "sf_read e name (vc_toString (se_vl e) (sec_clock c)) f = Inr (readstream_none, f)"
    using assms(10) ne by (simp add: sf_read_def merged rt)
  moreover have "\<exists>rs f'. sf_read e name [] f = Inr (rs, f') \<and> km_version (rs_md rs) = sec_clock t
           \<and> rs_reader rs = Some (fst (FileReader (fl_sys (se_files e)) (fp_current p) 0 f))"
    using nd by (simp add: sf_read_def merged assms(5) [symmetric] Let_def case_prod_beta)
  ultimately show ?thesis by blast
qed

theorem read_labels_unfinished_version_witness:
  "(\<exists>rs f'. sf_read mem_env ''k'' [] simple_state = Inr (rs, f') \<and> km_version (rs_md rs) = sec_clock 9
           \<and> rs_reader rs = Some (fst (FileReader (fl_sys (se_files mem_env)) ''/h/k'' 0 simple_state)))
       \<and> sf_read mem_env ''k'' (vc_toString (se_vl mem_env) (sec_clock 5)) simple_state = Inr (readstream_none, simple_state)"
  using read_labels_unfinished_version [of mem_env _ "''k''" simple_state 5 2 9 3]
  by (simp add: starts_single_ref_lib merges_newer_ref_lib time_codec_ref_lib paths_of_k simple_stat)
    (simp add: ref_lib_def ref_compare_def vclock_le_def clock_le_def sec_clock_def)

text \<open>
  Removing a key always returns: the loop that removes the directories above it, as long as they
  can be removed, ends in every file system of finitely many entries.
\<close>

lemma remove_returns:
  assumes "finite_files (se_files e)"
  shows "\<exists>r f'. sf_remove e name f = Some (r, f')"
  using remove_parents_returns [OF assms]
  by (simp add: sf_remove_def Let_def case_prod_beta)

end
