(* ===== verification/Sync.thy ===== *)
theory Sync
  imports Requests
begin

text \<open>
  Repairing differences between replicas: \<^verbatim>\<open>deskew/SkewCorrector\<close>, \<^verbatim>\<open>deskew/Synchronizer\<close> and the
  commands between peers that drive them (sync, key request, offer, demand and acknowledge). What is
  sent is a list of calls to the message sender. Log lines are left out.
\<close>

section \<open>The store as SkewCorrector sees it\<close>

text \<open>
  The operations of \<^verbatim>\<open>IStore\<close> that are used here; a reader is what \<^verbatim>\<open>readstream\<close> reports of the
  stored entry, None when the stream is not good.
\<close>

record stored =
  sd_size :: u64
  sd_mirrors :: u16

record 's store_ops =
  so_read :: "string \<Rightarrow> string \<Rightarrow> 's \<Rightarrow> stored option"
  so_exists :: "string \<Rightarrow> string \<Rightarrow> 's \<Rightarrow> bool"
  so_versions :: "string \<Rightarrow> 's \<Rightarrow> string list"
  so_isExpired :: "string \<Rightarrow> 's \<Rightarrow> bool"
  so_remove :: "string \<Rightarrow> 's \<Rightarrow> bool \<times> 's"

text \<open>
  The state the corrector acts on: the store, the messages sent so far, and \<open>wo_ctx\<close> for what the
  callbacks and the write supervisor reach.
\<close>

record ('s, 'c) world =
  wo_store :: 's
  wo_sent :: "sender_call list"
  wo_ctx :: 'c

definition post :: "sender_call \<Rightarrow> ('s, 'c) world \<Rightarrow> ('s, 'c) world" where
  "post c w = w\<lparr>wo_sent := wo_sent w @ [c]\<rparr>"

text \<open>
  \<open>on_drop\<close> is \<^verbatim>\<open>when_drop_finishes\<close>, \<open>find_tree\<close> is \<^verbatim>\<open>find\<close> of the tabulator, and \<open>supervise\<close> is
  \<^verbatim>\<open>ISuperviseWrites::store\<close> for a whole entry.
\<close>

record ('s, 'c, 'mt) skew_env =
  sk_ops :: "'s store_ops"
  sk_merkle :: "'mt merkle_lib"
  sk_find_tree :: "tree_id \<Rightarrow> 'mt digest_tree"
  sk_on_drop :: "(drop_req \<Rightarrow> 'c \<Rightarrow> 'c) option"
  sk_supervise :: "peer \<Rightarrow> write_instructions \<Rightarrow> 's \<Rightarrow> 'c \<Rightarrow> bool \<times> 'c"

section \<open>SkewCorrector\<close>

definition dropKey :: "('s, 'c, 'mt) skew_env \<Rightarrow> string \<Rightarrow> ('s, 'c) world \<Rightarrow> bool \<times> ('s, 'c) world" where
  "dropKey ev name w =
     (case so_read (sk_ops ev) name [] (wo_store w) of
        None \<Rightarrow> (False, w)
      | Some reader \<Rightarrow>
          (let (removed, st) = so_remove (sk_ops ev) name (wo_store w); w = w\<lparr>wo_store := st\<rparr>
           in if \<not> removed then (False, w)
              else (case sk_on_drop ev of
                      None \<Rightarrow> (True, w)
                    | Some onDrop \<Rightarrow>
                        (True, w\<lparr>wo_ctx := onDrop \<lparr>dq_name = name, dq_copies = sd_mirrors reader\<rparr> (wo_ctx w)\<rparr>))))"

definition push_file :: "('s, 'c, 'mt) skew_env \<Rightarrow> peer \<Rightarrow> string \<Rightarrow> string \<Rightarrow> ('s, 'c) world \<Rightarrow> ('s, 'c) world" where
  "push_file ev peer offloadFrom file w =
     (let versions = so_versions (sk_ops ev) file (wo_store w)
      in if length versions = 1 \<and> so_isExpired (sk_ops ev) (hd versions) (wo_store w)
         then snd (dropKey ev file w)
         else fold (\<lambda>version. post (OfferWrite peer file version offloadFrom)) versions w)"

text \<open>\<^verbatim>\<open>enumerate\<close> is called with its default limit of 50.\<close>

definition pushKeyRange :: "('s, 'c, 'mt) skew_env \<Rightarrow> peer \<Rightarrow> tree_id \<Rightarrow> u64 \<Rightarrow> u64 \<Rightarrow> string
    \<Rightarrow> ('s, 'c) world \<Rightarrow> ('s, 'c) world" where
  "pushKeyRange ev peer treeid first final offloadFrom w =
     (let files = dt_enumerate (sk_merkle ev) first final 50 (sk_find_tree ev treeid)
      in if files = [] then w else fold (push_file ev peer offloadFrom) files w)"

definition pushKey :: "('s, 'c, 'mt) skew_env \<Rightarrow> peer \<Rightarrow> tree_id \<Rightarrow> u64 \<Rightarrow> ('s, 'c) world \<Rightarrow> ('s, 'c) world" where
  "pushKey ev peer treeid key w = pushKeyRange ev peer treeid key key [] w"

definition sendKey :: "('s, 'c, 'mt) skew_env \<Rightarrow> peer \<Rightarrow> string \<Rightarrow> string \<Rightarrow> string
    \<Rightarrow> ('s, 'c) world \<Rightarrow> bool \<times> ('s, 'c) world" where
  "sendKey ev peer name version source w =
     (case so_read (sk_ops ev) name version (wo_store w) of
        None \<Rightarrow> (False, w)
      | Some reader \<Rightarrow>
          (let totalCopies = sd_mirrors reader;
               write = WriteInstructions\<lparr>wr_name := name, wr_copies := totalCopies, wr_mirror := totalCopies,
                        wr_version := version, wr_source := source, wi_isComplete := True\<rparr>;
               (ok, ctx) = sk_supervise ev peer write (wo_store w) (wo_ctx w)
           in (ok, w\<lparr>wo_ctx := ctx\<rparr>)))"

section \<open>Synchronizer\<close>

text \<open>
  The peers are found with \<open>lookup\<close>; \<open>rnd\<close> gives the random number for a list of the length it is
  asked for.
\<close>

function randomPeerFromList :: "(string \<Rightarrow> 'p option) \<Rightarrow> (nat \<Rightarrow> nat) \<Rightarrow> string list \<Rightarrow> 'p option" where
  "randomPeerFromList lookup rnd locs =
     (if locs = [] then None
      else let i = rnd (length locs) mod length locs
           in case lookup (locs ! i) of
                Some peer \<Rightarrow> Some peer
              | None \<Rightarrow> randomPeerFromList lookup rnd (take i locs @ drop (Suc i) locs))"
  by pat_completeness auto
termination
proof (relation "measure (\<lambda>(_, _, locs). length locs)")
  fix locs :: "string list" and i rnd lookup
  assume "locs \<noteq> []" "i = rnd (length locs) mod length locs"
  then have "i < length locs" by simp
  then show "((lookup, rnd, take i locs @ drop (Suc i) locs), lookup, rnd, locs)
      \<in> measure (\<lambda>(_, _, locs). length locs)" by simp
qed simp

declare randomPeerFromList.simps [simp del]

text \<open>\<open>tree\<close> is the random tree of the tabulator, \<open>random\<close> the random peer of the membership.\<close>

definition pingRandomPeer :: "'mt merkle_lib \<Rightarrow> 'm circ_lib \<Rightarrow> 'm \<Rightarrow> (string \<Rightarrow> peer option) \<Rightarrow> peer option
    \<Rightarrow> (nat \<Rightarrow> nat) \<Rightarrow> 'mt digest_tree \<Rightarrow> ('s, 'c) world \<Rightarrow> ('s, 'c) world" where
  "pingRandomPeer ml lib ring lookup random rnd tree w =
     (let locations = ring_locations lib ring (fromHash (ti_id (dt_id tree))) (unat (ti_mirrors (dt_id tree)));
          peer = (if locations = [] then random else randomPeerFromList lookup rnd locations)
      in case peer of
           None \<Rightarrow> w
         | Some peer \<Rightarrow> post (DigestPing peer (dt_id tree) (dt_top ml tree)) w)"

text \<open>\<open>tree\<close> is an unwanted tree; \<open>self\<close> is this member, which exists once the membership is loaded.\<close>

definition offloadUnwantedKeys :: "('s, 'c, 'mt) skew_env \<Rightarrow> 'm circ_lib \<Rightarrow> 'm \<Rightarrow> (string \<Rightarrow> peer option)
    \<Rightarrow> (nat \<Rightarrow> nat) \<Rightarrow> peer \<Rightarrow> 'mt digest_tree \<Rightarrow> ('s, 'c) world \<Rightarrow> ('s, 'c) world" where
  "offloadUnwantedKeys ev lib ring lookup rnd self tree w =
     (if dt_empty (sk_merkle ev) tree then w
      else let locations = ring_locations lib ring (fromHash (ti_id (dt_id tree))) (unat (ti_mirrors (dt_id tree)))
           in if locations = [] then w
              else case randomPeerFromList lookup rnd locations of
                     None \<Rightarrow> w
                   | Some peer \<Rightarrow> pushKeyRange ev peer (dt_id tree) 0 (NOT 0) (pr_uid self) w)"

text \<open>
  The ranges asked for when part of a range is needed. The comparisons are of the integers, in the
  byte order of the host.
\<close>

definition partial_requests :: "key_range \<Rightarrow> key_range \<Rightarrow> (u64 \<times> u64) list" where
  "partial_requests outer inner =
     (if kr_first outer > kr_first inner \<or> kr_first inner > kr_last outer
         \<or> (kr_first outer = kr_first inner \<and> kr_last outer = kr_last inner)
      then [(kr_first outer, kr_last outer)]
      else (if kr_first outer < kr_first inner then [(kr_first outer, kr_first inner)] else [])
         @ (if kr_last inner < kr_last outer then [(kr_last inner, kr_last outer)] else []))"

definition compare :: "('s, 'c, 'mt) skew_env \<Rightarrow> peer \<Rightarrow> tree_id \<Rightarrow> merkle_point \<Rightarrow> bool
    \<Rightarrow> ('s, 'c) world \<Rightarrow> ('s, 'c) world" where
  "compare ev peer treeid point isSyncResponse w =
     (let tree = sk_find_tree ev treeid
      in if point = mk_null (sk_merkle ev)
         then (if dt_empty (sk_merkle ev) tree then w
               else pushKeyRange ev peer treeid 0 (NOT 0) [] w)
         else
           (let diffs = dt_diff (sk_merkle ev) point tree
            in if dr_no_difference diffs then w
               else if dr_traverse diffs then
                 post (DigestPings peer treeid
                   (if isSyncResponse then butlast (dr_points diffs) else dr_points diffs)) w
               else if dr_need_range diffs then
                 (let range = fromLocation point
                  in post (RequestKeyRange peer treeid (kr_first range) (kr_last range)) w)
               else if dr_need_partial_range diffs then
                 fold (\<lambda>r. post (RequestKeyRange peer treeid (fst r) (snd r)))
                   (partial_requests (fromLocation point) (fromLocation (hd (dr_points diffs)))) w
               else if dr_need_exchange diffs then
                 (let key = mp_key (hd (dr_points diffs))
                  in pushKey ev peer treeid key (post (RequestKey peer treeid key) w))
               else w))"

section \<open>The commands between peers\<close>

text \<open>\<open>kw\<close> is the width of \<^verbatim>\<open>keybits\<close>; \<open>blank\<close> is a location as \<^verbatim>\<open>MerklePoint point;\<close> leaves it.\<close>

fun sync_points :: "('s, 'c, 'mt) skew_env \<Rightarrow> nat \<Rightarrow> merkle_point \<Rightarrow> peer \<Rightarrow> tree_id \<Rightarrow> nat \<Rightarrow> string list
    \<Rightarrow> ('s, 'c) world \<Rightarrow> bool \<times> ('s, 'c) world" where
  "sync_points ev kw blank peer treeid i [] w = (True, w)"
| "sync_points ev kw blank peer treeid i (p # ps) w =
     (let (ok, point) = mp_fromString kw blank p
      in if \<not> ok then (False, w)
         else sync_points ev kw blank peer treeid (Suc i) ps (compare ev peer treeid point (i \<ge> 2) w))"

definition SyncCommand_run :: "('s, 'c, 'mt) skew_env \<Rightarrow> str_lib \<Rightarrow> nat \<Rightarrow> merkle_point \<Rightarrow> peer \<Rightarrow> tree_id
    \<Rightarrow> bytes \<Rightarrow> ('s, 'c) world \<Rightarrow> bool \<times> ('s, 'c) world" where
  "SyncCommand_run ev sl kw blank peer params buff w =
     (if buff = [] then (False, w)
      else sync_points ev kw blank peer params 0 (sl_split sl buff (CHR ''|'')) w)"

definition KeyRequestCommand_run :: "('s, 'c, 'mt) skew_env \<Rightarrow> peer \<Rightarrow> key_req
    \<Rightarrow> ('s, 'c) world \<Rightarrow> bool \<times> ('s, 'c) world" where
  "KeyRequestCommand_run ev peer params w =
     (True, pushKeyRange ev peer (kq_tree params) (kq_first params) (kq_last params) [] w)"

definition OfferWriteCommand_run :: "('s, 'c, 'mt) skew_env \<Rightarrow> peer \<Rightarrow> offer_req
    \<Rightarrow> ('s, 'c) world \<Rightarrow> bool \<times> ('s, 'c) world" where
  "OfferWriteCommand_run ev peer params w =
     (if \<not> so_exists (sk_ops ev) (of_name params) (of_version params) (wo_store w)
      then (True, post (DemandWrite peer (of_name params) (of_version params) (of_source params)) w)
      else (False, w))"

definition DemandWriteCommand_run :: "('s, 'c, 'mt) skew_env \<Rightarrow> peer \<Rightarrow> offer_req
    \<Rightarrow> ('s, 'c) world \<Rightarrow> bool \<times> ('s, 'c) world" where
  "DemandWriteCommand_run ev peer params w =
     (if of_name params = [] then (False, w)
      else (True, snd (sendKey ev peer (of_name params) (of_version params) (of_source params) w)))"

text \<open>\<open>mine\<close> is \<^verbatim>\<open>keyIsMine\<close> of the locator.\<close>

definition AckWriteCommand_run :: "('s, 'c, 'mt) skew_env \<Rightarrow> (string \<Rightarrow> nat \<Rightarrow> bool) \<Rightarrow> ack_req
    \<Rightarrow> ('s, 'c) world \<Rightarrow> bool \<times> ('s, 'c) world" where
  "AckWriteCommand_run ev mine params w =
     (case so_read (sk_ops ev) (ak_name params) (ak_version params) (wo_store w) of
        None \<Rightarrow> (False, w)
      | Some reader \<Rightarrow>
          if sd_size reader \<noteq> ak_size params then (False, w)
          else if \<not> mine (ak_name params) (unat (sd_mirrors reader))
               then (True, snd (dropKey ev (ak_name params) w))
               else (True, w))"

section \<open>Ranges in host order\<close>

text \<open>The bits of the ends of a range, in the order of the bytes.\<close>

lemma fromLocation_bits:
  "bit (bswap64 (kr_first (fromLocation p))) n
     \<longleftrightarrow> n < 64 \<and> 64 - mp_keybits p \<le> n \<and> bit (bswap64 (mp_key p)) n"
  "bit (bswap64 (kr_last (fromLocation p))) n
     \<longleftrightarrow> n < 64 \<and> (n < 64 - mp_keybits p \<or> bit (bswap64 (mp_key p)) n)"
proof -
  consider "mp_keybits p \<ge> 64" | "mp_keybits p = 0" | "0 < mp_keybits p" "mp_keybits p < 64"
    by linarith
  then have "(bit (bswap64 (kr_first (fromLocation p))) n
       \<longleftrightarrow> n < 64 \<and> 64 - mp_keybits p \<le> n \<and> bit (bswap64 (mp_key p)) n)
    \<and> (bit (bswap64 (kr_last (fromLocation p))) n
       \<longleftrightarrow> n < 64 \<and> (n < 64 - mp_keybits p \<or> bit (bswap64 (mp_key p)) n))"
  proof cases
    case 1
    then show ?thesis by (auto simp: fromLocation_def bit_bswap64)
  next
    case 2
    then show ?thesis by (auto simp: fromLocation_def)
  next
    case 3
    then show ?thesis
      by (auto simp: fromLocation_def Let_def drop_bit_all_ones bit_xor_iff bit_push_bit_iff
          bit_drop_bit_eq bit_mask_iff bit_bswap64)
  qed
  then show "bit (bswap64 (kr_first (fromLocation p))) n
       \<longleftrightarrow> n < 64 \<and> 64 - mp_keybits p \<le> n \<and> bit (bswap64 (mp_key p)) n"
    "bit (bswap64 (kr_last (fromLocation p))) n
       \<longleftrightarrow> n < 64 \<and> (n < 64 - mp_keybits p \<or> bit (bswap64 (mp_key p)) n)" by simp_all
qed

lemma same_prefix_bit:
  assumes "same_prefix n a b" "64 - n \<le> i" "i < 64"
  shows "bit (bswap64 a) i = bit (bswap64 b) i"
proof -
  have "bit (drop_bit (64 - n) (bswap64 a)) (i - (64 - n)) = bit (drop_bit (64 - n) (bswap64 b)) (i - (64 - n))"
    using assms(1) by (simp add: same_prefix_def)
  then show ?thesis using assms(2) by (simp add: bit_drop_bit_eq)
qed

lemma le_if_bits:
  fixes a b :: u64
  assumes "\<forall>n < 64. bit a n \<longrightarrow> bit b n"
  shows "a \<le> b"
proof -
  have "a = a AND b" using assms by (intro bit_word_eqI) (auto simp: bit_and_iff)
  then show ?thesis by (metis word_and_le1)
qed

lemma le_if_swapped_bits:
  fixes a b :: u64
  assumes "\<forall>n < 64. bit (bswap64 a) n \<longrightarrow> bit (bswap64 b) n"
  shows "a \<le> b"
proof (rule le_if_bits, intro allI impI)
  fix n :: nat assume n: "n < 64" "bit a n"
  then have "bit (bswap64 a) (swap_pos n)" by (simp add: bit_bswap64 swap_pos_less swap_pos_swap_pos)
  then have "bit (bswap64 b) (swap_pos n)" using assms n(1) swap_pos_less by blast
  then show "bit b n" using n(1) by (simp add: bit_bswap64 swap_pos_swap_pos)
qed

definition nested :: "merkle_point \<Rightarrow> merkle_point \<Rightarrow> bool" where
  "nested p q \<longleftrightarrow> mp_keybits p \<le> mp_keybits q \<and> same_prefix (mp_keybits p) (mp_key p) (mp_key q)"

text \<open>For nested locations the comparisons of the host agree with those of the bytes.\<close>

lemma nested_host_order:
  assumes "nested p q"
  shows "kr_first (fromLocation p) \<le> kr_first (fromLocation q)"
    "kr_last (fromLocation q) \<le> kr_last (fromLocation p)"
    "kr_first (fromLocation q) \<le> kr_last (fromLocation p)"
proof -
  have le: "64 - mp_keybits q \<le> 64 - mp_keybits p" using assms by (auto simp: nested_def)
  have same: "n < 64 - mp_keybits p \<or> bit (bswap64 (mp_key p)) n = bit (bswap64 (mp_key q)) n" if "n < 64" for n
    using assms same_prefix_bit [of "mp_keybits p" "mp_key p" "mp_key q" n] that
    by (auto simp: nested_def not_less)
  show "kr_first (fromLocation p) \<le> kr_first (fromLocation q)"
    using le same by (intro le_if_swapped_bits) (fastforce simp: fromLocation_bits)
  show "kr_last (fromLocation q) \<le> kr_last (fromLocation p)"
    using le same by (intro le_if_swapped_bits) (fastforce simp: fromLocation_bits)
  show "kr_first (fromLocation q) \<le> kr_last (fromLocation p)"
    using le same by (intro le_if_swapped_bits) (fastforce simp: fromLocation_bits)
qed

lemma partial_requests_cover:
  assumes "nested p q" "in_range (kr_first (fromLocation p)) (kr_last (fromLocation p)) k"
    and "\<not> in_range (kr_first (fromLocation q)) (kr_last (fromLocation q)) k"
  obtains a b where "(a, b) \<in> set (partial_requests (fromLocation p) (fromLocation q))" "in_range a b k"
proof -
  let ?o = "fromLocation p" and ?i = "fromLocation q"
  note host = nested_host_order [OF assms(1)]
  have ne: "\<not> (kr_first ?o = kr_first ?i \<and> kr_last ?o = kr_last ?i)"
    using assms(2,3) by auto
  have req: "partial_requests ?o ?i = (if kr_first ?o < kr_first ?i then [(kr_first ?o, kr_first ?i)] else [])
         @ (if kr_last ?i < kr_last ?o then [(kr_last ?i, kr_last ?o)] else [])"
    using host ne by (auto simp: partial_requests_def not_less)
  have "bswap64 k < bswap64 (kr_first ?i) \<or> bswap64 (kr_last ?i) < bswap64 k"
    using assms(3) by (auto simp: in_range_def not_le)
  then show ?thesis
  proof
    assume k: "bswap64 k < bswap64 (kr_first ?i)"
    then have "kr_first ?o \<noteq> kr_first ?i" using assms(2) by (auto simp: in_range_def)
    then have "kr_first ?o < kr_first ?i" using host(1) by simp
    then show ?thesis using that [of "kr_first ?o" "kr_first ?i"] req k assms(2) by (simp add: in_range_def)
  next
    assume k: "bswap64 (kr_last ?i) < bswap64 k"
    then have "kr_last ?o \<noteq> kr_last ?i" using assms(2) by (auto simp: in_range_def)
    then have "kr_last ?i < kr_last ?o" using host(2) by simp
    then show ?thesis using that [of "kr_last ?i" "kr_last ?o"] req k assms(2) by (simp add: in_range_def)
  qed
qed

section \<open>Messages\<close>

lemma digit_not_bar: "is_digit c \<Longrightarrow> c \<noteq> CHR ''|''"
  by (auto simp: is_digit_def)

lemma mp_toString_word: "mp_toString p \<noteq> []" "CHR ''|'' \<notin> set (mp_toString p)"
  using show_dec_digits digit_not_bar by (auto simp: mp_toString_def)

lemma digest_text_join:
  assumes "splits_joins sl"
  shows "digest_text ps = sl_join sl (map mp_toString ps) (CHR ''|'')"
proof (induction ps rule: induct_list012)
  case 1
  then show ?case by (simp add: splits_joinsD [OF assms])
next
  case (2 p)
  then show ?case by (simp add: splits_joinsD [OF assms])
next
  case (3 p q ps)
  then show ?case by (simp add: splits_joinsD [OF assms])
qed

lemma split_digest_text:
  assumes "splits_joins sl" "ps \<noteq> []"
  shows "sl_split sl (digest_text ps) (CHR ''|'') = map mp_toString ps"
  unfolding digest_text_join [OF assms(1)]
  by (rule splits_joinsD(4) [OF assms(1)]) (use assms(2) mp_toString_word in auto)

text \<open>What the receiver does with the points, one after the other.\<close>

fun compare_points :: "('s, 'c, 'mt) skew_env \<Rightarrow> peer \<Rightarrow> tree_id \<Rightarrow> nat \<Rightarrow> merkle_point list
    \<Rightarrow> ('s, 'c) world \<Rightarrow> ('s, 'c) world" where
  "compare_points ev peer treeid i [] w = w"
| "compare_points ev peer treeid i (p # ps) w =
     compare_points ev peer treeid (Suc i) ps (compare ev peer treeid p (i \<ge> 2) w)"

lemma sync_points_printed:
  "\<forall>p \<in> set ps. mp_keybits p < 2 ^ kw \<Longrightarrow>
   sync_points ev kw blank peer treeid i (map mp_toString ps) w = (True, compare_points ev peer treeid i ps w)"
  by (induction ps arbitrary: i w) (simp_all add: mp_fromString_toString)

lemma fold_post:
  "fold (\<lambda>x. post (f x)) xs w = w\<lparr>wo_sent := wo_sent w @ map f xs\<rparr>"
  by (induction xs arbitrary: w) (simp_all add: post_def)

lemma nth_take_drop_set: "i < length xs \<Longrightarrow> set xs = insert (xs ! i) (set (take i xs @ drop (Suc i) xs))"
  by (subst id_take_nth_drop [of i xs]) auto

section \<open>Properties\<close>

text \<open>
  C32. Both sides of a sync talk about the same points: the text of a digest message, split and
  parsed by the receiver's command, is compared point by point as it was sent, for one point or
  many; no message a peer sends is rejected.
\<close>

theorem sync_message_is_understood:
  assumes "splits_joins sl" "ps \<noteq> []" "\<forall>p \<in> set ps. mp_keybits p < 2 ^ kw"
  shows "SyncCommand_run ev sl kw blank peer treeid (digest_text ps) w
    = (True, compare_points ev peer treeid 0 ps w)"
proof -
  have "digest_text ps \<noteq> []" using assms(2) mp_toString_word by (cases ps) auto
  then show ?thesis
    by (simp add: SyncCommand_run_def split_digest_text [OF assms(1,2)] sync_points_printed [OF assms(3)])
qed

text \<open>
  C33. A random owner is found if there is one: \<^verbatim>\<open>randomPeerFromList\<close> gives a known peer of the
  list whenever the membership knows any of them, whatever the random numbers, and NULL only when
  it knows none.
\<close>

theorem random_owner_is_found:
  "case randomPeerFromList lookup rnd locs of
     None \<Rightarrow> \<forall>uid \<in> set locs. lookup uid = None
   | Some peer \<Rightarrow> \<exists>uid \<in> set locs. lookup uid = Some peer"
proof (induction lookup rnd locs rule: randomPeerFromList.induct)
  case (1 lookup rnd locs)
  show ?case
  proof (cases "locs = []")
    case True
    then show ?thesis by (simp add: randomPeerFromList.simps)
  next
    case False
    let ?i = "rnd (length locs) mod length locs"
    have i: "?i < length locs" using False by simp
    show ?thesis
    proof (cases "lookup (locs ! ?i)")
      case None
      with 1 [OF False refl None] nth_take_drop_set [OF i] False show ?thesis
        by (subst randomPeerFromList.simps) (auto simp: Let_def split: option.splits)
    next
      case (Some peer)
      with False i show ?thesis by (subst randomPeerFromList.simps) (auto simp: Let_def)
    qed
  qed
qed

text \<open>
  C34. A partial request leaves nothing out: when our location lies inside the peer's, every key of
  the peer's range that is not in ours is in one of the ranges we ask for, although the code compares
  the ends as integers of the host and the ranges are in the order of the bytes.
\<close>

theorem partial_request_covers_difference:
  assumes "point \<noteq> mk_null (sk_merkle ev)" "dt_diff (sk_merkle ev) point (sk_find_tree ev treeid) = d"
    and "\<not> dr_no_difference d" "\<not> dr_traverse d" "\<not> dr_need_range d" "dr_need_partial_range d"
    and "nested point (hd (dr_points d))"
    and "in_range (kr_first (fromLocation point)) (kr_last (fromLocation point)) k"
    and "\<not> in_range (kr_first (fromLocation (hd (dr_points d)))) (kr_last (fromLocation (hd (dr_points d)))) k"
  shows "\<exists>a b. RequestKeyRange peer treeid a b \<in> set (wo_sent (compare ev peer treeid point resp w))
    \<and> in_range a b k"
proof -
  obtain a b where "(a, b) \<in> set (partial_requests (fromLocation point) (fromLocation (hd (dr_points d))))"
    "in_range a b k"
    by (rule partial_requests_cover [OF assms(7-9)])
  moreover have "wo_sent (compare ev peer treeid point resp w) = wo_sent w @
      map (\<lambda>r. RequestKeyRange peer treeid (fst r) (snd r))
        (partial_requests (fromLocation point) (fromLocation (hd (dr_points d))))"
    using assms(1-6) by (simp add: compare_def Let_def fold_post)
  ultimately show ?thesis by (intro exI [of _ a] exI [of _ b]) force
qed

text \<open>
  A partial request between unrelated locations may ask for nothing: with a point of the peer
  at the prefix 10 01 and ours at 01 02 (in the order of the bytes, so ours lies outside), the
  comparison of the integers takes ours for lying inside, and the only range asked for is empty,
  instead of the whole range of the peer as the comment has it.
\<close>

theorem unrelated_partial_request_is_empty:
  assumes "\<lparr>mp_key = 0x0110, mp_keybits = 16, mp_hash = h\<rparr> \<noteq> mk_null (sk_merkle ev)"
    and "dt_diff (sk_merkle ev) \<lparr>mp_key = 0x0110, mp_keybits = 16, mp_hash = h\<rparr> (sk_find_tree ev treeid) = d"
    and "\<not> dr_no_difference d" "\<not> dr_traverse d" "\<not> dr_need_range d" "dr_need_partial_range d"
    and "hd (dr_points d) = \<lparr>mp_key = 0x0201, mp_keybits = 16, mp_hash = h'\<rparr>"
  shows "wo_sent (compare ev peer treeid \<lparr>mp_key = 0x0110, mp_keybits = 16, mp_hash = h\<rparr> resp w)
      = wo_sent w @ [RequestKeyRange peer treeid 0x0110 0x0201]
    \<and> (\<forall>k. \<not> in_range 0x0110 0x0201 k)"
proof -
  have "partial_requests (fromLocation \<lparr>mp_key = 0x0110, mp_keybits = 16, mp_hash = h\<rparr>)
      (fromLocation \<lparr>mp_key = 0x0201, mp_keybits = 16, mp_hash = h'\<rparr>) = [(0x0110, 0x0201)]"
    by code_simp
  then have "wo_sent (compare ev peer treeid \<lparr>mp_key = 0x0110, mp_keybits = 16, mp_hash = h\<rparr> resp w)
      = wo_sent w @ [RequestKeyRange peer treeid 0x0110 0x0201]"
    using assms by (simp add: compare_def Let_def post_def)
  moreover have "bswap64 0x0201 < bswap64 0x0110" by code_simp
  then have "\<not> in_range 0x0110 0x0201 k" for k by (auto simp: in_range_def)
  ultimately show ?thesis by blast
qed

section \<open>Witnesses\<close>

text \<open>A tree whose \<^verbatim>\<open>diff\<close> asks for a partial range, with a given location of ours.\<close>

definition partial_merkle :: "merkle_point \<Rightarrow> (u64, u64 \<times> string) rbt merkle_lib" where
  "partial_merkle q = rbt_merkle\<lparr>mk_diff := (\<lambda>_ _. \<lparr>dr_points = [q], dr_no_difference = False,
     dr_traverse = False, dr_need_range = False, dr_need_partial_range = True, dr_need_exchange = False\<rparr>)\<rparr>"

definition idle_ops :: "unit store_ops" where
  "idle_ops = \<lparr>so_read = (\<lambda>_ _ _. None), so_exists = (\<lambda>_ _ _. False), so_versions = (\<lambda>_ _. []),
     so_isExpired = (\<lambda>_ _. False), so_remove = (\<lambda>_ s. (True, s))\<rparr>"

definition partial_env :: "merkle_point \<Rightarrow> (unit, unit, (u64, u64 \<times> string) rbt) skew_env" where
  "partial_env q = \<lparr>sk_ops = idle_ops, sk_merkle = partial_merkle q,
     sk_find_tree = (\<lambda>_. dt_null (partial_merkle q)), sk_on_drop = None, sk_supervise = (\<lambda>_ _ _ c. (True, c))\<rparr>"

definition no_world :: "(unit, unit) world" where
  "no_world = \<lparr>wo_store = (), wo_sent = [], wo_ctx = ()\<rparr>"

lemma partial_env_simps:
  "sk_merkle (partial_env q) = partial_merkle q" "mk_null (partial_merkle q) = \<lparr>mp_key = 0, mp_keybits = 0, mp_hash = 0\<rparr>"
  "dt_diff (partial_merkle q) p t = \<lparr>dr_points = [q], dr_no_difference = False,
     dr_traverse = False, dr_need_range = False, dr_need_partial_range = True, dr_need_exchange = False\<rparr>"
  by (simp_all add: partial_env_def partial_merkle_def rbt_merkle_def dt_diff_def)

lemma sync_message_is_understood_witness:
  "fst (SyncCommand_run (partial_env \<lparr>mp_key = 1, mp_keybits = 8, mp_hash = 1\<rparr>) list_str 16
     \<lparr>mp_key = 0, mp_keybits = 0, mp_hash = 0\<rparr> (Peer ''you'' []) TreeId_default
     (digest_text [\<lparr>mp_key = 7, mp_keybits = 8, mp_hash = 9\<rparr>, \<lparr>mp_key = 2, mp_keybits = 12, mp_hash = 4\<rparr>]) no_world)"
  by (subst sync_message_is_understood [OF splits_joins_list_str]) simp_all

lemma random_owner_is_found_witness:
  "\<exists>uid \<in> {''one'', ''two'', ''three''}.
     (\<lambda>u. if u = ''two'' then Some (2::nat) else None) uid
       = randomPeerFromList (\<lambda>u. if u = ''two'' then Some 2 else None) (\<lambda>n. n + 3) [''one'', ''two'', ''three'']"
  using random_owner_is_found [where lookup = "\<lambda>u. if u = ''two'' then Some (2::nat) else None" and rnd = "\<lambda>n. n + 3"
      and locs = "[''one'', ''two'', ''three'']"]
  by (auto split: option.splits)

lemma partial_request_covers_difference_witness:
  "\<exists>a b. RequestKeyRange (Peer ''you'' []) TreeId_default a b \<in> set (wo_sent
      (compare (partial_env \<lparr>mp_key = 0x0110, mp_keybits = 16, mp_hash = 0\<rparr>) (Peer ''you'' []) TreeId_default
        \<lparr>mp_key = 0x10, mp_keybits = 8, mp_hash = 1\<rparr> False no_world))
    \<and> in_range a b 0x0210"
  by (rule partial_request_covers_difference [where d = "\<lparr>dr_points = [\<lparr>mp_key = 0x0110, mp_keybits = 16, mp_hash = 0\<rparr>],
        dr_no_difference = False, dr_traverse = False, dr_need_range = False, dr_need_partial_range = True,
        dr_need_exchange = False\<rparr>"])
    (simp add: partial_env_simps, simp add: partial_env_simps, simp, simp, simp, simp, code_simp, code_simp, code_simp)

lemma unrelated_partial_request_is_empty_witness:
  "wo_sent (compare (partial_env \<lparr>mp_key = 0x0201, mp_keybits = 16, mp_hash = 0\<rparr>) (Peer ''you'' []) TreeId_default
      \<lparr>mp_key = 0x0110, mp_keybits = 16, mp_hash = 1\<rparr> False no_world)
    = [RequestKeyRange (Peer ''you'' []) TreeId_default 0x0110 0x0201]"
  using unrelated_partial_request_is_empty [where ev = "partial_env \<lparr>mp_key = 0x0201, mp_keybits = 16, mp_hash = 0\<rparr>"
      and h = 1 and h' = 0 and w = no_world and treeid = TreeId_default and peer = "Peer ''you'' []" and resp = False]
  by (simp add: partial_env_simps no_world_def)

end
