(* ===== verification/Commands.thy ===== *)
theory Commands
  imports SimpleStore Sync
begin

text \<open>
  The commands of users in \<^verbatim>\<open>api/\<close>: writing, copying, deleting, reading, listing, waiting, status and the
  two that change the membership. A command keeps its state between buffers; \<open>'f\<close> is the state of
  everything outside of it (files, sockets, trees), which the store and the callbacks change.
\<close>

section \<open>What commands use\<close>

text \<open>
  \<open>ce_write\<close> and \<open>ce_read\<close> are the operations of \<^verbatim>\<open>IStore\<close>; \<open>ce_local\<close> and \<open>ce_mirror\<close> the callbacks that
  \<^verbatim>\<open>Options\<close> holds for the end of a write. \<open>ce_status0\<close> is what \<^verbatim>\<open>StatusCode\<close> is constructed with.
  \<open>ce_behind\<close> is what lies in memory behind a buffer.
\<close>

type_synonym ('r, 'f) commit_hook =
  "write_instructions \<Rightarrow> 'r readstream \<Rightarrow> 'f \<Rightarrow> write_instructions \<times> 'r readstream \<times> 'f"

record ('w, 'r, 'f) cmd_env =
  ce_hash :: hash_env
  ce_vl :: vc_lib
  ce_wall :: wall_clock
  ce_ro :: "('r, 'f) reader_ops"
  ce_wo :: "('w, 'r, 'f) writer_ops"
  ce_write :: "string \<Rightarrow> string \<Rightarrow> u16 \<Rightarrow> u64 \<Rightarrow> 'f \<Rightarrow> (('w, 'f) writestream \<times> 'f) result"
  ce_read :: "string \<Rightarrow> string \<Rightarrow> bool \<Rightarrow> 'f \<Rightarrow> ('r readstream \<times> 'f) result"
  ce_local :: "('r, 'f) commit_hook option"
  ce_mirror :: "('r, 'f) commit_hook option"
  ce_status0 :: int
  ce_behind :: "nat \<Rightarrow> char"

text \<open>\<^verbatim>\<open>setStatus\<close>: the status, and what it returns.\<close>

definition setStatus :: "int \<Rightarrow> bool \<times> int" where
  "setStatus code = (code < 400, code)"

section \<open>WriteCommand\<close>

record ('w, 'f) write_command =
  wm_status :: int
  wm_started :: bool
  wm_finished :: bool
  wm_bytes :: u32          \<comment> \<open>\<^verbatim>\<open>_bytesSinceLastFlush\<close>\<close>
  wm_instructions :: write_instructions
  wm_writer :: "('w, 'f) writestream"
  wm_onCommit :: hook

definition WriteCommand_new :: "('w, 'r, 'f) cmd_env \<Rightarrow> hook \<Rightarrow> ('w, 'f) write_command" where
  "WriteCommand_new ce h =
     \<lparr>wm_status = ce_status0 ce, wm_started = False, wm_finished = False, wm_bytes = 0,
      wm_instructions = WriteInstructions, wm_writer = writestream_none, wm_onCommit = h\<rparr>"

text \<open>\<^verbatim>\<open>*static_cast<Write*>(cmd->request()) = req\<close>: the part of the instructions that is a \<^verbatim>\<open>Write\<close>.\<close>

definition set_request :: "write_req \<Rightarrow> ('w, 'f) write_command \<Rightarrow> ('w, 'f) write_command" where
  "set_request req cmd = cmd\<lparr>wm_instructions := (wm_instructions cmd)
     \<lparr>wr_name := wr_name req, wr_version := wr_version req, wr_mirror := wr_mirror req, wr_copies := wr_copies req,
      wr_offset := wr_offset req, wr_source := wr_source req\<rparr>\<rparr>"

definition hook_of :: "('w, 'r, 'f) cmd_env \<Rightarrow> hook \<Rightarrow> ('r, 'f) commit_hook option" where
  "hook_of ce h = (case h of WhenLocalWriteFinishes \<Rightarrow> ce_local ce | WhenMirrorWriteFinishes \<Rightarrow> ce_mirror ce)"

definition wm_flush :: "('w, 'r, 'f) cmd_env \<Rightarrow> ('w, 'f) write_command \<Rightarrow> 'f
    \<Rightarrow> (bool \<times> ('w, 'f) write_command \<times> 'f) result" where
  "wm_flush ce cmd f =
     rbind (ws_commit (ce_hash ce) (ce_vl ce) (ce_ro ce) (ce_wo ce) (wi_isComplete (wm_instructions cmd)) (wm_writer cmd) f)
       (\<lambda>(reader, writer, f).
          let cmd = cmd\<lparr>wm_writer := writer\<rparr>
          in if \<not> rs_good (ce_ro ce) reader then Inr (False, cmd, f)
             else
               (let ins = wm_instructions cmd;
                    ins = (if wr_version ins = [] then ins\<lparr>wr_version := rs_version (ce_vl ce) reader\<rparr> else ins);
                    (ins, reader, f) = (case hook_of ce (wm_onCommit cmd) of
                                          None \<Rightarrow> (ins, reader, f) | Some onCommit \<Rightarrow> onCommit ins reader f);
                    ins = ins\<lparr>wi_digest := rs_digest reader\<rparr>;
                    ins = (if ws_good (ce_wo ce) writer then ins\<lparr>wr_offset := ws_position (ce_wo ce) writer f\<rparr> else ins)
                in Inr (True, cmd\<lparr>wm_instructions := ins, wm_bytes := 0\<rparr>, f)))"

definition wm_commit :: "('w, 'r, 'f) cmd_env \<Rightarrow> ('w, 'f) write_command \<Rightarrow> 'f
    \<Rightarrow> (bool \<times> ('w, 'f) write_command \<times> 'f) result" where
  "wm_commit ce cmd f =
     (let cmd = cmd\<lparr>wm_finished := True, wm_instructions := (wm_instructions cmd)\<lparr>wi_isComplete := True\<rparr>\<rparr>
      in rbind (wm_flush ce cmd f) (\<lambda>(ok, cmd, f).
           if \<not> ok then (let (res, st) = setStatus 500 in Inr (res, cmd\<lparr>wm_status := st\<rparr>, f))
           else (let cmd = cmd\<lparr>wm_instructions := (wm_instructions cmd)\<lparr>wi_outstream := None\<rparr>\<rparr>; (res, st) = setStatus 200
                 in Inr (res, cmd\<lparr>wm_status := st\<rparr>, f))))"

text \<open>The bytes from an offset on, with what lies behind the buffer.\<close>

definition bytes_at :: "(nat \<Rightarrow> char) \<Rightarrow> bytes \<Rightarrow> nat \<Rightarrow> nat \<Rightarrow> bytes" where
  "bytes_at behind buff off n = map (\<lambda>i. if i < length buff then buff ! i else behind (i - length buff)) [off..<off + n]"

text \<open>The first buffer opens the writer; \<open>Some\<close> is an early return.\<close>

definition wm_start :: "('w, 'r, 'f) cmd_env \<Rightarrow> ('w, 'f) write_command \<Rightarrow> 'f
    \<Rightarrow> (bool option \<times> ('w, 'f) write_command \<times> 'f) result" where
  "wm_start ce cmd f =
     (if wm_started cmd then Inr (None, cmd, f)
      else if wr_name (wm_instructions cmd) = []
      then (let (res, st) = setStatus 400 in Inr (Some res, cmd\<lparr>wm_finished := True, wm_status := st\<rparr>, f))
      else
        (let ins = wm_instructions cmd
         in rbind (ce_write ce (wr_name ins) (wr_version ins) (wr_copies ins) (wr_offset ins) f) (\<lambda>(writer, f).
              let cmd = cmd\<lparr>wm_writer := writer\<rparr>
              in if \<not> ws_good (ce_wo ce) writer
                 then (let (res, st) = setStatus 500 in Inr (Some res, cmd\<lparr>wm_status := st\<rparr>, f))
                 else Inr (None, cmd, f))))"

definition wm_put :: "('w, 'r, 'f) cmd_env \<Rightarrow> bytes \<Rightarrow> ('w, 'f) write_command \<Rightarrow> 'f \<Rightarrow> ('w, 'f) write_command \<times> 'f" where
  "wm_put ce b cmd f = (let (writer, f) = ws_write (ce_wo ce) b (wm_writer cmd) f in (cmd\<lparr>wm_writer := writer\<rparr>, f))"

definition wm_data :: "('w, 'r, 'f) cmd_env \<Rightarrow> bytes \<Rightarrow> ('w, 'f) write_command \<Rightarrow> 'f
    \<Rightarrow> (bool \<times> ('w, 'f) write_command \<times> 'f) result" where
  "wm_data ce buff cmd f =
     (let size = of_nat (length buff) :: u32; nextSize = wm_bytes cmd + size
      in if nextSize > 0x10000 then
           (let overfill = nextSize - 0x10000; topoff = size - overfill;
                (cmd, f) = (if topoff > 0 then wm_put ce (bytes_at (ce_behind ce) buff 0 (unat topoff)) cmd f else (cmd, f))
            in rbind (wm_flush ce cmd f) (\<lambda>(ok, cmd, f).
                 if \<not> ok then Inr (False, cmd, f)
                 else (let (cmd, f) = wm_put ce (bytes_at (ce_behind ce) buff (unat topoff) (unat overfill)) cmd f
                       in Inr (True, cmd\<lparr>wm_bytes := wm_bytes cmd + overfill\<rparr>, f))))
         else (let (cmd, f) = wm_put ce buff cmd f in Inr (True, cmd\<lparr>wm_bytes := nextSize\<rparr>, f)))"

definition WriteCommand_run :: "('w, 'r, 'f) cmd_env \<Rightarrow> bytes \<Rightarrow> ('w, 'f) write_command \<Rightarrow> 'f
    \<Rightarrow> (bool \<times> ('w, 'f) write_command \<times> 'f) result" where
  "WriteCommand_run ce buff cmd f =
     (if wm_finished cmd then Inr (False, cmd, f)
      else rbind (wm_start ce cmd f) (\<lambda>(early, cmd, f).
        case early of
          Some res \<Rightarrow> Inr (res, cmd, f)
        | None \<Rightarrow>
            if buff = [] then
              (if \<not> wm_started cmd then Inr (True, cmd\<lparr>wm_started := True\<rparr>, f) else wm_commit ce cmd f)
            else wm_data ce buff (cmd\<lparr>wm_started := True\<rparr>) f))"

section \<open>Commands that write\<close>

definition CopyCommand_run :: "('w, 'r, 'f) cmd_env \<Rightarrow> copy_req \<Rightarrow> int \<Rightarrow> 'f \<Rightarrow> (bool \<times> int \<times> 'f) result" where
  "CopyCommand_run ce params status f =
     (if cp_path params = [] then (let (res, st) = setStatus 400 in Inr (res, st, f))
      else rbind (ce_write ce (wr_name params) (wr_version params) (wr_copies params) (wr_offset params) f) (\<lambda>(writer, f).
           rbind (ws_copy (ce_hash ce) (ce_vl ce) (ce_ro ce) (ce_wo ce) (cp_path params) writer f) (\<lambda>(reader, writer, f).
             if \<not> rs_good (ce_ro ce) reader then (let (res, st) = setStatus 500 in Inr (res, st, f))
             else
               (let ins = (WriteInstructions_of (wr_name params) (wr_version params) (wr_mirror params) (wr_copies params))
                            \<lparr>wi_isComplete := True\<rparr>
                in case ce_local ce of
                     None \<Rightarrow> Inl Bad_function_call
                   | Some onCommit \<Rightarrow> (let (_, _, f) = onCommit ins reader f in Inr (True, status, f))))))"

text \<open>\<^verbatim>\<open>_api.command(req)\<close> for a write: a command with the callbacks of local writes.\<close>

definition api_write :: "('w, 'r, 'f) cmd_env \<Rightarrow> write_req \<Rightarrow> ('w, 'f) write_command" where
  "api_write ce req = set_request req (WriteCommand_new ce WhenLocalWriteFinishes)"

definition DeleteCommand_run :: "('w, 'r, 'f) cmd_env \<Rightarrow> named_req \<Rightarrow> int \<Rightarrow> 'f \<Rightarrow> (bool \<times> int \<times> 'f) result" where
  "DeleteCommand_run ce params status f =
     rbind (vc_fromString (ce_vl ce) (nr_version params) []) (\<lambda>(_, version).
       let version = markDeleted (ce_vl ce) (ce_wall ce) version;
           cmd = api_write ce (Write\<lparr>wr_name := nr_name params, wr_version := vc_toString (ce_vl ce) version\<rparr>)
       in rbind (WriteCommand_run ce [] cmd f) (\<lambda>(ok, cmd, f).
            if \<not> ok then Inr (False, status, f)
            else rbind (WriteCommand_run ce [] cmd f) (\<lambda>(ok, cmd, f). Inr (ok, status, f))))"

text \<open>\<open>first\<close> is the data of the first buffer.\<close>

definition write_and_commit :: "('w, 'r, 'f) cmd_env \<Rightarrow> write_req \<Rightarrow> bytes \<Rightarrow> 'f \<Rightarrow> (bool \<times> int \<times> 'f) result" where
  "write_and_commit ce req first f =
     rbind (WriteCommand_run ce first (api_write ce req) f) (\<lambda>(ok, cmd, f).
       if \<not> ok then (let (res, st) = setStatus (wm_status cmd) in Inr (res, st, f))
       else rbind (WriteCommand_run ce [] cmd f) (\<lambda>(_, cmd, f).
              let (res, st) = setStatus (wm_status cmd) in Inr (res, st, f)))"

definition AddPeerCommand_run :: "('w, 'r, 'f) cmd_env \<Rightarrow> add_peer_req \<Rightarrow> 'f \<Rightarrow> (bool \<times> int \<times> 'f) result" where
  "AddPeerCommand_run ce params f =
     (let version = vc_increment (ce_vl ce) (ce_wall ce) (ap_uid params) [];
          req = Write\<lparr>wr_name := MEMBERSHIP_FILE_PREFIX @ ap_uid params,
                      wr_version := vc_toString (ce_vl ce) version, wr_copies := 0\<rparr>
      in write_and_commit ce req (ap_ip params) f)"

definition RemovePeerCommand_run :: "('w, 'r, 'f) cmd_env \<Rightarrow> string \<Rightarrow> 'f \<Rightarrow> (bool \<times> int \<times> 'f) result" where
  "RemovePeerCommand_run ce uid f =
     (let version = markDeleted (ce_vl ce) (ce_wall ce) (vc_increment (ce_vl ce) (ce_wall ce) uid []);
          req = Write\<lparr>wr_name := MEMBERSHIP_FILE_PREFIX @ uid, wr_version := vc_toString (ce_vl ce) version, wr_copies := 0\<rparr>
      in write_and_commit ce req [] f)"

section \<open>Commands that read\<close>

text \<open>
  \<^verbatim>\<open>IByteStream\<close>: the longest packet, and writing, which gives the number of bytes written. A command
  without a stream has \<open>None\<close>.
\<close>

record 'f byte_stream =
  by_max :: "'f \<Rightarrow> nat"
  by_write :: "bytes \<Rightarrow> 'f \<Rightarrow> int \<times> 'f"

definition rs_stream_to :: "('r, 'f) reader_ops \<Rightarrow> 'f byte_stream \<Rightarrow> 'r readstream \<Rightarrow> 'f \<Rightarrow> int \<times> 'r readstream \<times> 'f" where
  "rs_stream_to ro out rs f =
     (let (b, rs, f) = rs_stream ro (by_max out f) rs f
      in case b of None \<Rightarrow> (0, rs, f) | Some b \<Rightarrow> (let (n, f) = by_write out b f in (n, rs, f)))"

text \<open>\<^verbatim>\<open>while (reader.stream(*_stream) > 0);\<close>\<close>

partial_function (option) stream_all :: "('r, 'f) reader_ops \<Rightarrow> 'f byte_stream \<Rightarrow> 'r readstream \<Rightarrow> 'f
    \<Rightarrow> ('r readstream \<times> 'f) option" where
  "stream_all ro out rs f =
     (let (n, rs, f) = rs_stream_to ro out rs f in if n > 0 then stream_all ro out rs f else Some (rs, f))"

definition ReadCommand_run :: "('w, 'r, 'f) cmd_env \<Rightarrow> 'f byte_stream option \<Rightarrow> named_req \<Rightarrow> int \<Rightarrow> 'f
    \<Rightarrow> (bool \<times> int \<times> 'f) result option" where
  "ReadCommand_run ce stream params status f =
     (case stream of
        None \<Rightarrow> Some (Inr (False, status, f))
      | Some out \<Rightarrow>
          (case ce_read ce (nr_name params) (nr_version params) False f of
             Inl x \<Rightarrow> Some (Inl x)
           | Inr (reader, f) \<Rightarrow>
               if \<not> rs_good (ce_ro ce) reader then (let (res, st) = setStatus 404 in Some (Inr (res, st, f)))
               else map_option (\<lambda>(_, f). let (res, st) = setStatus 200 in Inr (res, st, f))
                      (stream_all (ce_ro ce) out reader f)))"

text \<open>\<open>corrected\<close> is \<^verbatim>\<open>ICorrectSkew::dropKey\<close>.\<close>

definition DropCommand_run :: "('w, 'r, 'f) cmd_env \<Rightarrow> (string \<Rightarrow> 'f \<Rightarrow> bool \<times> 'f) \<Rightarrow> drop_req \<Rightarrow> 'f
    \<Rightarrow> (bool \<times> int \<times> 'f) result" where
  "DropCommand_run ce corrected params f =
     rbind (ce_read ce (dq_name params) [] False f) (\<lambda>(reader, f).
       if \<not> rs_good (ce_ro ce) reader then (let (res, st) = setStatus 404 in Inr (res, st, f))
       else (let (dropped, f) = corrected (dq_name params) f; (res, st) = setStatus (if dropped then 200 else 500)
             in Inr (res, st, f)))"

definition print_key :: "list_keys_req \<Rightarrow> string \<Rightarrow> string \<Rightarrow> string option" where
  "print_key params name report =
     (if \<not> lk_all params \<and> has_prefix MEMBERSHIP_FILE_PREFIX name then None
      else if \<not> lk_deleted params \<and>
              (case find_char (CHR '':'') report of
                 None \<Rightarrow> True
               | Some colon \<Rightarrow>
                   (case find_char_from (CHR '','') colon report of
                      None \<Rightarrow> True
                    | Some first_clock \<Rightarrow> has_prefix '',delete.'' (drop first_clock report))) then None
      else Some ([char_of (34 :: nat)] @ name @ [char_of (34 :: nat), CHR '':'', char_of (34 :: nat)] @ report
                 @ [char_of (34 :: nat), CHR '','', char_of (10 :: nat)]))"

text \<open>\<open>enum\<close> is \<^verbatim>\<open>enumerate\<close> of the store; the callback acts on the outside state.\<close>

definition ListKeysCommand_run :: "((string \<Rightarrow> key_metadata \<Rightarrow> string \<Rightarrow> 'f \<Rightarrow> 'f) \<Rightarrow> u64 \<Rightarrow> string \<Rightarrow> 'f \<Rightarrow> 'f)
    \<Rightarrow> 'f byte_stream option \<Rightarrow> list_keys_req \<Rightarrow> 'f \<Rightarrow> bool \<times> 'f" where
  "ListKeysCommand_run enum stream params f =
     (case stream of
        None \<Rightarrow> (False, f)
      | Some out \<Rightarrow>
          (let f = snd (by_write out [CHR ''{'', char_of (10 :: nat)] f);
               f = enum (\<lambda>name md report f. case print_key params name report of
                           None \<Rightarrow> f | Some data \<Rightarrow> snd (by_write out data f))
                     (lk_limit params) (lk_prefix params) f;
               f = snd (by_write out ''}'' f)
           in (True, f)))"

definition StatusCommand_run :: "(string \<Rightarrow> 'f \<Rightarrow> string) \<Rightarrow> 'f byte_stream option \<Rightarrow> string \<Rightarrow> 'f \<Rightarrow> bool \<times> 'f" where
  "StatusCommand_run reporter stream view f =
     (case stream of None \<Rightarrow> (False, f) | Some out \<Rightarrow> (True, snd (by_write out (reporter view f) f)))"

text \<open>
  \<^verbatim>\<open>WaitCommand\<close>: \<open>watch\<close> and \<open>unwatch\<close> act on the watches; \<open>waiter\<close> is the time spent waiting, in which others
  change the state, and whether it ended with a signal.
\<close>

definition tryRead :: "('w, 'r, 'f) cmd_env \<Rightarrow> 'f byte_stream \<Rightarrow> named_req \<Rightarrow> 'f \<Rightarrow> (bool \<times> int \<times> 'f) result" where
  "tryRead ce out params f =
     rbind (ce_read ce (nr_name params) (nr_version params) False f) (\<lambda>(reader, f).
       if \<not> rs_good (ce_ro ce) reader then (let (res, st) = setStatus 404 in Inr (res, st, f))
       else (let f = snd (by_write out (nr_name params) f); (res, st) = setStatus 200 in Inr (res, st, f)))"

definition WaitCommand_run :: "('w, 'r, 'f) cmd_env \<Rightarrow> (string \<Rightarrow> string \<Rightarrow> 'f \<Rightarrow> 'f) \<Rightarrow> (string \<Rightarrow> string \<Rightarrow> 'f \<Rightarrow> 'f)
    \<Rightarrow> ('f \<Rightarrow> bool \<times> 'f) \<Rightarrow> string \<Rightarrow> 'f byte_stream option \<Rightarrow> named_req \<Rightarrow> int \<Rightarrow> 'f \<Rightarrow> (bool \<times> int \<times> 'f) result" where
  "WaitCommand_run ce watch unwatch waiter watchId stream params status f =
     (case stream of
        None \<Rightarrow> Inr (False, status, f)
      | Some out \<Rightarrow>
          rbind (tryRead ce out params (watch (nr_name params) watchId f)) (\<lambda>(res, st, f).
          rbind (if res then Inr (res, st, f)
                 else (let (signalled, f) = waiter f
                       in if signalled then tryRead ce out params f else Inr (False, snd (setStatus 0), f)))
            (\<lambda>(res, st, f). Inr (res, st, unwatch (nr_name params) watchId f))))"

section \<open>Where the data goes\<close>

lemma ws_commit_open:
  assumes "ws_writer ws = Some w" "iw_flush wo w f = (True, w1, f1)" "iw_reader wo w1 f1 = (rd, f2)"
  shows "ws_commit env vl ro wo False ws f =
    (let md = (ws_md ws)\<lparr>km_digest := ws_digest env (vc_toString vl (km_version (ws_md ws))) (ir_size ro rd f2)\<rparr>
     in Inr (\<lparr>rs_reader = Some rd, rs_md = md\<rparr>, ws\<lparr>ws_writer := Some w1, ws_md := md\<rparr>, f2))"
  using assms by (cases "ws_onClose ws") (simp_all add: ws_commit_def ws_do_commit_def Let_def)

text \<open>A callback that leaves the entry being written alone.\<close>

definition quiet :: "('w \<Rightarrow> 'f \<Rightarrow> bytes) \<Rightarrow> ('w \<Rightarrow> 'f \<Rightarrow> bool) \<Rightarrow> ('r, 'f) commit_hook option \<Rightarrow> bool" where
  "quiet content ok h \<longleftrightarrow> (case h of None \<Rightarrow> True
     | Some g \<Rightarrow> \<forall>ins rd f ins' rd' f'. g ins rd f = (ins', rd', f')
         \<longrightarrow> wi_isComplete ins' = wi_isComplete ins
           \<and> (\<forall>w. ok w f \<longrightarrow> ok w f' \<and> content w f' = content w f))"

definition writing :: "('w \<Rightarrow> 'f \<Rightarrow> bytes) \<Rightarrow> ('w \<Rightarrow> 'f \<Rightarrow> bool)
    \<Rightarrow> ('w, 'f) write_command \<Rightarrow> 'f \<Rightarrow> bytes \<Rightarrow> bool" where
  "writing content ok cmd f b \<longleftrightarrow> wm_started cmd \<and> \<not> wm_finished cmd \<and> \<not> wi_isComplete (wm_instructions cmd)
     \<and> (\<exists>w. ws_writer (wm_writer cmd) = Some w \<and> ok w f \<and> content w f = b)"

text \<open>
  The contract between \<^verbatim>\<open>WriteCommand\<close> and a writer: what is written is appended, flushing and making a
  reader keep it, and a reader of it is good. \<open>ok\<close> is the writer's invariant.
\<close>

locale byte_sink =
  fixes wo :: "('w, 'r, 'f) writer_ops" and ro :: "('r, 'f) reader_ops"
    and content :: "'w \<Rightarrow> 'f \<Rightarrow> bytes" and ok :: "'w \<Rightarrow> 'f \<Rightarrow> bool"
  assumes write_appends: "ok w f \<Longrightarrow> iw_write wo b w f = (w', f') \<Longrightarrow> ok w' f' \<and> content w' f' = content w f @ b"
    and flush_keeps: "ok w f \<Longrightarrow> iw_flush wo w f = (r, w', f') \<Longrightarrow> r \<and> ok w' f' \<and> content w' f' = content w f"
    and reader_keeps: "ok w f \<Longrightarrow> iw_reader wo w f = (rd, f') \<Longrightarrow> ir_good ro rd \<and> ok w f' \<and> content w f' = content w f"
begin

lemma put_appends:
  assumes "ce_wo ce = wo" "writing content ok cmd f b" "wm_put ce d cmd f = (cmd', f')"
  shows "writing content ok cmd' f' (b @ d)" "wm_bytes cmd' = wm_bytes cmd" "wm_onCommit cmd' = wm_onCommit cmd"
proof -
  obtain w where w: "ws_writer (wm_writer cmd) = Some w" "ok w f" "content w f = b"
    using assms(2) by (auto simp: writing_def)
  obtain w' f'' where wr: "iw_write wo d w f = (w', f'')" by fastforce
  show "writing content ok cmd' f' (b @ d)" "wm_bytes cmd' = wm_bytes cmd" "wm_onCommit cmd' = wm_onCommit cmd"
    using assms write_appends [OF w(2) wr] w wr
    by (auto simp: wm_put_def ws_write_def writing_def)
qed

lemma flush_appends_nothing:
  assumes "ce_wo ce = wo" "ce_ro ce = ro" "writing content ok cmd f b" "quiet content ok (hook_of ce (wm_onCommit cmd))"
  shows "\<exists>cmd' f'. wm_flush ce cmd f = Inr (True, cmd', f') \<and> writing content ok cmd' f' b \<and> wm_bytes cmd' = 0
           \<and> wm_onCommit cmd' = wm_onCommit cmd"
proof -
  obtain w where w: "ws_writer (wm_writer cmd) = Some w" "ok w f" "content w f = b" "\<not> wi_isComplete (wm_instructions cmd)"
    using assms(3) by (auto simp: writing_def)
  obtain r w1 f1 where fl: "iw_flush wo w f = (r, w1, f1)" by (metis prod_cases3)
  note k1 = flush_keeps [OF w(2) fl]
  obtain rd f2 where rd: "iw_reader wo w1 f1 = (rd, f2)" by fastforce
  note k2 = reader_keeps [OF conjunct1 [OF conjunct2 [OF k1]] rd]
  show ?thesis
  proof (cases "hook_of ce (wm_onCommit cmd)")
    case None
    then show ?thesis
      using assms(1-3) w fl k1 rd k2
      by (auto simp: wm_flush_def ws_commit_open rs_good_def writing_def Let_def)
  next
    case (Some g)
    let ?ins = "wm_instructions cmd"
    let ?md = "(ws_md (wm_writer cmd))\<lparr>km_digest := ws_digest (ce_hash ce)
                 (vc_toString (ce_vl ce) (km_version (ws_md (wm_writer cmd)))) (ir_size ro rd f2)\<rparr>"
    let ?rs = "\<lparr>rs_reader = Some rd, rs_md = ?md\<rparr>"
    obtain ins' rs' f3 where g: "g (if wr_version ?ins = [] then ?ins\<lparr>wr_version := rs_version (ce_vl ce) ?rs\<rparr> else ?ins) ?rs f2
        = (ins', rs', f3)" by (metis prod_cases3)
    have "\<not> wi_isComplete ins'" "ok w1 f3" "content w1 f3 = b"
      using assms(4) Some g w k1 k2 unfolding quiet_def by (auto split: if_splits)
    then show ?thesis
      using assms(1-3) Some w fl k1 rd k2 g
      by (auto simp: wm_flush_def ws_commit_open rs_good_def writing_def Let_def)
  qed
qed

lemma chunk_appends:
  assumes "ce_wo ce = wo" "ce_ro ce = ro" "writing content ok cmd f b" "quiet content ok (hook_of ce (wm_onCommit cmd))"
    "wm_bytes cmd \<le> 0x10000" "buff \<noteq> []" "length buff \<le> 0x10000"
  shows "\<exists>cmd' f'. WriteCommand_run ce buff cmd f = Inr (True, cmd', f') \<and> writing content ok cmd' f' (b @ buff)
           \<and> wm_bytes cmd' \<le> 0x10000 \<and> wm_onCommit cmd' = wm_onCommit cmd"
proof -
  let ?size = "of_nat (length buff) :: u32" and ?next = "wm_bytes cmd + of_nat (length buff)"
  have run: "WriteCommand_run ce buff cmd f = wm_data ce buff cmd f"
  proof -
    have "wm_started cmd" "\<not> wm_finished cmd" using assms(3) by (simp_all add: writing_def)
    then have e: "cmd\<lparr>wm_started := True\<rparr> = cmd" by (cases cmd) simp
    have "WriteCommand_run ce buff cmd f = wm_data ce buff (cmd\<lparr>wm_started := True\<rparr>) f"
      using \<open>wm_started cmd\<close> \<open>\<not> wm_finished cmd\<close> assms(6) by (simp add: WriteCommand_run_def wm_start_def)
    then show ?thesis by (simp only: e)
  qed
  have sz: "unat ?size = length buff" by (rule of_nat_inverse [OF refl], rule le_less_trans [OF assms(7)]) simp
  have bd: "unat (wm_bytes cmd) \<le> 65536" using assms(5) by (simp add: word_le_nat_alt)
  have nx: "unat ?next = unat (wm_bytes cmd) + length buff"
    using sz bd assms(7) by (subst unat_add_lem [THEN iffD1]) simp_all
  show ?thesis
  proof (cases "?next > 0x10000")
    case False
    obtain cmd1 f1 where p: "wm_put ce buff cmd f = (cmd1, f1)" by fastforce
    note q = put_appends [OF assms(1,3) p]
    have "writing content ok (cmd1\<lparr>wm_bytes := ?next\<rparr>) f1 (b @ buff)" using q(1) by (simp add: writing_def)
    then show ?thesis using False run p q(3) by (auto simp: wm_data_def Let_def)
  next
    case True
    define over where "over = ?next - 0x10000"
    define topoff where "topoff = ?size - over"
    have o: "unat over = unat (wm_bytes cmd) + length buff - 65536"
      using True nx by (simp add: over_def unat_sub word_less_nat_alt word_le_nat_alt)
    then have le: "unat over \<le> length buff" using bd by simp
    have t: "unat topoff = length buff - unat over"
      using le sz by (simp add: topoff_def unat_sub word_le_nat_alt)
    have left: "bytes_at (ce_behind ce) buff 0 (unat topoff) = take (unat topoff) buff"
      using t by (auto simp: bytes_at_def intro!: nth_equalityI)
    have right: "bytes_at (ce_behind ce) buff (unat topoff) (unat over) = drop (unat topoff) buff"
      using t le by (auto simp: bytes_at_def intro!: nth_equalityI)
    obtain cmd1 f1 where p: "(if topoff > 0 then wm_put ce (take (unat topoff) buff) cmd f else (cmd, f)) = (cmd1, f1)"
      by fastforce
    have q: "writing content ok cmd1 f1 (b @ take (unat topoff) buff)" "wm_onCommit cmd1 = wm_onCommit cmd"
      using p assms(3) put_appends [OF assms(1,3)]
      by (cases "topoff = 0"; auto simp: word_gt_0 split: if_splits)+
    obtain cmd2 f2 where fl: "wm_flush ce cmd1 f1 = Inr (True, cmd2, f2)"
        and q2: "writing content ok cmd2 f2 (b @ take (unat topoff) buff)" "wm_bytes cmd2 = 0" "wm_onCommit cmd2 = wm_onCommit cmd1"
      using flush_appends_nothing [OF assms(1,2) q(1)] assms(4) q(2) by auto
    obtain cmd3 f3 where p3: "wm_put ce (drop (unat topoff) buff) cmd2 f2 = (cmd3, f3)" by fastforce
    note q3 = put_appends [OF assms(1) q2(1) p3]
    have "writing content ok (cmd3\<lparr>wm_bytes := wm_bytes cmd3 + over\<rparr>) f3 (b @ buff)" using q3(1) by (simp add: writing_def)
    moreover have "wm_bytes cmd3 + over \<le> 0x10000"
      using le assms(7) q3(2) q2(2) by (simp add: word_le_nat_alt)
    moreover have "WriteCommand_run ce buff cmd f = Inr (True, cmd3\<lparr>wm_bytes := wm_bytes cmd3 + over\<rparr>, f3)"
      using True fl p3 unfolding run wm_data_def Let_def over_def [symmetric] topoff_def [symmetric] left right p
      by simp
    ultimately show ?thesis using q3(3) q2(3) q(2) by auto
  qed
qed

end

text \<open>The buffers of one entry, one after the other, while the command reports success.\<close>

fun run_buffers :: "('w, 'r, 'f) cmd_env \<Rightarrow> bytes list \<Rightarrow> ('w, 'f) write_command \<Rightarrow> 'f
    \<Rightarrow> (bool \<times> ('w, 'f) write_command \<times> 'f) result" where
  "run_buffers ce [] cmd f = Inr (True, cmd, f)"
| "run_buffers ce (b # bs) cmd f =
     rbind (WriteCommand_run ce b cmd f) (\<lambda>(ok, cmd, f). if ok then run_buffers ce bs cmd f else Inr (False, cmd, f))"

context byte_sink
begin

lemma buffers_append:
  assumes "ce_wo ce = wo" "ce_ro ce = ro" "writing content ok cmd f b" "quiet content ok (hook_of ce (wm_onCommit cmd))"
    "wm_bytes cmd \<le> 0x10000" "\<forall>d \<in> set bs. d \<noteq> [] \<and> length d \<le> 0x10000"
  shows "\<exists>cmd' f'. run_buffers ce bs cmd f = Inr (True, cmd', f') \<and> writing content ok cmd' f' (b @ concat bs)
           \<and> wm_bytes cmd' \<le> 0x10000"
  using assms(3-6)
proof (induction bs arbitrary: cmd f b)
  case Nil
  then show ?case by simp
next
  case (Cons d bs)
  obtain cmd' f' where c: "WriteCommand_run ce d cmd f = Inr (True, cmd', f')" "writing content ok cmd' f' (b @ d)"
      "wm_bytes cmd' \<le> 0x10000" "wm_onCommit cmd' = wm_onCommit cmd"
    using chunk_appends [OF assms(1,2) Cons.prems(1-3), of d] Cons.prems(4) by auto
  show ?case using Cons.IH [OF c(2)] Cons.prems(2,4) c by simp
qed

lemma entry_arrives:
  assumes "ce_wo ce = wo" "ce_ro ce = ro" "quiet content ok (hook_of ce h)" "wr_name req \<noteq> []"
    "ce_write ce (wr_name req) (wr_version req) (wr_copies req) (wr_offset req) f = Inr (ws, f0)"
    "ws_writer ws = Some w" "iw_good wo w" "ok w f0" "content w f0 = []"
    "\<forall>d \<in> set bs. d \<noteq> [] \<and> length d \<le> 0x10000"
  shows "\<exists>cmd' f'. run_buffers ce ([] # bs) (set_request req (WriteCommand_new ce h)) f = Inr (True, cmd', f')
           \<and> writing content ok cmd' f' (concat bs) \<and> wm_bytes cmd' \<le> 0x10000"
proof -
  let ?new = "set_request req (WriteCommand_new ce h)"
  let ?cmd = "?new\<lparr>wm_writer := ws, wm_started := True\<rparr>"
  have start: "WriteCommand_run ce [] ?new f = Inr (True, ?cmd, f0)"
    using assms(1,4-7) by (simp add: WriteCommand_run_def wm_start_def WriteCommand_new_def set_request_def
        WriteInstructions_def ws_good_def)
  have "writing content ok ?cmd f0 []"
    using assms(6,8,9) by (simp add: writing_def WriteCommand_new_def set_request_def WriteInstructions_def)
  moreover have "wm_onCommit ?cmd = h" "wm_bytes ?cmd = 0"
    by (simp_all add: WriteCommand_new_def set_request_def)
  ultimately obtain cmd' f' where "run_buffers ce bs ?cmd f0 = Inr (True, cmd', f')" "writing content ok cmd' f' (concat bs)"
      "wm_bytes cmd' \<le> 0x10000"
    using buffers_append [OF assms(1,2), of ?cmd f0 "[]" bs] assms(3,10) by auto
  then show ?thesis by (simp add: start)
qed

end

section \<open>The file writer meets the contract\<close>

definition mem_content :: "file_writer \<Rightarrow> mem_fs \<Rightarrow> bytes" where
  "mem_content w s = mf_data (ms_file (fw_filename w) s)"

text \<open>An open file whose writing position is its end.\<close>

definition mem_ok :: "file_writer \<Rightarrow> mem_fs \<Rightarrow> bool" where
  "mem_ok w s \<longleftrightarrow> 0 \<le> fw_fd w \<and> nat (fw_fd w) < length (ms_open s) \<and> ms_has (fw_filename w) s
     \<and> ms_at (fw_fd w) s = (fw_filename w, length (mem_content w s))"

interpretation mem_file_sink: byte_sink "file_writer_ops mem_sys" "file_reader_ops mem_sys []" mem_content mem_ok
proof
  fix w f b w' f' r rd
  assume ok: "mem_ok w f"
  {
    assume "iw_write (file_writer_ops mem_sys) b w f = (w', f')"
    then have "w' = w" "f' = ms_move (fw_fd w) (length (mem_content w f) + length b)
        (ms_put (fw_filename w) ((ms_file (fw_filename w) f)\<lparr>mf_data := mem_content w f @ b, mf_time := ms_now f\<rparr>) f)"
      using ok by (auto simp: file_writer_ops_def fw_write_def mem_sys_def mem_ok_def mem_content_def Let_def
          case_prod_beta split: if_splits)
    with ok show "mem_ok w' f' \<and> mem_content w' f' = mem_content w f @ b"
      by (simp add: mem_ok_def mem_content_def ms_at_move)
  next
    assume "iw_flush (file_writer_ops mem_sys) w f = (r, w', f')"
    then show "r \<and> mem_ok w' f' \<and> mem_content w' f' = mem_content w f"
      using ok by (auto simp: file_writer_ops_def fw_flush_def)
  next
    assume "iw_reader (file_writer_ops mem_sys) w f = (rd, f')"
    then have "rd = \<lparr>fr_fd = int (length (ms_open f))\<rparr>" "f' = snd (ms_fd (fw_filename w) f)"
      using ok by (auto simp: file_writer_ops_def fw_reader_def FileReader_def fr_open_def mem_sys_def mem_ok_def Let_def
          case_prod_beta)
    with ok show "ir_good (file_reader_ops mem_sys []) rd \<and> mem_ok w f' \<and> mem_content w f' = mem_content w f"
      by (simp add: file_reader_ops_def fr_good_def mem_ok_def mem_content_def ms_at_fd)
  }
qed

section \<open>Buffers that are too long\<close>

text \<open>
  The count of bytes since the last flush is meant to stay below 65536; one buffer of more than twice
  that leaves it above, and for the next buffer the number of bytes before the flush wraps around to
  more than the buffer holds.
\<close>

lemma long_buffer_overruns_count:
  assumes "0x20000 < length buff" "length buff < 2 ^ 32" "wm_bytes cmd = 0"
    "wm_data ce buff cmd f = Inr (True, cmd', f')"
  shows "unat (wm_bytes cmd') = length buff - 0x10000"
proof -
  have sz: "unat (of_nat (length buff) :: u32) = length buff" by (rule of_nat_inverse [OF refl]) (use assms(2) in simp)
  let ?over = "of_nat (length buff) - 0x10000 :: u32"
  have big: "(0 :: u32) + of_nat (length buff) > 0x10000" using assms(1) sz by (simp add: word_less_nat_alt)
  have over: "unat ?over = length buff - 0x10000"
    using assms(1) sz by (simp add: unat_sub word_le_nat_alt)
  have after: "wm_bytes c' = 0" if "wm_flush ce c x = Inr (True, c', x')" for c c' x x'
    using that by (auto simp: wm_flush_def rbind_Inr_iff Let_def case_prod_beta split: if_splits)
  have "wm_bytes cmd' = ?over"
    using assms(3,4) big
    by (auto simp: wm_data_def Let_def rbind_Inr_iff case_prod_beta wm_put_def after split: if_splits)
  then show ?thesis using over by simp
qed

lemma overrun_count_reads_behind_buffer:
  assumes "0x10000 < wm_bytes cmd" "unat (wm_bytes cmd) + length buff < 2 ^ 32"
  shows "length buff < unat (of_nat (length buff) - (wm_bytes cmd + of_nat (length buff) - 0x10000))"
proof -
  have "of_nat (length buff) - (wm_bytes cmd + of_nat (length buff) - 0x10000) = - (wm_bytes cmd - 0x10000)" by simp
  moreover have "wm_bytes cmd - 0x10000 \<noteq> 0" using assms(1) by auto
  then have "unat (- (wm_bytes cmd - 0x10000)) = 2 ^ 32 - unat (wm_bytes cmd - 0x10000)"
    using unat_sub_if' [of 0 "wm_bytes cmd - 0x10000"] by (simp add: unat_eq_0)
  moreover have "unat (wm_bytes cmd - 0x10000) = unat (wm_bytes cmd) - 0x10000"
    using assms(1) by (simp add: unat_sub word_less_nat_alt word_le_nat_alt)
  ultimately show ?thesis using assms by (simp add: word_less_nat_alt)
qed

section \<open>Reading an entry to its end\<close>

text \<open>
  The contract between the reading commands and a reader: it hands out what is left, in pieces that are not
  empty, until nothing is left.
\<close>

locale byte_source =
  fixes ro :: "('r, 'f) reader_ops" and left :: "'r \<Rightarrow> 'f \<Rightarrow> bytes" and ok :: "'r \<Rightarrow> 'f \<Rightarrow> bool"
  assumes piece: "ok r f \<Longrightarrow> left r f \<noteq> [] \<Longrightarrow> 0 < n
      \<Longrightarrow> \<exists>b r' f'. ir_chunk ro n r f = (Some b, r', f') \<and> b \<noteq> [] \<and> left r f = b @ left r' f' \<and> ok r' f'"
    and exhausted: "ok r f \<Longrightarrow> left r f = [] \<Longrightarrow> \<exists>r' f'. ir_chunk ro n r f = (None, r', f')"

text \<open>
  A stream that takes what it is given: \<open>sent\<close> is what it has been given; readers do not notice, and reading
  sends nothing.
\<close>

definition takes_all :: "('r, 'f) reader_ops \<Rightarrow> ('r \<Rightarrow> 'f \<Rightarrow> bytes) \<Rightarrow> ('r \<Rightarrow> 'f \<Rightarrow> bool) \<Rightarrow> 'f byte_stream \<Rightarrow> ('f \<Rightarrow> bytes) \<Rightarrow> bool" where
  "takes_all ro left ok out sent \<longleftrightarrow>
     (\<forall>f. 0 < by_max out f)
   \<and> (\<forall>b f. fst (by_write out b f) = int (length b) \<and> sent (snd (by_write out b f)) = sent f @ b)
   \<and> (\<forall>b f r. ok r f \<longrightarrow> ok r (snd (by_write out b f)) \<and> left r (snd (by_write out b f)) = left r f)
   \<and> (\<forall>n r f. sent (snd (snd (ir_chunk ro n r f))) = sent f)"

context byte_source
begin

lemma stream_all_sends:
  assumes "takes_all ro left ok out sent" "rs_reader rs = Some r" "ok r f"
  shows "\<exists>rs' f'. stream_all ro out rs f = Some (rs', f') \<and> sent f' = sent f @ left r f"
  using assms(2,3)
proof (induction "length (left r f)" arbitrary: rs r f rule: less_induct)
  case less
  note laws = assms(1) [unfolded takes_all_def]
  show ?case
  proof (cases "left r f = []")
    case True
    obtain r' f' where c: "ir_chunk ro (by_max out f) r f = (None, r', f')" using exhausted [OF less.prems(2) True] by blast
    have "sent f' = sent f" using laws [THEN conjunct2, THEN conjunct2, THEN conjunct2, THEN spec [where x = "by_max out f"],
          THEN spec [where x = r], THEN spec [where x = f]] c by simp
    moreover have "stream_all ro out rs f = Some (rs\<lparr>rs_reader := Some r'\<rparr>, f')"
      using less.prems(1) c by (subst stream_all.simps) (simp add: rs_stream_to_def rs_stream_def)
    ultimately show ?thesis using True by simp
  next
    case False
    obtain b r' f' where c: "ir_chunk ro (by_max out f) r f = (Some b, r', f')" "b \<noteq> []" "left r f = b @ left r' f'" "ok r' f'"
      using piece [OF less.prems(2) False laws [THEN conjunct1, THEN spec [where x = f]]] by blast
    have s0: "sent f' = sent f" using laws [THEN conjunct2, THEN conjunct2, THEN conjunct2, THEN spec [where x = "by_max out f"],
          THEN spec [where x = r], THEN spec [where x = f]] c by simp
    obtain m f2 where w: "by_write out b f' = (m, f2)" by fastforce
    have m: "m = int (length b)" and s2: "sent f2 = sent f' @ b"
      using laws [THEN conjunct2, THEN conjunct1, THEN spec [where x = b], THEN spec [where x = f']] w by simp_all
    have k: "ok r' f2" "left r' f2 = left r' f'"
      using laws [THEN conjunct2, THEN conjunct2, THEN conjunct1, THEN spec [where x = b], THEN spec [where x = f'],
          THEN spec [where x = r']] c(4) w by simp_all
    have step: "stream_all ro out rs f = stream_all ro out (rs\<lparr>rs_reader := Some r'\<rparr>) f2"
      using less.prems(1) c(1,2) w m by (subst stream_all.simps) (simp add: rs_stream_to_def rs_stream_def)
    have "length (left r' f2) < length (left r f)" using c(2,3) k(2) by simp
    from less.hyps [OF this _ k(1), of "rs\<lparr>rs_reader := Some r'\<rparr>"]
    show ?thesis using step s0 s2 c(3) k(2) by simp
  qed
qed

end

interpretation string_source: byte_source "string_reader_ops" "\<lambda>r f. sr_data r" "\<lambda>r f. True"
  by unfold_locales (auto simp: string_reader_ops_def sr_chunk_def Let_def)

definition mem_left :: "file_reader \<Rightarrow> mem_fs \<Rightarrow> bytes" where
  "mem_left r s = (let (p, pos) = ms_at (fr_fd r) s in drop pos (mf_data (ms_file p s)))"

definition mem_readable :: "file_reader \<Rightarrow> mem_fs \<Rightarrow> bool" where
  "mem_readable r s \<longleftrightarrow> 0 \<le> fr_fd r \<and> nat (fr_fd r) < length (ms_open s)"

interpretation mem_file_source: byte_source "file_reader_ops mem_sys beyond" mem_left mem_readable
proof
  fix r :: file_reader and f :: mem_fs and n :: nat
  assume ok: "mem_readable r f"
  obtain p pos where at: "ms_at (fr_fd r) f = (p, pos)" by fastforce
  let ?d = "mf_data (ms_file p f)" and ?b = "take n (drop pos (mf_data (ms_file p f)))"
  have c: "ir_chunk (file_reader_ops mem_sys beyond) n r f
      = (if ?b = [] then None else Some ?b, r, ms_move (fr_fd r) (pos + length ?b) f)"
    using ok at by (simp add: file_reader_ops_def fr_chunk_def mem_sys_def mem_readable_def Let_def)
  have l: "mem_left r (ms_move (fr_fd r) (pos + length ?b) f) = drop (pos + length ?b) ?d"
    using ok at by (simp add: mem_left_def mem_readable_def ms_at_move)
  have k: "mem_readable r (ms_move (fr_fd r) (pos + length ?b) f)"
    using ok by (simp add: mem_readable_def ms_at_move)
  {
    assume "mem_left r f \<noteq> []" "0 < n"
    then have "?b \<noteq> []" using at by (simp add: mem_left_def)
    moreover have "drop pos ?d = ?b @ drop (pos + length ?b) ?d"
      using append_take_drop_id [of n "drop pos ?d"] by (cases "n \<le> length ?d - pos") (simp_all add: min_def add.commute)
    ultimately show "\<exists>b r' f'. ir_chunk (file_reader_ops mem_sys beyond) n r f = (Some b, r', f') \<and> b \<noteq> []
        \<and> mem_left r f = b @ mem_left r' f' \<and> mem_readable r' f'"
      using at c l k by (simp add: mem_left_def)
  next
    assume "mem_left r f = []"
    then show "\<exists>r' f'. ir_chunk (file_reader_ops mem_sys beyond) n r f = (None, r', f')"
      using at c by (simp add: mem_left_def)
  }
qed

section \<open>Properties\<close>

definition mem_cmd_env :: "(file_writer, file_reader, mem_fs) cmd_env" where
  "mem_cmd_env = \<lparr>ce_hash = plain_env, ce_vl = ref_lib, ce_wall = \<lparr>wc_frozen = 0, wc_system = 5\<rparr>,
     ce_ro = file_reader_ops mem_sys [], ce_wo = file_writer_ops mem_sys,
     ce_write = (\<lambda>name version copies offset f.
        let (w, f) = FileWriter mem_sys (name @ ''~'') f in Inr (\<lparr>ws_writer = Some w, ws_md = KeyMetadata, ws_onClose = None\<rparr>, f)),
     ce_read = (\<lambda>name version inprogress f. Inr (readstream_none, f)), ce_local = None, ce_mirror = None,
     ce_status0 = 0, ce_behind = (\<lambda>_. CHR ''x'')\<rparr>"

definition no_files :: mem_fs where
  "no_files = \<lparr>ms_files = [], ms_open = [], ms_now = 1\<rparr>"

text \<open>A write of \<^verbatim>\<open>k\<close> in the model's files.\<close>

definition k_opened :: mem_fs where
  "k_opened = snd (ms_fd ''k~'' (ms_put ''k~'' \<lparr>mf_data = [], mf_time = 1, mf_attr = []\<rparr> no_files))"

lemma k_opens:
  "ce_write mem_cmd_env ''k'' v c off no_files = Inr (\<lparr>ws_writer = Some \<lparr>fw_fd = 0, fw_filename = ''k~''\<rparr>,
     ws_md = KeyMetadata, ws_onClose = None\<rparr>, k_opened)"
  "byte_sink (ce_wo mem_cmd_env) (ce_ro mem_cmd_env) mem_content mem_ok"
  "quiet mem_content mem_ok (ce_local mem_cmd_env)" "quiet mem_content mem_ok (ce_mirror mem_cmd_env)"
  "iw_good (ce_wo mem_cmd_env) \<lparr>fw_fd = 0, fw_filename = ''k~''\<rparr>"
  "mem_ok \<lparr>fw_fd = 0, fw_filename = ''k~''\<rparr> k_opened" "mem_content \<lparr>fw_fd = 0, fw_filename = ''k~''\<rparr> k_opened = []"
proof -
  show "ce_write mem_cmd_env ''k'' v c off no_files = Inr (\<lparr>ws_writer = Some \<lparr>fw_fd = 0, fw_filename = ''k~''\<rparr>,
     ws_md = KeyMetadata, ws_onClose = None\<rparr>, k_opened)"
    by (simp add: k_opened_def mem_cmd_env_def FileWriter_def fw_open_def mem_sys_def no_files_def ms_has_def ms_fd_def Let_def case_prod_beta)
  show "byte_sink (ce_wo mem_cmd_env) (ce_ro mem_cmd_env) mem_content mem_ok"
    using mem_file_sink.byte_sink_axioms by (simp add: mem_cmd_env_def)
  show "quiet mem_content mem_ok (ce_local mem_cmd_env)" "quiet mem_content mem_ok (ce_mirror mem_cmd_env)"
    "iw_good (ce_wo mem_cmd_env) \<lparr>fw_fd = 0, fw_filename = ''k~''\<rparr>"
    by (simp_all add: quiet_def mem_cmd_env_def file_writer_ops_def fw_good_def)
  show "mem_ok \<lparr>fw_fd = 0, fw_filename = ''k~''\<rparr> k_opened" "mem_content \<lparr>fw_fd = 0, fw_filename = ''k~''\<rparr> k_opened = []"
    by (simp_all add: k_opened_def mem_ok_def mem_content_def no_files_def ms_at_def ms_fd_def, simp_all add: ms_put_def ms_has_def ms_file_def)
qed

text \<open>
  What a user sends is what is stored: a write command that is run with an empty buffer and then with the
  buffers of the entry, none of them longer than 65536 bytes, reports success each time and leaves in the
  writer the buffers put together, however they were cut and wherever the flushes fell.
\<close>

theorem write_command_stores_buffers:
  assumes "byte_sink (ce_wo ce) (ce_ro ce) content ok" "quiet content ok (ce_local ce)" "wr_name req \<noteq> []"
    "ce_write ce (wr_name req) (wr_version req) (wr_copies req) (wr_offset req) f = Inr (ws, opened)"
    "ws_writer ws = Some w" "iw_good (ce_wo ce) w" "ok w opened" "content w opened = []"
    "\<forall>d \<in> set bs. d \<noteq> [] \<and> length d \<le> 0x10000"
  shows "\<exists>cmd' f' w'. run_buffers ce ([] # bs) (api_write ce req) f = Inr (True, cmd', f')
           \<and> ws_writer (wm_writer cmd') = Some w' \<and> content w' f' = concat bs \<and> wm_bytes cmd' \<le> 0x10000"
  using byte_sink.entry_arrives [OF assms(1) refl refl _ assms(3-9), of WhenLocalWriteFinishes] assms(2)
  by (auto simp: writing_def api_write_def hook_of_def)

theorem write_command_stores_buffers_witness:
  "\<exists>cmd' f' w'. run_buffers mem_cmd_env ([] # [''hello'', '' world'']) (api_write mem_cmd_env (Write\<lparr>wr_name := ''k''\<rparr>)) no_files
             = Inr (True, cmd', f')
           \<and> ws_writer (wm_writer cmd') = Some w' \<and> mem_content w' f' = concat [''hello'', '' world'']
           \<and> wm_bytes cmd' \<le> 0x10000"
  by (rule write_command_stores_buffers [where ok = mem_ok and req = "Write\<lparr>wr_name := ''k''\<rparr>" and opened = k_opened and w = "\<lparr>fw_fd = 0, fw_filename = ''k~''\<rparr>"
        and ws = "\<lparr>ws_writer = Some \<lparr>fw_fd = 0, fw_filename = ''k~''\<rparr>, ws_md = KeyMetadata, ws_onClose = None\<rparr>"])
    (simp_all add: k_opens)

text \<open>
  C36. Reading sends all of an entry and returns: if the store finds the entry and the connection takes what it
  is given, the read command ends with status 200 and has sent exactly what the reader had left.
\<close>

theorem read_command_sends_entry:
  assumes "byte_source (ce_ro ce) left ok" "takes_all (ce_ro ce) left ok out sent"
    "ce_read ce (nr_name params) (nr_version params) False f = Inr (rs, opened)"
    "rs_reader rs = Some r" "ir_good (ce_ro ce) r" "ok r opened"
  shows "\<exists>f'. ReadCommand_run ce (Some out) params status f = Some (Inr (True, 200, f'))
           \<and> sent f' = sent opened @ left r opened"
  using byte_source.stream_all_sends [OF assms(1,2,4,6)] assms(3-5)
  by (auto simp: ReadCommand_run_def rs_good_def setStatus_def)

definition string_cmd_env :: "(file_writer, string_reader, bytes) cmd_env" where
  "string_cmd_env = \<lparr>ce_hash = plain_env, ce_vl = ref_lib, ce_wall = \<lparr>wc_frozen = 0, wc_system = 5\<rparr>,
     ce_ro = string_reader_ops,
     ce_wo = \<lparr>iw_good = \<lambda>_. False, iw_position = \<lambda>_ _. 0, iw_write = \<lambda>_ w f. (w, f), iw_flush = \<lambda>w f. (False, w, f),
       iw_close = \<lambda>w f. (False, w, f), iw_reader = \<lambda>_ f. (\<lparr>sr_data = [], sr_chunkSize = 0\<rparr>, f), iw_link = \<lambda>_ w f. (False, w, f)\<rparr>,
     ce_write = (\<lambda>_ _ _ _ f. Inr (writestream_none, f)),
     ce_read = (\<lambda>_ _ _ f. Inr (\<lparr>rs_reader = Some \<lparr>sr_data = ''an entry'', sr_chunkSize = 3\<rparr>, rs_md = KeyMetadata\<rparr>, f)),
     ce_local = None, ce_mirror = None, ce_status0 = 0, ce_behind = (\<lambda>_. CHR ''x'')\<rparr>"

theorem read_command_sends_entry_witness:
  "\<exists>f'. ReadCommand_run string_cmd_env (Some \<lparr>by_max = \<lambda>_. 1400, by_write = \<lambda>b f. (int (length b), f @ b)\<rparr>)
      \<lparr>nr_name = ''k'', nr_version = []\<rparr> 0 ''> '' = Some (Inr (True, 200, f')) \<and> id f' = id ''> '' @ ''an entry''"
  using read_command_sends_entry [of string_cmd_env "\<lambda>r f. sr_data r" "\<lambda>r f. True"
      "\<lparr>by_max = \<lambda>_. 1400, by_write = \<lambda>b f. (int (length b), f @ b)\<rparr>" id "\<lparr>nr_name = ''k'', nr_version = []\<rparr>" "''> ''"
      "\<lparr>rs_reader = Some \<lparr>sr_data = ''an entry'', sr_chunkSize = 3\<rparr>, rs_md = KeyMetadata\<rparr>" "''> ''"
      "\<lparr>sr_data = ''an entry'', sr_chunkSize = 3\<rparr>" 0] string_source.byte_source_axioms
  by (simp add: string_cmd_env_def takes_all_def string_reader_ops_def case_prod_beta)

end
