(* ===== verification/Callbacks.thy ===== *)
theory Callbacks
  imports Commands
begin

text \<open>
  What happens at the end of a write: \<^verbatim>\<open>callbacks/\<close>. A write is passed on along the owners of its key
  (\<^verbatim>\<open>MirrorToPeer\<close>, \<^verbatim>\<open>RandomizedMirrorToPeer\<close>, \<^verbatim>\<open>ChainWrite\<close>), the last one tells the source
  (\<^verbatim>\<open>NotifyWriteComplete\<close>), users who wait are woken (\<^verbatim>\<open>Watches\<close>, \<^verbatim>\<open>SynchronizedWatches\<close>), the digest trees are
  updated, and entries below \<^verbatim>\<open>.membership/\<close> change the ring (\<^verbatim>\<open>ModifyPeer\<close>). \<^verbatim>\<open>ComputedOptions\<close> puts the
  chains of callbacks together.
\<close>

section \<open>Choosing the next peer\<close>

text \<open>
  Peers are references, with \<open>uid\<close> to read their name; \<open>self\<close> and \<open>lookup\<close> are those of the membership. The
  position of the first location to go to, from \<open>next\<close> on; the length of the list if there is none.
\<close>

fun next_location :: "string \<Rightarrow> string \<Rightarrow> nat \<Rightarrow> string list \<Rightarrow> nat" where
  "next_location source me i [] = i"
| "next_location source me i (loc # locs) =
     (if loc = source \<or> loc = me then next_location source me (Suc i) locs else i)"

definition MirrorToPeer_chooseMirror :: "(string \<Rightarrow> nat \<Rightarrow> string list) \<Rightarrow> ref option \<Rightarrow> (string \<Rightarrow> ref option) \<Rightarrow> (ref \<Rightarrow> string)
    \<Rightarrow> write_instructions \<Rightarrow> bool \<times> write_instructions \<times> ref option" where
  "MirrorToPeer_chooseMirror locations self lookup uid params =
     (let next = scast (wr_mirror params) :: u32
      in if next \<ge> scast (wr_copies params) then (False, params, None)
         else
           (let locs = locations (wr_name params) (unat (scast (wr_copies params) :: u32))
            in case self of
                 None \<Rightarrow> (False, params, None)
               | Some me \<Rightarrow>
                   (let params = (if wr_mirror params = 0 then params\<lparr>wr_source := uid me\<rparr> else params);
                        i = next_location (wr_source params) (uid me) (unat next) (drop (unat next) locs);
                        peer = (if i < length locs then lookup (locs ! i) else None)
                    in case peer of
                         None \<Rightarrow> (False, params, None)
                       | Some p \<Rightarrow>
                           if p = me \<or> uid p = wr_source params then (False, params, Some p)
                           else (True, params\<lparr>wr_mirror := of_nat (i + 1)\<rparr>, Some p))))"

text \<open>\<open>random\<close> is the random peer of the membership.\<close>

definition RandomizedMirrorToPeer_chooseMirror :: "ref option \<Rightarrow> write_instructions
    \<Rightarrow> bool \<times> write_instructions \<times> ref option" where
  "RandomizedMirrorToPeer_chooseMirror random params =
     (if \<not> wr_mirror params <s wr_copies params then (False, params, None) else (random \<noteq> None, params, random))"

section \<open>ChainWrite\<close>

text \<open>
  \<^verbatim>\<open>ISuperviseWrites\<close>: opening a stream to a peer gives a reference to it; storing passes the content on. Both
  act on the outside state \<open>'f\<close>.
\<close>

record ('r, 'f) supervisor_ops =
  su_open :: "ref \<Rightarrow> write_instructions \<Rightarrow> bool \<Rightarrow> 'f \<Rightarrow> nat option \<times> 'f"
  su_store :: "nat \<Rightarrow> write_instructions \<Rightarrow> 'r readstream \<Rightarrow> 'f \<Rightarrow> bool \<times> 'r readstream \<times> 'f"

definition ChainWrite_run :: "(write_instructions \<Rightarrow> 'f \<Rightarrow> bool \<times> write_instructions \<times> ref option) \<Rightarrow> ('r, 'f) supervisor_ops \<Rightarrow> bool
    \<Rightarrow> write_instructions \<Rightarrow> 'r readstream \<Rightarrow> 'f \<Rightarrow> bool \<times> write_instructions \<times> 'r readstream \<times> 'f" where
  "ChainWrite_run chooseMirror su blocking params contents f =
     (let (res, params, f) =
            (case wi_outstream params of
               Some conn \<Rightarrow> (True, params, f)
             | None \<Rightarrow>
                 (case chooseMirror params f of
                    (False, params, _) \<Rightarrow> (False, params, f)
                  | (True, params, None) \<Rightarrow> (False, params, f)
                  | (True, params, Some peer) \<Rightarrow>
                      (let (conn, f) = su_open su peer params blocking f
                       in (conn \<noteq> None, params\<lparr>wi_outstream := conn\<rparr>, f))))
      in case wi_outstream params of
           Some conn \<Rightarrow> if res then (let (res, contents, f) = su_store su conn params contents f in (res, params, contents, f))
                        else (False, params, contents, f)
         | None \<Rightarrow> (False, params, contents, f))"

section \<open>NotifyWriteComplete\<close>

text \<open>The peer to tell, and the size.\<close>

definition NotifyWriteComplete_run :: "(string \<Rightarrow> peer option) \<Rightarrow> write_instructions \<Rightarrow> u64 \<Rightarrow> sender_call list" where
  "NotifyWriteComplete_run lookup params len =
     (if wr_copies params \<le>s wr_mirror params \<and> wr_source params \<noteq> [] then
        (case lookup (wr_source params) of
           None \<Rightarrow> []
         | Some source \<Rightarrow> [AcknowledgeWrite source (wr_name params) (wr_version params) len])
      else [])"

section \<open>Watches\<close>

text \<open>
  The entries of the \<^verbatim>\<open>unordered_map\<close>, which hashes by the name only: \<open>bucket\<close> is the bucket of a name. A
  bucket holds the entries of several names when their hashes collide.
\<close>

type_synonym 'cb watches = "((string \<times> string) \<times> 'cb) list"

definition wt_watch :: "string \<Rightarrow> string \<Rightarrow> 'cb \<Rightarrow> 'cb watches \<Rightarrow> 'cb watches" where
  "wt_watch name i onNotify ws = AList.update (name, i) onNotify ws"

definition wt_unwatch :: "string \<Rightarrow> string \<Rightarrow> 'cb watches \<Rightarrow> bool \<times> 'cb watches" where
  "wt_unwatch name i ws = (map_of ws (name, i) \<noteq> None, AList.delete (name, i) ws)"

text \<open>The callbacks that are run, in order.\<close>

definition wt_notify :: "(string \<Rightarrow> nat) \<Rightarrow> string \<Rightarrow> 'cb watches \<Rightarrow> bool \<times> 'cb list" where
  "wt_notify bucket name ws =
     (let es = filter (\<lambda>e. bucket (fst (fst e)) = bucket name) ws
      in if es = [] then (False, []) else (True, map snd (filter (\<lambda>e. fst (fst e) = name) es)))"

text \<open>\<^verbatim>\<open>SynchronizedWatches\<close> puts the calls on the queue of the scheduler.\<close>

datatype 'cb watch_task =
  WatchTask string string 'cb
| UnwatchTask string string
| NotifyTask string

definition sw_watch :: "string \<Rightarrow> string \<Rightarrow> 'cb \<Rightarrow> 'cb watch_task list \<Rightarrow> 'cb watch_task list" where
  "sw_watch name wid onNotify queue = queue @ [WatchTask name wid onNotify]"

definition sw_unwatch :: "string \<Rightarrow> string \<Rightarrow> 'cb watch_task list \<Rightarrow> bool \<times> 'cb watch_task list" where
  "sw_unwatch name wid queue = (True, queue @ [UnwatchTask name wid])"

definition sw_notify :: "string \<Rightarrow> 'cb watch_task list \<Rightarrow> bool \<times> 'cb watch_task list" where
  "sw_notify name queue = (True, queue @ [NotifyTask name])"

text \<open>Running a queued call: the watches after it and the callbacks it ran.\<close>

fun wt_run_task :: "(string \<Rightarrow> nat) \<Rightarrow> 'cb watch_task \<Rightarrow> 'cb watches \<Rightarrow> 'cb watches \<times> 'cb list" where
  "wt_run_task bucket (WatchTask name wid onNotify) ws = (wt_watch name wid onNotify ws, [])"
| "wt_run_task bucket (UnwatchTask name wid) ws = (snd (wt_unwatch name wid ws), [])"
| "wt_run_task bucket (NotifyTask name) ws = (ws, snd (wt_notify bucket name ws))"

section \<open>ModifyPeer\<close>

text \<open>
  The part of a running node that membership entries change: ring, directory of peers, the queue in front
  of the trees and the files. \<open>mp_max\<close> is the longest packet of turbolib's \<^verbatim>\<open>StringByteStream\<close>.
\<close>

record ('m, 'a, 'rt, 'f) node =
  nd_ring :: 'm
  nd_peers :: "('a, 'rt) known_peers"
  nd_tasks :: "tabulator_task list"
  nd_files :: 'f

record ('m, 'a, 'rt, 'r, 'f) modify_env =
  mp_hash :: hash_env
  mp_vl :: vc_lib
  mp_circ :: "'m circ_lib"
  mp_routing :: "'rt routing_lib"
  mp_addr :: "'a addr_lib"
  mp_str :: str_lib
  mp_ro :: "('r, 'f) reader_ops"
  mp_file_save :: "string \<Rightarrow> string \<Rightarrow> 'f \<Rightarrow> bool \<times> 'f"
  mp_max :: nat

definition nd_save :: "('m, 'a, 'rt, 'r, 'f) modify_env \<Rightarrow> ('m, 'a, 'rt, 'f) node \<Rightarrow> bool \<times> ('m, 'a, 'rt, 'f) node" where
  "nd_save ev nd = (let (saved, f) = kp_save (mp_routing ev) (mp_str ev) (mp_file_save ev) (nd_peers nd) (nd_files nd)
                    in (saved, nd\<lparr>nd_files := f\<rparr>))"

definition ModifyPeer_update :: "('m, 'a, 'rt, 'r, 'f) modify_env \<Rightarrow> string \<Rightarrow> 'r readstream \<Rightarrow> ('m, 'a, 'rt, 'f) node
    \<Rightarrow> bool \<times> 'r readstream \<times> ('m, 'a, 'rt, 'f) node" where
  "ModifyPeer_update ev uid contents nd =
     (let (b, contents, f) = rs_stream (mp_ro ev) (mp_max ev) contents (nd_files nd);
          ip = (case b of None \<Rightarrow> [] | Some b \<Rightarrow> b);
          (isNew, peers) = kp_update (mp_routing ev) (mp_addr ev) uid [ip] (nd_peers nd);
          (saved, nd) = nd_save ev (nd\<lparr>nd_files := f, nd_peers := peers\<rparr>)
      in if \<not> saved then (False, contents, nd)
         else if \<not> isNew then (True, contents, nd)
         else (True, contents, nd\<lparr>nd_ring := snd (ring_insert (mp_hash ev) (mp_circ ev) uid uid (nd_ring nd)),
                                  nd_tasks := sk_splitSection uid (nd_tasks nd)\<rparr>))"

definition ModifyPeer_remove :: "('m, 'a, 'rt, 'r, 'f) modify_env \<Rightarrow> string \<Rightarrow> ('m, 'a, 'rt, 'f) node
    \<Rightarrow> bool \<times> ('m, 'a, 'rt, 'f) node" where
  "ModifyPeer_remove ev uid nd =
     (let (removed, peers) = kp_remove (mp_routing ev) (mp_addr ev) uid (nd_peers nd); nd = nd\<lparr>nd_peers := peers\<rparr>
      in if \<not> removed then (False, nd)
         else (let (saved, nd) = nd_save ev nd
               in if \<not> saved then (False, nd)
                  else (True, nd\<lparr>nd_ring := snd (ring_erase (mp_hash ev) (mp_circ ev) uid (nd_ring nd)),
                                 nd_tasks := sk_cannibalizeSection uid (nd_tasks nd)\<rparr>)))"

definition ModifyPeer_run :: "('m, 'a, 'rt, 'r, 'f) modify_env \<Rightarrow> write_instructions \<Rightarrow> 'r readstream
    \<Rightarrow> ('m, 'a, 'rt, 'f) node \<Rightarrow> (bool \<times> 'r readstream \<times> ('m, 'a, 'rt, 'f) node) result" where
  "ModifyPeer_run ev params contents nd =
     (if \<not> has_prefix MEMBERSHIP_FILE_PREFIX (wr_name params) then Inr (False, contents, nd)
      else
        (let uid = drop (length MEMBERSHIP_FILE_PREFIX) (wr_name params)
         in rbind (vc_fromString (mp_vl ev) (wr_version params) []) (\<lambda>(_, version).
              if isDeleted version
              then (let (res, nd) = ModifyPeer_remove ev uid nd in Inr (res, contents, nd))
              else Inr (ModifyPeer_update ev uid contents nd))))"

section \<open>ComputedOptions\<close>

text \<open>
  The links of the chains; turbolib's \<^verbatim>\<open>function_chain\<close> runs them in the order they were added. \<open>Custom\<close> are those
  that \<^verbatim>\<open>build_callbacks\<close> adds.
\<close>

datatype 'x link =
  DigestAdd
| DigestDel
| ChainPartition bool
| ChainClone bool
| NotifyWatches
| NotifyComplete
| Membership
| Custom 'x

record 'x options =
  op_home_dir :: string
  op_store :: string
  op_internal_port :: i16
  op_udt :: bool
  op_sync_interval_ms :: u32
  op_offload_interval_ms :: u32
  op_partition_keys :: bool
  op_write_chaining :: bool
  op_active_sync :: bool
  op_local :: "'x link list"
  op_mirror :: "'x link list"
  op_drop :: "'x link list"
  op_build :: "('x link list \<times> 'x link list \<times> 'x link list \<Rightarrow> 'x link list \<times> 'x link list \<times> 'x link list) option"

definition Options :: "'x options" where
  "Options = \<lparr>op_home_dir = ''.'', op_store = ''default:store'', op_internal_port = 1593, op_udt = True,
     op_sync_interval_ms = 2000, op_offload_interval_ms = 5000, op_partition_keys = True, op_write_chaining = True,
     op_active_sync = True, op_local = [], op_mirror = [], op_drop = [], op_build = None\<rparr>"

definition ComputedOptions :: "'x options \<Rightarrow> 'x options" where
  "ComputedOptions opts =
     (let local = op_local opts @ (if op_active_sync opts then [DigestAdd] else [])
                    @ (if op_write_chaining opts
                       then (if op_partition_keys opts then [ChainPartition True] else [ChainClone True]) else [])
                    @ [NotifyWatches, Membership];
          mirror = op_mirror opts @ (if op_active_sync opts then [DigestAdd] else [])
                    @ (if op_write_chaining opts \<and> op_partition_keys opts then [ChainPartition False] else [])
                    @ [NotifyComplete, NotifyWatches, Membership];
          drp = op_drop opts @ (if op_active_sync opts then [DigestDel] else []);
          (local, mirror, drp) = (case op_build opts of None \<Rightarrow> (local, mirror, drp) | Some g \<Rightarrow> g (local, mirror, drp))
      in opts\<lparr>op_local := local, op_mirror := mirror, op_drop := drp\<rparr>)"

text \<open>\<^verbatim>\<open>digestAddFunct\<close> and \<^verbatim>\<open>digestDelFunct\<close>: the calls on the tabulator.\<close>

definition digestAdd :: "write_instructions \<Rightarrow> 'r readstream \<Rightarrow> tabulator_task list \<Rightarrow> tabulator_task list" where
  "digestAdd params contents queue =
     sk_update (wr_name params) (wi_digest params XOR rs_digest contents) (scast (wr_copies params)) queue"

definition digestDel :: "drop_req \<Rightarrow> tabulator_task list \<Rightarrow> tabulator_task list" where
  "digestDel params queue = sk_remove (dq_name params) (scast (dq_copies params)) queue"

text \<open>Running a chain: \<open>call\<close> runs one link.\<close>

definition run_chain :: "('l \<Rightarrow> ('r, 'f) commit_hook) \<Rightarrow> 'l list \<Rightarrow> ('r, 'f) commit_hook" where
  "run_chain call links params contents f =
     fold (\<lambda>l (params, contents, f). call l params contents f) links (params, contents, f)"

section \<open>The chain of owners\<close>

lemma next_location_bounds:
  "i \<le> next_location source me i locs" "next_location source me i locs \<le> i + length locs"
proof (induction locs arbitrary: i)
  case (Cons l locs)
  {
    case 1
    show ?case using Cons.IH(1) [of "Suc i"] by (auto dest: Suc_leD)
  next
    case 2
    show ?case using Cons.IH(2) [of "Suc i"] by auto
  }
qed simp_all

lemma next_location_skips:
  "i \<le> k \<Longrightarrow> k < next_location source me i locs \<Longrightarrow> locs ! (k - i) \<in> {source, me}"
proof (induction locs arbitrary: i)
  case (Cons l locs)
  then show ?case
    by (cases "k = i") (auto simp: nth_Cons' split: if_splits)
qed simp

lemma next_location_stops:
  "next_location source me i locs < i + length locs \<Longrightarrow> locs ! (next_location source me i locs - i) \<notin> {source, me}"
proof (induction locs arbitrary: i)
  case (Cons l locs)
  show ?case
  proof (cases "l = source \<or> l = me")
    case True
    then have "next_location source me (Suc i) locs < Suc i + length locs" using Cons.prems by simp
    from Cons.IH [OF this] show ?thesis
      using True next_location_bounds(1) [of "Suc i" source me locs] by (simp add: nth_Cons' Suc_diff_Suc)
  next
    case False
    then show ?thesis by auto
  qed
qed simp

lemma next_location_filter:
  assumes "i \<le> length locs" "me \<notin> set (drop i locs) - {source}"
  shows "filter (\<lambda>l. l \<noteq> source) (drop i locs) =
    (let j = next_location source me i (drop i locs)
     in if j < length locs then locs ! j # filter (\<lambda>l. l \<noteq> source) (drop (Suc j) locs) else [])"
  using assms
proof (induction "length locs - i" arbitrary: i)
  case 0
  then show ?case by simp
next
  case (Suc n)
  then have lt: "i < length locs" by simp
  then have d: "drop i locs = locs ! i # drop (Suc i) locs" by (simp add: Cons_nth_drop_Suc)
  show ?case
  proof (cases "locs ! i = source")
    case True
    have "filter (\<lambda>l. l \<noteq> source) (drop (Suc i) locs) =
      (let j = next_location source me (Suc i) (drop (Suc i) locs)
       in if j < length locs then locs ! j # filter (\<lambda>l. l \<noteq> source) (drop (Suc j) locs) else [])"
      using Suc by (intro Suc.hyps(1)) (auto simp: d)
    then show ?thesis using True by (simp add: d)
  next
    case False
    moreover from this have "locs ! i \<noteq> me" using Suc.prems(2) d by auto
    ultimately show ?thesis using lt by (simp add: d Let_def)
  qed
qed

text \<open>
  The peers a write visits when every peer knows every owner and sees the same ring: each one that is chosen
  chooses the next, with the instructions it was given. Peers go by their names here.
\<close>

fun chain :: "nat \<Rightarrow> (string \<Rightarrow> ref) \<Rightarrow> (ref \<Rightarrow> string) \<Rightarrow> (string \<Rightarrow> nat \<Rightarrow> string list) \<Rightarrow> ref \<Rightarrow> write_instructions
    \<Rightarrow> (string \<times> write_instructions) list" where
  "chain 0 ref_of uid locations self params = []"
| "chain (Suc n) ref_of uid locations self params =
     (case MirrorToPeer_chooseMirror locations (Some self) (\<lambda>l. Some (ref_of l)) uid params of
        (True, params', Some p) \<Rightarrow> (uid p, params') # chain n ref_of uid locations p params'
      | _ \<Rightarrow> [])"

lemma mirror_word:
  assumes "n < 2 ^ 15"
  shows "unat (scast (of_nat n :: i16) :: u32) = n" "(of_nat n :: i16) = 0 \<longleftrightarrow> n = 0"
proof -
  have u: "unat (of_nat n :: i16) = n" using assms by (intro of_nat_inverse [OF refl]) simp
  have "sint (of_nat n :: i16) = int n"
    using assms by (simp add: sint_uint unsigned_of_nat signed_take_bit_eq_if_positive take_bit_nat_eq_self bit_iff_odd take_bit_int_eq_self)
  then have "(scast (of_nat n :: i16) :: u32) = of_nat n" by (simp add: scast_eq)
  moreover have "unat (of_nat n :: u32) = n" using assms by (intro of_nat_inverse [OF refl]) simp
  ultimately show "unat (scast (of_nat n :: i16) :: u32) = n" by simp
  show "(of_nat n :: i16) = 0 \<longleftrightarrow> n = 0" using u unat_eq_0 [of "of_nat n :: i16"] by simp
qed

text \<open>The next peer, for a position and a number of copies that fit a \<^verbatim>\<open>short\<close>.\<close>

lemma chooseMirror_position:
  assumes "wr_mirror params = of_nat i" "wr_copies params = of_nat (length locs)" "i < length locs" "length locs < 2 ^ 15"
    "\<forall>n. locations (wr_name params) n = locs" "\<forall>l \<in> set locs. uid (ref_of l) = l" "ref_of (uid me) = me"
    "src = (if i = 0 then uid me else wr_source params)"
    "j = next_location src (uid me) i (drop i locs)"
  shows "MirrorToPeer_chooseMirror locations (Some me) (\<lambda>l. Some (ref_of l)) uid params =
     (if j < length locs then (True, params\<lparr>wr_source := src, wr_mirror := of_nat (j + 1)\<rparr>, Some (ref_of (locs ! j)))
      else (False, params\<lparr>wr_source := src\<rparr>, None))"
proof -
  have n: "unat (scast (wr_mirror params) :: u32) = i" "unat (scast (wr_copies params) :: u32) = length locs"
    "wr_mirror params = 0 \<longleftrightarrow> i = 0"
    using assms(1-4) mirror_word [of i] mirror_word [of "length locs"] by simp_all
  have lt: "\<not> (scast (wr_mirror params) :: u32) \<ge> scast (wr_copies params)"
    using n assms(3) by (simp add: word_le_nat_alt)
  have src: "(if wr_mirror params = 0 then params\<lparr>wr_source := uid me\<rparr> else params) = params\<lparr>wr_source := src\<rparr>"
    using assms(8) n(3) by (cases "i = 0") simp_all
  have "locs ! j \<notin> {src, uid me}" if "j < length locs"
    using next_location_stops [of src "uid me" i "drop i locs"] next_location_bounds(1) [of i src "uid me" "drop i locs"] that assms(3,9)
    by (simp add: nth_drop)
  moreover from this have "ref_of (locs ! j) \<noteq> me" if "j < length locs" using that assms(6) nth_mem [OF that] by auto
  ultimately show ?thesis
    using lt assms(5,6) n(1) unfolding MirrorToPeer_chooseMirror_def Let_def
    by (simp add: src [unfolded Let_def] assms(9) [symmetric])
qed

lemma chain_from:
  assumes "distinct locs" "length locs < 2 ^ 15" "\<forall>n. locations (wr_name params) n = locs" "\<forall>l \<in> set locs. uid (ref_of l) = l" "ref_of (uid me) = me"
    "wr_mirror params = of_nat i" "wr_copies params = of_nat (length locs)" "i \<le> length locs" "length locs - i < n"
    "uid me \<notin> set (drop i locs) - {src}" "src = (if i = 0 then uid me else wr_source params)"
  shows "map fst (chain n ref_of uid locations me params) = filter (\<lambda>l. l \<noteq> src) (drop i locs)"
  using assms(3,5-11)
proof (induction n arbitrary: i me params)
  case 0
  then show ?case by simp
next
  case (Suc n)
  show ?case
  proof (cases "i < length locs")
    case False
    then have "scast (wr_mirror params) \<ge> (scast (wr_copies params) :: u32)"
      using Suc.prems mirror_word [of i] mirror_word [of "length locs"] assms(2) by (simp add: word_le_nat_alt)
    then show ?thesis using False by (simp add: MirrorToPeer_chooseMirror_def)
  next
    case True
    define j where "j = next_location src (uid me) i (drop i locs)"
    note c = chooseMirror_position [where locations = locations and uid = uid and ref_of = ref_of and src = src and i = i
        and locs = locs and params = params and me = me and j = j, OF Suc.prems(3,4) True assms(2) Suc.prems(1) assms(4) Suc.prems(2,8) j_def]
    have f: "filter (\<lambda>l. l \<noteq> src) (drop i locs)
        = (if j < length locs then locs ! j # filter (\<lambda>l. l \<noteq> src) (drop (Suc j) locs) else [])"
      using next_location_filter [of i locs "uid me" src] Suc.prems(5,7) by (simp add: j_def Let_def)
    show ?thesis
    proof (cases "j < length locs")
      case False
      then show ?thesis using c f by simp
    next
      case jl: True
      let ?p = "params\<lparr>wr_source := src, wr_mirror := of_nat (j + 1)\<rparr>"
      have ij: "i \<le> j" unfolding j_def by (rule next_location_bounds)
      have "map fst (chain n ref_of uid locations (ref_of (locs ! j)) ?p) = filter (\<lambda>l. l \<noteq> src) (drop (Suc j) locs)"
      proof (rule Suc.IH)
        show "uid (ref_of (locs ! j)) \<notin> set (drop (Suc j) locs) - {src}"
        proof -
          have "distinct (locs ! j # drop (Suc j) locs)"
            unfolding Cons_nth_drop_Suc [OF jl] using assms(1) by (rule distinct_drop)
          then show ?thesis using assms(4) nth_mem [OF jl] by simp
        qed
      qed (use Suc.prems assms(4) jl ij in auto)
      then show ?thesis using c f jl assms(4) by simp
    qed
  qed
qed

section \<open>Removing a peer\<close>

text \<open>
  Merging a section takes away the tree of the section it is told and hands its keys on; another section
  stays in the forest.
\<close>

lemma cannibalize_other_section:
  assumes "RBT.lookup (di_forest di) (lo_section lo loc) \<noteq> None" "RBT.lookup (di_forest di) own \<noteq> None"
    "own \<noteq> lo_section lo loc"
  shows "RBT.lookup (di_forest (di_cannibalizeSection lo ml env loc di)) own \<noteq> None"
    "RBT.lookup (di_forest (di_cannibalizeSection lo ml env loc di)) (lo_section lo loc) = None"
  using assms nextTree_other [OF assms(1,2)]
  by (auto simp: di_cannibalizeSection_def Let_def)

lemma ring_node_section:
  assumes "circular lib" "map_of (cl_items lib ring) (Hash env uid) = Some peer"
  shows "lk_section env lib ring uid = Hash env uid"
proof -
  let ?k = "Hash env uid"
  let ?ge = "filter (\<lambda>x. ?k \<le> fst x) (cl_items lib ring)"
  have mem: "(?k, peer) \<in> set ?ge" using map_of_SomeD [OF assms(2)] by simp
  then obtain x xs where x: "?ge = x # xs" by (cases ?ge) auto
  have "sorted_wrt (<) (map fst ?ge)"
    using circularD(1) [OF assms(1), of ring] by (simp add: sorted_wrt_map sorted_wrt_filter)
  then have "fst x \<le> ?k" using mem x by auto
  moreover have "x \<in> set ?ge" unfolding x by simp
  then have "?k \<le> fst x" by simp
  ultimately show ?thesis
    by (simp add: lk_section_def ring_nodeId_def hash_str_def circularD(2) [OF assms(1)] x)
qed

lemma ring_erased_section:
  assumes "circular lib" "Hash env uid \<noteq> []"
  shows "lk_section env lib (snd (ring_erase env lib uid ring)) uid \<noteq> Hash env uid"
proof -
  let ?ring = "snd (cl_erase lib (Hash env uid) ring)"
  have "map_of (cl_items lib ?ring) (Hash env uid) = None" by (simp add: circularD(4) [OF assms(1)])
  then have no: "Hash env uid \<notin> fst ` set (cl_items lib ?ring)" by (simp add: map_of_eq_None_iff)
  have "e \<in> set (cl_items lib ?ring)" if "cl_from lib k ?ring = e # es" for k e es
    using that set_cl_from [OF assms(1), of k ?ring] by (metis list.set_intros(1))
  then have "fst e \<noteq> Hash env uid" if "cl_from lib k ?ring = e # es" for k e es
    using that no by (metis imageI)
  then have "ring_nodeId lib ?ring (Hash env uid) \<noteq> Hash env uid"
    using assms(2) by (simp add: ring_nodeId_def split: list.split)
  then show ?thesis by (simp add: lk_section_def ring_erase_def hash_str_def case_prod_beta)
qed

section \<open>Properties\<close>

text \<open>
  C14. Every owner is reached: a write that starts at a peer is passed on, from one peer to the next, along
  exactly the locations of its key, in their order and each once, leaving out the peer it started from;
  given that the locations are distinct, fit a \<^verbatim>\<open>short\<close>, and that the peers agree on them and know each other.
\<close>

theorem write_chain_visits_owners:
  assumes "distinct locs" "length locs < 2 ^ 15" "\<forall>n. locations (wr_name params) n = locs"
    "\<forall>l \<in> set locs. uid (ref_of l) = l" "ref_of (uid me) = me"
    "wr_mirror params = 0" "wr_copies params = of_nat (length locs)"
  shows "map fst (chain (Suc (length locs)) ref_of uid locations me params) = filter (\<lambda>l. l \<noteq> uid me) locs"
  using chain_from [where i = 0 and src = "uid me" and n = "Suc (length locs)" and locs = locs and params = params
      and locations = locations and uid = uid and ref_of = ref_of and me = me, OF assms(1-5)] assms(6,7) by simp

definition three_names :: "nat \<Rightarrow> string" where
  "three_names r = (if r = 0 then ''a'' else if r = 1 then ''b'' else ''c'')"

definition three_refs :: "string \<Rightarrow> nat" where
  "three_refs l = (if l = ''a'' then 0 else if l = ''b'' then 1 else 2)"

theorem write_chain_visits_owners_witness:
  "map fst (chain (Suc (length [''b'', ''a'', ''c''])) three_refs three_names (\<lambda>_ _. [''b'', ''a'', ''c'']) 0
      (WriteInstructions_of ''k'' ''v'' 0 (of_nat (length [''b'', ''a'', ''c'']))))
   = filter (\<lambda>l. l \<noteq> three_names 0) [''b'', ''a'', ''c'']"
  by (rule write_chain_visits_owners)
    (simp_all add: three_refs_def three_names_def WriteInstructions_of_def WriteInstructions_def)

text \<open>
  C37. Removing a peer merges the wrong section: \<^verbatim>\<open>ModifyPeer::remove\<close> takes the peer off the ring before it
  asks for its section to be merged, so when that is done the name already leads to the section of the
  next peer. The tree of the removed peer stays in the index, and the tree of its successor is gone.
\<close>

theorem removal_merges_section_of_successor:
  assumes "ModifyPeer_remove ev uid nd = (True, nd')" "circular (mp_circ ev)"
    "map_of (cl_items (mp_circ ev) (nd_ring nd)) (Hash (mp_hash ev) uid) = Some peer" "Hash (mp_hash ev) uid \<noteq> []"
    "lo = ring_locator (mp_hash ev) (mp_circ ev) (nd_ring nd') self"
    "RBT.lookup kt mirrors = Some (Sections di)"
    "RBT.lookup (di_forest di) (lk_section (mp_hash ev) (mp_circ ev) (nd_ring nd) uid) \<noteq> None"
    "RBT.lookup (di_forest di) (lo_section lo uid) \<noteq> None"
  shows "nd_tasks nd' = nd_tasks nd @ [CannibalizeTask uid]
    \<and> (\<exists>di'. RBT.lookup (kt_run_task lo ml (mp_hash ev) (CannibalizeTask uid) kt) mirrors = Some (Sections di')
         \<and> RBT.lookup (di_forest di') (lk_section (mp_hash ev) (mp_circ ev) (nd_ring nd) uid) \<noteq> None
         \<and> RBT.lookup (di_forest di') (lo_section lo uid) = None)"
proof -
  let ?own = "lk_section (mp_hash ev) (mp_circ ev) (nd_ring nd) uid"
  have nd': "nd_ring nd' = snd (ring_erase (mp_hash ev) (mp_circ ev) uid (nd_ring nd))"
      "nd_tasks nd' = nd_tasks nd @ [CannibalizeTask uid]"
    using assms(1) by (auto simp: ModifyPeer_remove_def nd_save_def sk_cannibalizeSection_def Let_def split: prod.splits if_splits)
  have "lo_section lo uid \<noteq> Hash (mp_hash ev) uid"
    using ring_erased_section [OF assms(2,4)] by (simp add: assms(5) ring_locator_def nd'(1))
  then have "?own \<noteq> lo_section lo uid" using ring_node_section [OF assms(2,3)] by simp
  from cannibalize_other_section [OF assms(8,7) this]
  show ?thesis
    using nd'(2) assms(6) by (simp add: kt_cannibalizeSection_def di_call_def)
qed

definition cut_env :: "((string, string) rbt, string \<times> string, (string \<times> ref) list, string_reader, unit) modify_env" where
  "cut_env = \<lparr>mp_hash = plain_env, mp_vl = ref_lib, mp_circ = rbt_circ, mp_routing = list_rt, mp_addr = list_addr,
     mp_str = list_str, mp_ro = string_reader_ops, mp_file_save = (\<lambda>_ _ f. (True, f)), mp_max = 65535\<rparr>"

definition cut_node :: "((string, string) rbt, string \<times> string, (string \<times> ref) list, unit) node" where
  "cut_node = \<lparr>nd_ring = wide_ring, nd_peers = snd (kp_update list_rt list_addr ''cccccccc'' [''1.1.1.2:80''] one_peer),
     nd_tasks = [], nd_files = ()\<rparr>"

definition cut_index :: "(u64, u64 \<times> string) rbt digest_indexer" where
  "cut_index = di_update wide_loc rbt_merkle plain_env ''kkkkkkkk'' 7
     (di_update wide_loc rbt_merkle plain_env ''aaaaaaaa'' 5 (DigestIndexer 1))"

lemma removal_merges_section_of_successor_witness:
  "\<exists>di'. RBT.lookup (kt_run_task (ring_locator plain_env rbt_circ (nd_ring (snd (ModifyPeer_remove cut_env ''cccccccc'' cut_node)))
          (Some ''mmmmmmmm'')) rbt_merkle plain_env (CannibalizeTask ''cccccccc'') (RBT.insert 1 (Sections cut_index) RBT.empty)) 1
       = Some (Sections di')
     \<and> RBT.lookup (di_forest di') ''cccccccc'' \<noteq> None \<and> RBT.lookup (di_forest di') ''mmmmmmmm'' = None"
proof -
  let ?nd = "snd (ModifyPeer_remove cut_env ''cccccccc'' cut_node)"
  have env: "mp_hash cut_env = plain_env" "mp_circ cut_env = rbt_circ" "mp_routing cut_env = list_rt" "mp_addr cut_env = list_addr"
    "mp_str cut_env = list_str" "mp_file_save cut_env = (\<lambda>_ _ f. (True, f))" "nd_ring cut_node = wide_ring"
    by (simp_all add: cut_env_def cut_node_def)
  have known: "fst (kp_remove list_rt list_addr ''cccccccc'' (nd_peers cut_node))" by code_simp
  then have run: "ModifyPeer_remove cut_env ''cccccccc'' cut_node = (True, ?nd)"
    "nd_ring ?nd = snd (ring_erase plain_env rbt_circ ''cccccccc'' wide_ring)"
    by (simp_all add: ModifyPeer_remove_def nd_save_def kp_save_def env case_prod_beta Let_def)
  have sect: "lk_section plain_env rbt_circ wide_ring ''cccccccc'' = ''cccccccc''"
    "lo_section (ring_locator plain_env rbt_circ (snd (ring_erase plain_env rbt_circ ''cccccccc'' wide_ring)) (Some ''mmmmmmmm''))
       ''cccccccc'' = ''mmmmmmmm''" by code_simp+
  have ring: "map_of (cl_items rbt_circ wide_ring) (Hash plain_env ''cccccccc'') = Some ''cccccccc''" by code_simp
  have trees: "RBT.keys (di_forest cut_index) = [''cccccccc'', ''mmmmmmmm'']" by code_simp
  have dom: "RBT.lookup (di_forest cut_index) s \<noteq> None \<longleftrightarrow> s \<in> {''cccccccc'', ''mmmmmmmm''}" for s
    using keys_eq_dom [of "di_forest cut_index"] unfolding trees by (auto simp: domIff)
  show ?thesis
    using removal_merges_section_of_successor [OF run(1), where lo = "ring_locator plain_env rbt_circ (nd_ring ?nd) (Some ''mmmmmmmm'')"
        and kt = "RBT.insert 1 (Sections cut_index) RBT.empty" and mirrors = 1 and self = "Some ''mmmmmmmm''" and di = cut_index
        and ml = rbt_merkle and peer = "''cccccccc''"]
    unfolding env run(2) sect using ring dom circular_rbt_circ by (simp add: Hash_def plain_env_def)
qed

end
