(* ===== verification/Startup.thy ===== *)
theory Startup
  imports Callbacks FileStore
begin

text \<open>
  Putting the program together: \<^verbatim>\<open>turbopump/Turbopump\<close>, \<^verbatim>\<open>turbopump/App\<close>, the options \<^verbatim>\<open>exe/turbopumpd/main\<close>
  reads from the command line, and the state and status of the process in \<^verbatim>\<open>common/\<close>. The option parser, sockets
  and threads are outside of the sources.
\<close>

section \<open>State and status of the process\<close>

definition ProcessState_starting :: "string \<Rightarrow> string" where
  "ProcessState_starting summary = ''starting''"

definition ProcessState_running :: "string \<Rightarrow> string" where
  "ProcessState_running summary = ''running''"

definition ProcessState_stopping :: "string \<Rightarrow> string" where
  "ProcessState_stopping summary = ''stopping''"

definition StatusReporter_status :: "hash_env \<Rightarrow> (string list \<Rightarrow> string) \<Rightarrow> 'm circ_lib \<Rightarrow> 'rt routing_lib \<Rightarrow> str_lib
    \<Rightarrow> 'm \<Rightarrow> ('a, 'rt) known_peers \<Rightarrow> string \<Rightarrow> string \<Rightarrow> string" where
  "StatusReporter_status env join circ rl sl ring membership state system =
     (if system = ''membership'' then kp_toString rl sl membership
      else if system = ''ring'' then ring_toString env join circ ring
      else state)"

section \<open>Factories\<close>

datatype data_store = SimpleFileStoreAt string | FileStoreAt string

definition dataStore :: "str_lib \<Rightarrow> 'x options \<Rightarrow> data_store" where
  "dataStore sl opts =
     (let parts = sl_split sl (op_store opts) (CHR '':'');
          (kind, path) = (case parts of [] \<Rightarrow> ([], [])
                          | p # ps \<Rightarrow> (p, case ps of [] \<Rightarrow> [] | q # _ \<Rightarrow> q));
          path = (if path = [] then op_home_dir opts @ ''/store''
                  else if hd path \<noteq> CHR ''/'' then op_home_dir opts @ ''/'' @ path else path)
      in if kind = ''file'' then SimpleFileStoreAt path else FileStoreAt path)"

datatype peer_server = UdtServer string i16 | UdpServer string i16

definition peerServer :: "'x options \<Rightarrow> peer_server" where
  "peerServer opts =
     (if op_udt opts then UdtServer ''127.0.0.1'' (op_internal_port opts) else UdpServer ''127.0.0.1'' (op_internal_port opts))"

section \<open>Before and after the servers are started\<close>

text \<open>
  \<^verbatim>\<open>preStart\<close>: the members of the file are entered into the store and the ring. \<open>encode\<close>, \<open>raw\<close>, \<open>lines\<close>, \<open>res\<close> and
  \<open>put\<close> are those of loading and of \<^verbatim>\<open>syncToDataStore\<close>; the last component of the result are the warnings.
\<close>

definition Turbopump_preStart :: "hash_env \<Rightarrow> vc_lib \<Rightarrow> wall_clock \<Rightarrow> 'm circ_lib \<Rightarrow> 'rt routing_lib \<Rightarrow> 'a addr_lib \<Rightarrow> str_lib
    \<Rightarrow> (string \<Rightarrow> string) \<Rightarrow> string \<Rightarrow> string list \<Rightarrow> bool \<Rightarrow> (string \<Rightarrow> string \<Rightarrow> u16 \<Rightarrow> string \<Rightarrow> 'f \<Rightarrow> 'f) \<Rightarrow> 'x options
    \<Rightarrow> ('m, 'a, 'rt, 'f) node \<Rightarrow> string \<Rightarrow> ('m, 'a, 'rt, 'f) node \<times> string \<times> string list" where
  "Turbopump_preStart env vl w circ rl al sl encode raw lines res put opts nd mid =
     (let (loaded, kp, mid) = kp_load rl al sl encode raw lines res (nd_peers nd) mid;
          nd = nd\<lparr>nd_peers := kp\<rparr>;
          (nd, warnings) = (if loaded then (nd\<lparr>nd_files := syncToDataStore rl vl w put kp (nd_files nd)\<rparr>, [])
                            else (nd, [''failed to load membership.'']));
          nd = (if op_partition_keys opts
                then nd\<lparr>nd_ring := fold (\<lambda>p ring. snd (ring_insert env circ (pr_uid p) (pr_uid p) ring)) (kp_eachPeer rl kp) (nd_ring nd)\<rparr>
                else nd)
      in (nd, mid, warnings))"

text \<open>
  \<^verbatim>\<open>postStart\<close>: the entries of the store are entered into the digest trees. \<open>enumerate_store\<close> is \<^verbatim>\<open>IStore::enumerate\<close>.
\<close>

definition Turbopump_postStart :: "locator \<Rightarrow> 'mt merkle_lib \<Rightarrow> hash_env
    \<Rightarrow> ((string \<Rightarrow> key_metadata \<Rightarrow> string \<Rightarrow> 'mt key_tabulator \<Rightarrow> 'mt key_tabulator) \<Rightarrow> u64 \<Rightarrow> string \<Rightarrow> 'f \<Rightarrow> 'mt key_tabulator
         \<Rightarrow> ('f \<times> 'mt key_tabulator) result)
    \<Rightarrow> 'x options \<Rightarrow> 'f \<Rightarrow> 'mt key_tabulator \<Rightarrow> ('f \<times> 'mt key_tabulator) result" where
  "Turbopump_postStart lo ml env enumerate_store opts f kt =
     (if op_active_sync opts
      then enumerate_store (\<lambda>name md _ kt. kt_update lo ml env name (km_digest md) (ucast (km_totalCopies md)) kt) (NOT 0) [] f kt
      else Inr (f, kt))"

section \<open>App\<close>

text \<open>The calls of \<^verbatim>\<open>App::run\<close> on its parts, in order; \<open>executor\<close> and \<open>server\<close> say whether those two start.\<close>

datatype app_call =
  SetState string
| PreStart
| StartExecutor
| StartServer
| LogError string
| StopExecutor
| PostStart
| SchedulePing u32
| ScheduleOffload u32
| WaitForShutdown
| ShutdownScheduler
| StopServer
| ShutdownCenter

definition App_run :: "bool \<Rightarrow> bool \<Rightarrow> string \<Rightarrow> 'x options \<Rightarrow> string \<Rightarrow> bool \<times> app_call list" where
  "App_run executor server lastError opts summary =
     (let start = [SetState (ProcessState_starting summary), PreStart, StartExecutor]
      in if \<not> executor then (False, start @ [LogError ''failed to start wan handler threads. Abort.''])
         else if \<not> server then
           (False, start @ [StartServer, LogError (''failed to start wan server. Abort. '' @ lastError), StopExecutor])
         else
           (True, start @ [StartServer, PostStart, SchedulePing (op_sync_interval_ms opts), ScheduleOffload (op_offload_interval_ms opts),
                           SetState (ProcessState_running summary), WaitForShutdown, SetState (ProcessState_stopping summary),
                           ShutdownScheduler, StopServer, ShutdownCenter, StopExecutor]))"

section \<open>The command line\<close>

text \<open>
  What the option parser gives: the text of an option, its value as an \<^verbatim>\<open>unsigned long\<close>, and whether a flag is set.
\<close>

record command_line =
  cl_string :: "string \<Rightarrow> string option"
  cl_ulong :: "string \<Rightarrow> u64 option"
  cl_isSet :: "string \<Rightarrow> bool"

datatype local_addr = NoAddr | SocketPath string | HostAndPort string int

definition main_localAddr :: "str_lib \<Rightarrow> (string \<Rightarrow> int result) \<Rightarrow> command_line \<Rightarrow> local_addr result" where
  "main_localAddr sl stoi cl =
     (case cl_string cl ''--local-addr'' of
        None \<Rightarrow> Inr NoAddr
      | Some turbopath \<Rightarrow>
          (let comps = sl_split sl turbopath (CHR '':'')
           in if length comps = 1 then Inr (SocketPath (comps ! 0))
              else if length comps = 2 then rbind (stoi (comps ! 1)) (\<lambda>port. Inr (HostAndPort (comps ! 0) port))
              else Inr NoAddr))"

definition main_options :: "command_line \<Rightarrow> 'x options \<Rightarrow> 'x options" where
  "main_options cl opts =
     (let opts = (case cl_ulong cl ''--port'' of None \<Rightarrow> opts | Some n \<Rightarrow> opts\<lparr>op_internal_port := ucast n\<rparr>);
          opts = (case cl_ulong cl ''--sync-interval'' of None \<Rightarrow> opts | Some n \<Rightarrow> opts\<lparr>op_sync_interval_ms := ucast n\<rparr>);
          opts = (case cl_string cl ''--home'' of None \<Rightarrow> opts | Some d \<Rightarrow> opts\<lparr>op_home_dir := d\<rparr>);
          opts = (case cl_string cl ''--store'' of None \<Rightarrow> opts | Some d \<Rightarrow> opts\<lparr>op_store := d\<rparr>);
          opts = (if cl_isSet cl ''--clone'' then opts\<lparr>op_partition_keys := False\<rparr> else opts);
          opts = (if cl_isSet cl ''--no-write-chaining'' then opts\<lparr>op_write_chaining := False\<rparr> else opts);
          opts = (if cl_isSet cl ''--no-active-sync'' then opts\<lparr>op_active_sync := False\<rparr> else opts)
      in if cl_isSet cl ''--udp'' then opts\<lparr>op_udt := False\<rparr> else opts)"

text \<open>\<^verbatim>\<open>TurboApp\<close>: the server for users by the port of its address, and its calls around those of \<^verbatim>\<open>App::run\<close>.\<close>

datatype local_server = LocalSocketServer | TcpServer

definition localServer :: "int \<Rightarrow> local_server" where
  "localServer port = (if port = 0 then LocalSocketServer else TcpServer)"

datatype turbo_call = StartLocal | ReportAndExit string | AppCall app_call | StopLocal

definition TurboApp_run :: "bool \<Rightarrow> string \<Rightarrow> app_call list \<Rightarrow> turbo_call list" where
  "TurboApp_run started lastError app =
     (if started then StartLocal # map AppCall app @ [StopLocal]
      else [StartLocal, ReportAndExit (''failed to start local server. Abort. '' @ lastError)])"

section \<open>After the start\<close>

text \<open>The ring that \<^verbatim>\<open>preStart\<close> builds files every member under its hash, and holds all of them.\<close>

lemma fold_ring_ok:
  assumes "circular circ" "ring_ok env circ ring"
  shows "ring_ok env circ (fold (\<lambda>p ring. snd (ring_insert env circ (pr_uid p) (pr_uid p) ring)) ps ring)"
  using assms(2) by (induction ps arbitrary: ring) (simp_all add: ring_ok_insert [OF assms(1)])

lemma preStart_ring_ok:
  assumes "circular circ" "ring_ok env circ (nd_ring nd)"
    "Turbopump_preStart env vl w circ rl al sl encode raw lines res put opts nd mid = (nd', mid', warnings)"
  shows "ring_ok env circ (nd_ring nd')"
  using assms(2,3) fold_ring_ok [OF assms(1)]
  by (auto simp: Turbopump_preStart_def Let_def split: prod.splits if_splits)

text \<open>
  The servers are up before \<^verbatim>\<open>postStart\<close> reads the store, so an entry that is written in between is entered by the
  write and again by \<^verbatim>\<open>postStart\<close>: its digest cancels out.
\<close>

lemma entry_entered_twice_loses_its_digest:
  assumes "merkle_map ml" "dt_hash ml t (keyhash env name) = None"
  shows "dt_hash ml (dt_update ml env name d (dt_update ml env name d t)) (keyhash env name) = Some (keyhash env name)"
  using assms(2) by (simp add: dt_hash_update [OF assms(1)] xor.assoc [symmetric])

end
