(* ===== verification/UserServer.thy ===== *)
theory UserServer
  imports Commands
begin

text \<open>
  The server for users: \<^verbatim>\<open>user_server/UserCommandContext\<close> turns what the HTTP parser finds into a command and
  an answer, \<^verbatim>\<open>UserPacketHandler\<close> reads from the connection and answers on it. HTTP parser, URLs and the stream are
  turbolib's; the codes of \<^verbatim>\<open>StatusCode\<close> are those of HTTP.
\<close>

section \<open>UserCommandContext\<close>

text \<open>
  What the context asks of commands, URLs and the stream. \<open>uo_command\<close> is \<^verbatim>\<open>IUserPacketHandler::command\<close>;
  \<open>uo_status0\<close> is what \<^verbatim>\<open>StatusCode\<close> holds after it is set to 0 by the constructor.
\<close>

datatype stream_call = SetStatus int | WriteNothing | Reset

record ('c, 'f) user_ops =
  uo_command :: "string \<Rightarrow> (string \<times> string) list \<Rightarrow> 'c option"
  uo_run :: "bytes \<Rightarrow> 'c \<Rightarrow> 'f \<Rightarrow> (bool \<times> 'c \<times> 'f) result"
  uo_status :: "'c \<Rightarrow> int"
  uo_cancel :: "'c \<Rightarrow> 'f \<Rightarrow> 'f"
  uo_components :: "string \<Rightarrow> string list"
  uo_params :: "string \<Rightarrow> (string \<times> string) list"
  uo_stream :: "stream_call \<Rightarrow> 'f \<Rightarrow> 'f"

record 'c user_context =
  uc_status :: int
  uc_url :: string
  uc_command :: "'c option"

definition UserCommandContext :: "'c user_context" where
  "UserCommandContext = \<lparr>uc_status = 0, uc_url = [], uc_command = None\<rparr>"

definition sendResponse :: "('c, 'f) user_ops \<Rightarrow> int \<Rightarrow> 'f \<Rightarrow> 'f" where
  "sendResponse uo status f = uo_stream uo Reset (uo_stream uo WriteNothing (uo_stream uo (SetStatus status) f))"

text \<open>The callbacks return what they tell the parser: 0 to go on.\<close>

definition onUrl :: "bytes \<Rightarrow> 'c user_context \<Rightarrow> int \<times> 'c user_context" where
  "onUrl data uc =
     (case uc_command uc of
        None \<Rightarrow> if length (uc_url uc) + length data > 8192 then (1, uc\<lparr>uc_status := 414\<rparr>)
                else (0, uc\<lparr>uc_url := uc_url uc @ data\<rparr>)
      | Some _ \<Rightarrow> (1, uc))"

definition onBegin :: "('c, 'f) user_ops \<Rightarrow> 'c user_context \<Rightarrow> int \<times> 'c user_context" where
  "onBegin uo uc =
     (let uc = (case uo_components uo (uc_url uc) of
                  [] \<Rightarrow> uc
                | part # _ \<Rightarrow> uc\<lparr>uc_command := uo_command uo part (uo_params uo (uc_url uc))\<rparr>)
      in (0, if uc_command uc = None then uc\<lparr>uc_status := 400\<rparr> else uc))"

definition onBody :: "('c, 'f) user_ops \<Rightarrow> bytes \<Rightarrow> 'c user_context \<Rightarrow> 'f \<Rightarrow> (int \<times> 'c user_context \<times> 'f) result" where
  "onBody uo data uc f =
     (case uc_command uc of
        Some c \<Rightarrow>
          if uc_status uc = 0 then
            rbind (uo_run uo data c f) (\<lambda>(res, c, f).
              let st = uo_status uo c
              in Inr (0, uc\<lparr>uc_command := Some c, uc_status := (if st = 0 \<and> \<not> res then 500 else st)\<rparr>, f))
          else Inr (0, uc, f)
      | None \<Rightarrow> Inr (0, uc, f))"

definition onComplete :: "('c, 'f) user_ops \<Rightarrow> 'c user_context \<Rightarrow> 'f \<Rightarrow> (int \<times> 'c user_context \<times> 'f) result" where
  "onComplete uo uc f =
     rbind (case uc_command uc of
              Some c \<Rightarrow>
                if uc_status uc = 0 then
                  rbind (uo_run uo [] c f) (\<lambda>(res, c, f).
                    let st = uo_status uo c in Inr (if st = 0 then (if res then 200 else 500) else st, f))
                else Inr (uc_status uc, f)
            | None \<Rightarrow> Inr (uc_status uc, f))
       (\<lambda>(status, f). Inr (0, UserCommandContext, sendResponse uo (if status = 0 then 406 else status) f))"

text \<open>What the parser finds in the data of a connection.\<close>

datatype http_event = OnUrl bytes | OnHeadersComplete | OnBody bytes | OnMessageComplete

fun user_event :: "('c, 'f) user_ops \<Rightarrow> http_event \<Rightarrow> 'c user_context \<Rightarrow> 'f \<Rightarrow> (int \<times> 'c user_context \<times> 'f) result" where
  "user_event uo (OnUrl data) uc f = (let (r, uc) = onUrl data uc in Inr (r, uc, f))"
| "user_event uo OnHeadersComplete uc f = (let (r, uc) = onBegin uo uc in Inr (r, uc, f))"
| "user_event uo (OnBody data) uc f = onBody uo data uc f"
| "user_event uo OnMessageComplete uc f = onComplete uo uc f"

text \<open>The parser stops when a callback does not return 0.\<close>

fun user_events :: "('c, 'f) user_ops \<Rightarrow> http_event list \<Rightarrow> 'c user_context \<Rightarrow> 'f \<Rightarrow> (bool \<times> 'c user_context \<times> 'f) result" where
  "user_events uo [] uc f = Inr (True, uc, f)"
| "user_events uo (e # es) uc f =
     rbind (user_event uo e uc f) (\<lambda>(r, uc, f). if r = 0 then user_events uo es uc f else Inr (False, uc, f))"

text \<open>
  \<open>parse\<close> stands for \<^verbatim>\<open>HttpParser\<close>: the events of a buffer, whether it was well formed, and the parser after it.
\<close>

definition feed :: "('c, 'f) user_ops \<Rightarrow> (bytes \<Rightarrow> 'p \<Rightarrow> http_event list \<times> bool \<times> 'p) \<Rightarrow> bytes
    \<Rightarrow> 'p \<times> 'c user_context \<Rightarrow> 'f \<Rightarrow> (bool \<times> ('p \<times> 'c user_context) \<times> 'f) result" where
  "feed uo parse buff = (\<lambda>(p, uc) f.
     (let (es, good, p) = parse buff p
      in rbind (user_events uo es uc f) (\<lambda>(ok, uc, f). Inr (ok \<and> good, (p, uc), f))))"

section \<open>UserPacketHandler\<close>

text \<open>\<open>read\<close> reads from the stream; an empty result ends the connection. None: it never ends.\<close>

partial_function (option) user_loop :: "('c, 'f) user_ops \<Rightarrow> (bytes \<Rightarrow> 'p \<Rightarrow> http_event list \<times> bool \<times> 'p) \<Rightarrow> ('f \<Rightarrow> bytes \<times> 'f)
    \<Rightarrow> 'p \<times> 'c user_context \<Rightarrow> 'f \<Rightarrow> (('p \<times> 'c user_context) \<times> 'f) result option" where
  "user_loop uo parse read s f =
     (case read f of (buff, f) \<Rightarrow>
        if buff = [] then Some (Inr (s, f))
        else (case feed uo parse buff s f of
                Inl e \<Rightarrow> Some (Inl e)
              | Inr (go_on, s, f) \<Rightarrow> if go_on then user_loop uo parse read s f else Some (Inr (s, f))))"

text \<open>The end of \<^verbatim>\<open>run\<close> destroys the context, which cancels a command under way.\<close>

definition destroy_context :: "('c, 'f) user_ops \<Rightarrow> 'c user_context \<Rightarrow> 'f \<Rightarrow> 'f" where
  "destroy_context uo uc f = (case uc_command uc of None \<Rightarrow> f | Some c \<Rightarrow> uo_cancel uo c f)"

definition UserPacketHandler_run :: "('c, 'f) user_ops \<Rightarrow> (bytes \<Rightarrow> 'p \<Rightarrow> http_event list \<times> bool \<times> 'p) \<Rightarrow> ('f \<Rightarrow> bytes \<times> 'f)
    \<Rightarrow> 'p \<Rightarrow> 'f \<Rightarrow> 'f result option" where
  "UserPacketHandler_run uo parse read p f =
     map_option (\<lambda>r. rbind r (\<lambda>((p, uc), f). Inr (destroy_context uo uc f)))
       (user_loop uo parse read (p, UserCommandContext) f)"

definition UserPacketHandler_command :: "(command_kind \<Rightarrow> (string \<times> string) list \<Rightarrow> request) \<Rightarrow> (command_kind \<times> request \<Rightarrow> 'c)
    \<Rightarrow> ('c \<Rightarrow> 'c) \<Rightarrow> string \<Rightarrow> (string \<times> string) list \<Rightarrow> 'c option" where
  "UserPacketHandler_command load build setWriter cmd params =
     map_option (setWriter \<circ> build) (api_command_named load cmd params)"

section \<open>One answer for each message\<close>

text \<open>\<open>answers\<close> reads off the answers that were sent; commands send none, they write data.\<close>

definition answers_read :: "('c, 'f) user_ops \<Rightarrow> ('f \<Rightarrow> int list) \<Rightarrow> bool" where
  "answers_read uo answers \<longleftrightarrow>
     (\<forall>st f. answers (uo_stream uo (SetStatus st) f) = answers f @ [st])
   \<and> (\<forall>f. answers (uo_stream uo WriteNothing f) = answers f \<and> answers (uo_stream uo Reset f) = answers f)
   \<and> (\<forall>b c f r. uo_run uo b c f = Inr r \<longrightarrow> answers (snd (snd r)) = answers f)"

lemma sendResponse_answers:
  "answers_read uo answers \<Longrightarrow> answers (sendResponse uo st f) = answers f @ [st]"
  by (simp add: answers_read_def sendResponse_def)

fun completions :: "http_event list \<Rightarrow> nat" where
  "completions [] = 0"
| "completions (OnMessageComplete # es) = Suc (completions es)"
| "completions (_ # es) = completions es"

lemma event_answers:
  assumes "answers_read uo answers" "user_event uo e uc f = Inr (r, uc', f')"
  shows "\<exists>sts. answers f' = answers f @ sts \<and> length sts = completions [e] \<and> 0 \<notin> set sts
     \<and> (e = OnMessageComplete \<longrightarrow> uc' = UserCommandContext \<and> r = 0)"
proof -
  note run = assms(1) [unfolded answers_read_def, THEN conjunct2, THEN conjunct2, THEN spec, THEN spec, THEN spec, THEN spec, THEN mp]
  show ?thesis
  proof (cases e)
    case OnMessageComplete
    then obtain status f1 where f': "f' = sendResponse uo status f1" "status \<noteq> 0" "uc' = UserCommandContext" "r = 0" "answers f1 = answers f"
      using assms(2) by (auto simp: onComplete_def rbind_Inr_iff Let_def split: option.splits if_splits dest: run)
    then show ?thesis using OnMessageComplete sendResponse_answers [OF assms(1)] by simp
  next
    case (OnBody d)
    then show ?thesis using assms(2)
      by (auto simp: onBody_def rbind_Inr_iff Let_def split: option.splits if_splits dest: run)
  qed (use assms(2) in \<open>auto simp: Let_def split: prod.splits\<close>)
qed

lemma events_answers:
  assumes "answers_read uo answers" "user_events uo es uc f = Inr (True, uc', f')"
  shows "\<exists>sts. answers f' = answers f @ sts \<and> length sts = completions es \<and> 0 \<notin> set sts"
  using assms(2)
proof (induction es arbitrary: uc f)
  case (Cons e es)
  then obtain uc1 f1 where e: "user_event uo e uc f = Inr (0, uc1, f1)" "user_events uo es uc1 f1 = Inr (True, uc', f')"
    by (auto simp: rbind_Inr_iff split: if_splits)
  obtain s1 where s1: "answers f1 = answers f @ s1" "length s1 = completions [e]" "0 \<notin> set s1"
    using event_answers [OF assms(1) e(1)] by blast
  obtain s2 where s2: "answers f' = answers f1 @ s2" "length s2 = completions es" "0 \<notin> set s2"
    using Cons.IH [OF e(2)] by blast
  have "completions (e # es) = completions [e] + completions es" by (cases e) simp_all
  then show ?case using s1 s2 by (intro exI [of _ "s1 @ s2"]) simp
qed simp

text \<open>An address that is too long ends the connection: the status is set, but no answer is sent.\<close>

lemma long_address_is_not_answered:
  assumes "uc_command uc = None" "8192 < length (uc_url uc) + length d"
  shows "user_events uo (OnUrl d # es) uc f = Inr (False, uc\<lparr>uc_status := 414\<rparr>, f)"
  using assms by (simp add: onUrl_def)

section \<open>What a request is answered with\<close>

text \<open>
  The specification: one command is run with the pieces of the body until it has a status, then without data, and
  its status is the answer.
\<close>

fun serve :: "('c, 'f) user_ops \<Rightarrow> bytes list \<Rightarrow> 'c \<Rightarrow> 'f \<Rightarrow> (int \<times> 'f) result" where
  "serve uo [] c f =
     rbind (uo_run uo [] c f) (\<lambda>(res, c, f).
       Inr (if uo_status uo c \<noteq> 0 then uo_status uo c else if res then 200 else 500, f))"
| "serve uo (d # ds) c f =
     rbind (uo_run uo d c f) (\<lambda>(res, c, f).
       if uo_status uo c \<noteq> 0 then Inr (uo_status uo c, f) else if res then serve uo ds c f else Inr (500, f))"

lemma events_urls:
  "uc_command uc = None \<Longrightarrow> length (uc_url uc) + length (concat us) \<le> 8192
   \<Longrightarrow> user_events uo (map OnUrl us @ es) uc f = user_events uo es (uc\<lparr>uc_url := uc_url uc @ concat us\<rparr>) f"
  by (induction us arbitrary: uc) (simp_all add: onUrl_def)

lemma events_ignored_bodies:
  "uc_command uc = None \<or> uc_status uc \<noteq> 0 \<Longrightarrow> user_events uo (map OnBody ds @ es) uc f = user_events uo es uc f"
  by (induction ds) (auto simp: onBody_def split: option.split)

lemma complete_with_status:
  "uc_status uc = st \<Longrightarrow> st \<noteq> 0 \<Longrightarrow> onComplete uo uc f = Inr (0, UserCommandContext, sendResponse uo st f)"
  by (simp add: onComplete_def split: option.split)

lemma events_bodies:
  "uc_command uc = Some c \<Longrightarrow> uc_status uc = 0 \<Longrightarrow>
   user_events uo (map OnBody ds @ [OnMessageComplete]) uc f
     = rbind (serve uo ds c f) (\<lambda>(st, f). Inr (True, UserCommandContext, sendResponse uo st f))"
proof (induction ds arbitrary: uc c f)
  case Nil
  then show ?case by (cases "uo_run uo [] c f") (auto simp: onComplete_def Let_def)
next
  case (Cons d ds)
  show ?case
  proof (cases "uo_run uo d c f")
    case (Inr r)
    obtain res c' f' where r: "r = (res, c', f')" by (cases r)
    define st where "st = (if uo_status uo c' = 0 \<and> \<not> res then 500 else uo_status uo c')"
    let ?uc = "uc\<lparr>uc_command := Some c', uc_status := st\<rparr>"
    have ev: "user_events uo (map OnBody (d # ds) @ [OnMessageComplete]) uc f
        = user_events uo (map OnBody ds @ [OnMessageComplete]) ?uc f'"
      using Cons.prems Inr r by (simp add: onBody_def st_def Let_def)
    show ?thesis
    proof (cases "st = 0")
      case True
      then show ?thesis using ev Cons.IH [of ?uc c' f'] Inr r by (simp add: st_def split: if_splits)
    next
      case False
      then show ?thesis
        using ev Inr r by (auto simp: events_ignored_bodies complete_with_status [OF _ False] st_def)
    qed
  qed (use Cons.prems in \<open>simp add: onBody_def\<close>)
qed

section \<open>Properties\<close>

text \<open>
  C16. A request is served by one command and answered once: an address of at most 8192 characters in any number
  of pieces, then a body in any number of pieces, lead to the command the address names, which is run with the pieces
  until it has a status; that status is the one answer, 400 if there is no such command, and the context is then
  ready for the next request.
\<close>

theorem request_is_served_and_answered_once:
  assumes "length (concat us) \<le> 8192"
  shows "user_events uo (map OnUrl us @ OnHeadersComplete # map OnBody ds @ [OnMessageComplete]) UserCommandContext f
    = rbind (case uo_components uo (concat us) of
               [] \<Rightarrow> Inr (400, f)
             | part # _ \<Rightarrow> (case uo_command uo part (uo_params uo (concat us)) of
                 None \<Rightarrow> Inr (400, f) | Some c \<Rightarrow> serve uo ds c f))
        (\<lambda>(st, f). Inr (True, UserCommandContext, sendResponse uo st f))"
proof -
  let ?uc = "UserCommandContext\<lparr>uc_url := concat us\<rparr>"
  have urls: "user_events uo (map OnUrl us @ es) UserCommandContext f = user_events uo es ?uc f" for es
    using events_urls [of UserCommandContext us uo es f] assms by (simp add: UserCommandContext_def)
  have none: "user_events uo (map OnBody ds @ [OnMessageComplete]) uc f = Inr (True, UserCommandContext, sendResponse uo 400 f)"
    if "uc_command uc = None" "uc_status uc = 400" for uc
    using that events_ignored_bodies [of uc uo ds "[OnMessageComplete]" f] complete_with_status [of uc 400 uo f] by simp
  show ?thesis
    unfolding urls
    by (auto simp: onBegin_def UserCommandContext_def none [unfolded UserCommandContext_def]
        events_bodies [unfolded UserCommandContext_def] split: list.split option.split)
qed

definition counting_ops :: "(nat, int list) user_ops" where
  "counting_ops = \<lparr>uo_command = (\<lambda>_ _. Some 0), uo_run = (\<lambda>b c f. Inr (True, c + length b, f)), uo_status = (\<lambda>c. if c > 3 then 413 else 0),
     uo_cancel = (\<lambda>_ f. f), uo_components = (\<lambda>u. [u]), uo_params = (\<lambda>_. []),
     uo_stream = (\<lambda>s f. case s of SetStatus st \<Rightarrow> f @ [st] | _ \<Rightarrow> f)\<rparr>"

lemma request_is_served_and_answered_once_witness:
  "user_events counting_ops (map OnUrl [''/wri'', ''te''] @ OnHeadersComplete # map OnBody [''ab'', ''cd'', ''ef''] @ [OnMessageComplete])
     UserCommandContext [] = Inr (True, UserCommandContext, [413])"
  using request_is_served_and_answered_once [of "[''/wri'', ''te'']" counting_ops "[''ab'', ''cd'', ''ef'']" "[]"]
  by (simp add: counting_ops_def sendResponse_def)

end
