(* ===== verification/Assembly.thy ===== *)
theory Assembly
  imports Startup UserServer
begin

text \<open>
  How the parts of the program are put together: the members of \<^verbatim>\<open>Turbopump::App\<close> and of
  \<^verbatim>\<open>Turbopump::Turbopump\<close> in the order in which they are constructed and what each is given
  (\<^verbatim>\<open>turbopump/\<close>), the log (\<^verbatim>\<open>logging/StderrLogger\<close>) and \<^verbatim>\<open>main\<close>.
\<close>

section \<open>The log\<close>

text \<open>\<open>tstamp\<close> is what \<^verbatim>\<open>std::ctime\<close> gives for the current time, which ends in a line break; \<open>err\<close> is what \<^verbatim>\<open>std::cerr\<close> has received.\<close>

record logger =
  lg_myid :: string

definition logMessage :: "logger \<Rightarrow> string \<Rightarrow> string \<Rightarrow> string \<Rightarrow> string \<Rightarrow> string" where
  "logMessage lg tstamp type msg err =
     err @ lg_myid lg @ ''  '' @ take (length tstamp - 1) tstamp @ ''  '' @ msg @ [CHR 0x0A]"

definition logDebug :: "logger \<Rightarrow> string \<Rightarrow> string \<Rightarrow> string \<Rightarrow> string" where
  "logDebug lg tstamp msg err = logMessage lg tstamp ''DEBUG'' msg err"

definition logError :: "logger \<Rightarrow> string \<Rightarrow> string \<Rightarrow> string \<Rightarrow> string" where
  "logError lg tstamp msg err = logMessage lg tstamp ''ERROR'' msg err"

definition logTrace :: "logger \<Rightarrow> string \<Rightarrow> string \<Rightarrow> string \<Rightarrow> string" where
  "logTrace lg tstamp msg err = err"

definition logWarn :: "logger \<Rightarrow> string \<Rightarrow> string \<Rightarrow> string \<Rightarrow> string" where
  "logWarn lg tstamp msg err = logMessage lg tstamp ''WARN'' msg err"

text \<open>The severity is not written, so a line does not tell an error from a warning.\<close>

lemma severity_is_not_logged: "logError lg t msg err = logWarn lg t msg err" "logWarn lg t msg err = logDebug lg t msg err"
  by (simp_all add: logError_def logWarn_def logDebug_def logMessage_def)

section \<open>Construction\<close>

text \<open>The members of \<^verbatim>\<open>App\<close>, and those of its member \<^verbatim>\<open>_turbopump\<close>.\<close>

datatype part =
  App_shutdown | App_store | App_opts | App_scheduler | App_synchronizedKeyTabulator
| App_synchronizedWatches | App_packer | App_peerServer | App_messenger | App_partialTransfers
| App_writeSupervisor | App_peerExecutor | App_peerCenter | App_peerPacketHandler
| Tp_api | Tp_logger | Tp_state | Tp_reporter | Tp_ring | Tp_keyLocator | Tp_keyTabulator | Tp_store
| Tp_membership | Tp_corrector | Tp_synchronizer | Tp_watches

text \<open>
  The members in the order of their declaration, which is the order in which C++ constructs them, and what
  the initialiser lists of the constructors name for them, in the order of those lists: the parts only, not the
  parameters of \<^verbatim>\<open>App\<close> and not what a constructor does with them. The parameters of \<^verbatim>\<open>Turbopump\<close> are
  given by \<^verbatim>\<open>App\<close>, and in its list \<^verbatim>\<open>store\<close> names the parameter.
\<close>

definition Turbopump_order :: "part list" where
  "Turbopump_order =
    [Tp_api, Tp_logger, Tp_state, Tp_reporter, Tp_ring, Tp_keyLocator, Tp_keyTabulator, Tp_store, Tp_membership,
     Tp_corrector, Tp_synchronizer, Tp_watches]"

definition Turbopump_inits :: "part \<Rightarrow> part \<Rightarrow> part \<Rightarrow> part \<Rightarrow> (part \<times> part list) list" where
  "Turbopump_inits opts store messenger sender =
    [(Tp_api, [Tp_corrector, Tp_keyLocator, messenger, Tp_reporter, store,
               Tp_synchronizer, Tp_watches, opts]),
     (Tp_logger, [opts]),
     (Tp_reporter, [Tp_ring, Tp_membership, Tp_state]),
     (Tp_keyLocator, [Tp_ring, Tp_membership]),
     (Tp_keyTabulator, [Tp_keyLocator]),
     (Tp_store, [store]),
     (Tp_membership, [opts]),
     (Tp_corrector, [Tp_keyTabulator, store, messenger, sender, Tp_logger, opts]),
     (Tp_synchronizer, [Tp_ring, Tp_membership, Tp_keyTabulator, messenger, Tp_corrector, Tp_logger])]"

text \<open>The members of \<^verbatim>\<open>Interface\<close>, which the callbacks are made from.\<close>

definition Interface_args :: "part list" where
  "Interface_args =
    [Tp_api, Tp_logger, App_store, Tp_membership, Tp_ring, Tp_keyLocator,
     App_synchronizedKeyTabulator, Tp_corrector, Tp_synchronizer, App_messenger,
     App_writeSupervisor, App_synchronizedWatches]"

definition App_order :: "part list" where
  "App_order =
    [App_shutdown, App_store, App_opts] @ Turbopump_order @
    [App_scheduler, App_synchronizedKeyTabulator, App_synchronizedWatches, App_packer, App_peerServer, App_messenger,
     App_partialTransfers, App_writeSupervisor, App_peerExecutor, App_peerCenter, App_peerPacketHandler]"

definition App_inits :: "(part \<times> part list) list" where
  "App_inits =
    [(App_store, []),
     (App_opts, Interface_args)]
    @ Turbopump_inits App_opts App_store App_messenger App_writeSupervisor @
    [(App_peerServer, []),
     (App_messenger, [App_packer, App_peerServer]),
     (App_partialTransfers, [App_peerServer]),
     (App_writeSupervisor, [App_packer, App_partialTransfers, App_peerServer, Tp_store]),
     (App_peerCenter, [Tp_api, App_peerExecutor]),
     (App_peerPacketHandler, [Tp_membership, App_peerCenter, Tp_logger]),
     (App_synchronizedKeyTabulator, [Tp_keyTabulator, App_scheduler]),
     (App_synchronizedWatches, [Tp_watches, App_scheduler])]"

text \<open>A member that is in no initialiser list is constructed without arguments.\<close>

definition members :: "part list \<Rightarrow> (part \<times> part list) list \<Rightarrow> (part \<times> part list) list" where
  "members order inits = map (\<lambda>p. (p, case map_of inits p of None \<Rightarrow> [] | Some args \<Rightarrow> args)) order"

definition App_members :: "(part \<times> part list) list" where
  "App_members = members App_order App_inits"

section \<open>main\<close>

definition examples :: string where
  "examples = ''./turbopumpd -l /tmp/turbopump -p 9001 --clone'' @ [CHR 0x0A]
     @ ''./turbopumpd -l :1592'' @ [CHR 0x0A] @ ''./turbopumpd -l :1592 --store file''"

text \<open>A \<^verbatim>\<open>short\<close> as text.\<close>

definition show_short :: "i16 \<Rightarrow> string" where
  "show_short n = (if sint n < 0 then CHR ''-'' # show_dec (nat (- sint n)) else show_dec (nat (sint n)))"

text \<open>An option: its default, how many arguments it takes, and its names.\<close>

record option_spec =
  os_default :: string
  os_args :: nat
  os_names :: "string list"

definition option_table :: "'x options \<Rightarrow> option_spec list" where
  "option_table opts =
     [\<lparr>os_default = [], os_args = 0, os_names = [''-h'', ''--help'']\<rparr>,
      \<lparr>os_default = ''localhost:1592'', os_args = 1, os_names = [''-l'', ''--local-addr'']\<rparr>,
      \<lparr>os_default = show_short (op_internal_port opts), os_args = 1, os_names = [''-p'', ''--port'']\<rparr>,
      \<lparr>os_default = [], os_args = 0, os_names = [''-c'', ''--clone'']\<rparr>,
      \<lparr>os_default = op_home_dir opts, os_args = 1, os_names = [''--home'']\<rparr>,
      \<lparr>os_default = op_store opts, os_args = 1, os_names = [''--store'']\<rparr>,
      \<lparr>os_default = ''2000'', os_args = 1, os_names = [''--sync-interval'']\<rparr>,
      \<lparr>os_default = [], os_args = 0, os_names = [''--no-write-chaining'']\<rparr>,
      \<lparr>os_default = [], os_args = 0, os_names = [''--no-active-sync'']\<rparr>,
      \<lparr>os_default = [], os_args = 0, os_names = [''--udp'']\<rparr>]"

text \<open>
  What \<^verbatim>\<open>main\<close> does, given the usage text and the values the option parser found: the program's result and
  its steps. \<open>addrString\<close> is \<^verbatim>\<open>socket_address::toString\<close>; a port that is no number throws.
\<close>

datatype signal_handler = OnShutdown | Ignore

datatype 'x main_step =
  Print string
| CreateApp "'x options" local_addr
| Handle string signal_handler
| RunApp

definition main_run :: "str_lib \<Rightarrow> (string \<Rightarrow> int result) \<Rightarrow> (local_addr \<Rightarrow> string) \<Rightarrow> string \<Rightarrow> command_line
    \<Rightarrow> (int \<times> 'x main_step list) result" where
  "main_run sl stoi addrString usage cl =
     (if cl_isSet cl ''-h'' then Inr (1, [Print (usage @ [CHR 0x0A])])
      else rbind (main_localAddr sl stoi cl) (\<lambda>localAddr.
             let options = main_options cl Options
             in Inr (0, [Print (addrString localAddr @ '':'' @ show_short (op_internal_port options) @ [CHR 0x0A]),
                         CreateApp options localAddr,
                         Handle ''SIGINT'' OnShutdown, Handle ''SIGTERM'' OnShutdown, Handle ''SIGPIPE'' Ignore,
                         RunApp])))"

text \<open>
  A connection of a user: the requests that arrive on it are handled one after the other, in a
  thread of its own, and then it is closed; an exception ends the program.
\<close>

definition onClientConnect :: "('c, 'f) user_ops \<Rightarrow> (bytes \<Rightarrow> 'p \<Rightarrow> http_event list \<times> bool \<times> 'p) \<Rightarrow> ('f \<Rightarrow> bytes \<times> 'f)
    \<Rightarrow> ('f \<Rightarrow> 'f) \<Rightarrow> 'p \<Rightarrow> 'f \<Rightarrow> 'f result option" where
  "onClientConnect uo parse read close p f =
     map_option (\<lambda>r. rbind r (\<lambda>f. Inr (close f))) (UserPacketHandler_run uo parse read p f)"

section \<open>What is put together\<close>

text \<open>A port above 32767 is a negative number in the options.\<close>

lemma large_port_is_negative:
  "cl_ulong cl ''--port'' = Some 40000 \<Longrightarrow> sint (op_internal_port (main_options cl opts)) = - 25536"
  by (simp add: main_options_def Let_def split: option.splits)

text \<open>Asking for the usage starts nothing; otherwise the program is run with the options of the command line, or throws.\<close>

lemma main_run_cases:
  "main_run sl stoi addrString usage cl = Inr (code, steps) \<Longrightarrow>
     RunApp \<in> set steps \<longleftrightarrow> code = 0 \<and> \<not> cl_isSet cl ''-h''"
  by (auto simp: main_run_def Let_def rbind_def split: sum.splits if_splits)

text \<open>Every part is a member once.\<close>

lemma parts_are_members: "distinct App_order" "set App_order = UNIV"
proof -
  show "distinct App_order" by (simp add: App_order_def Turbopump_order_def)
  have "p \<in> set App_order" for p by (cases p) (simp_all add: App_order_def Turbopump_order_def)
  then show "set App_order = UNIV" by blast
qed

end
