(* ===== verification/DataChain.thy ===== *)
theory DataChain
  imports Streams
begin

text \<open>
  \<^verbatim>\<open>storage/DataChain\<close>: the versions of one key, held in memory. The chain holds shared pointers,
  and its operations change the entries behind them, the caller's own (\<^verbatim>\<open>store\<close> completes its
  data, \<^verbatim>\<open>storeAsBestVersion\<close> sets its version) as well as one stored earlier (\<^verbatim>\<open>storeDeleted\<close>).
  So entries are references into a heap that every operation returns. A null pointer is
  dereferenced before it could be stored: every reference of a chain has an entry.
\<close>

section \<open>The chain\<close>

record data_entry =
  de_data :: string
  de_md :: key_metadata

type_synonym entry_ref = nat
type_synonym entry_heap = "entry_ref \<Rightarrow> data_entry"

record data_chain =
  dc_entries :: "entry_ref list"

text \<open>What the operations read besides: versions, the clock, the member's name, the hash.\<close>

record chain_env =
  dv_vl :: vc_lib
  dv_wall :: wall_clock
  dv_me :: string
  dv_hash :: hash_env

abbreviation version_at :: "entry_heap \<Rightarrow> entry_ref \<Rightarrow> vclock" where
  "version_at h p \<equiv> km_version (de_md (h p))"

abbreviation supercedes_at :: "entry_heap \<Rightarrow> entry_ref \<Rightarrow> bool" where
  "supercedes_at h p \<equiv> km_supercede (de_md (h p))"

abbreviation compare_at :: "chain_env \<Rightarrow> vclock \<Rightarrow> entry_heap \<Rightarrow> entry_ref \<Rightarrow> vcompare" where
  "compare_at e v h p \<equiv> vl_compare (dv_vl e) v (version_at h p)"

definition bestVersion :: "chain_env \<Rightarrow> entry_heap \<Rightarrow> data_chain \<Rightarrow> vclock" where
  "bestVersion e h c = fold (\<lambda>p aggregate. vl_merge (dv_vl e) aggregate (version_at h p)) (dc_entries c) []"

definition dc_find_unlocked :: "chain_env \<Rightarrow> vclock \<Rightarrow> entry_heap \<Rightarrow> data_chain \<Rightarrow> entry_ref option" where
  "dc_find_unlocked e version h c =
     find (\<lambda>p. vl_compare (dv_vl e) (version_at h p) version = EQUAL) (dc_entries c)"

definition dc_find :: "chain_env \<Rightarrow> vclock \<Rightarrow> entry_heap \<Rightarrow> data_chain \<Rightarrow> entry_ref option" where
  "dc_find e version h c = dc_find_unlocked e version h c"

definition dc_entries_of :: "data_chain \<Rightarrow> entry_ref list" where
  "dc_entries_of c = dc_entries c"

text \<open>\<^verbatim>\<open>erase\<close> of an iterator removes the first element that was found, and nothing else.\<close>

fun erase_first :: "('a \<Rightarrow> bool) \<Rightarrow> 'a list \<Rightarrow> 'a list" where
  "erase_first P [] = []"
| "erase_first P (x # xs) = (if P x then xs else x # erase_first P xs)"

definition dc_erase :: "chain_env \<Rightarrow> vclock \<Rightarrow> entry_heap \<Rightarrow> data_chain \<Rightarrow> nat \<times> data_chain" where
  "dc_erase e version h c =
     (let c = c\<lparr>dc_entries := erase_first
               (\<lambda>p. vl_compare (dv_vl e) (version_at h p) version = EQUAL) (dc_entries c)\<rparr>
      in (length (dc_entries c), c))"

definition clearLesser_unlocked :: "chain_env \<Rightarrow> vclock \<Rightarrow> entry_heap \<Rightarrow> data_chain \<Rightarrow> nat \<times> data_chain" where
  "clearLesser_unlocked e version h c =
     (let c = c\<lparr>dc_entries := filter
               (\<lambda>p. vl_compare (dv_vl e) (version_at h p) version \<noteq> LESS_THAN) (dc_entries c)\<rparr>
      in (length (dc_entries c), c))"

definition store_unlocked :: "chain_env \<Rightarrow> entry_ref \<Rightarrow> entry_heap \<Rightarrow> data_chain \<Rightarrow> bool \<times> data_chain" where
  "store_unlocked e r h c =
     (let c = (if supercedes_at h r then snd (clearLesser_unlocked e (version_at h r) h c) else c)
      in (True, c\<lparr>dc_entries := dc_entries c @ [r]\<rparr>))"

definition storeAsBestVersion :: "chain_env \<Rightarrow> entry_ref \<Rightarrow> entry_heap \<Rightarrow> data_chain
    \<Rightarrow> bool \<times> entry_heap \<times> data_chain" where
  "storeAsBestVersion e r h c =
     (let h = h(r := (h r)\<lparr>de_md := (de_md (h r))\<lparr>km_version := bestVersion e h c\<rparr>\<rparr>);
          h = h(r := (h r)\<lparr>de_md := (de_md (h r))
                \<lparr>km_version := vc_increment (dv_vl e) (dv_wall e) (dv_me e) (version_at h r)\<rparr>\<rparr>);
          (ok, c) = store_unlocked e r h c
      in (ok, h, c))"

text \<open>The loop of \<^verbatim>\<open>storeDeleted\<close>: \<open>None\<close> is \<^verbatim>\<open>return false\<close>, a heap \<^verbatim>\<open>return true\<close>.\<close>

datatype deletion = Bail | Replaced entry_heap | Not_there

fun deleted_loop :: "chain_env \<Rightarrow> entry_ref \<Rightarrow> entry_ref list \<Rightarrow> entry_heap \<Rightarrow> deletion" where
  "deleted_loop e r [] h = Not_there"
| "deleted_loop e r (p # ps) h =
     (let candidate = version_at h p; comp = vl_compare (dv_vl e) (version_at h r) candidate
      in if comp = EQUAL then Bail
         else if comp = LESS_THAN \<and> supercedes_at h p then Bail
         else let candidate = markDeleted (dv_vl e) (dv_wall e) candidate
              in if vl_compare (dv_vl e) (version_at h r) candidate = EQUAL
                 then Replaced (h(p := (h p)\<lparr>de_data := de_data (h r),
                                             de_md := (de_md (h p))\<lparr>km_version := candidate\<rparr>\<rparr>))
                 else deleted_loop e r ps h)"

definition storeDeleted :: "chain_env \<Rightarrow> entry_ref \<Rightarrow> entry_heap \<Rightarrow> data_chain
    \<Rightarrow> bool \<times> entry_heap \<times> data_chain" where
  "storeDeleted e r h c =
     (case deleted_loop e r (dc_entries c) h of
        Bail \<Rightarrow> (False, h, c)
      | Replaced h \<Rightarrow> (True, h, c)
      | Not_there \<Rightarrow> (let (ok, c) = store_unlocked e r h c in (ok, h, c)))"

text \<open>
  The loop of \<^verbatim>\<open>store\<close>, with the entries passed so far: \<open>None\<close> is \<^verbatim>\<open>return false\<close>, otherwise it
  ends with what the entries and the chain are then.
\<close>

fun store_loop :: "chain_env \<Rightarrow> entry_ref \<Rightarrow> vclock \<Rightarrow> u64 \<Rightarrow> entry_ref list \<Rightarrow> entry_ref list
    \<Rightarrow> entry_heap \<Rightarrow> (entry_heap \<times> entry_ref list) option" where
  "store_loop e r deletedVersion offset seen [] h = Some (h, seen)"
| "store_loop e r deletedVersion offset seen (p # ps) h =
     (let comp = compare_at e (version_at h r) h p
      in if comp = EQUAL then
           (if offset \<noteq> of_nat (length (de_data (h p))) then None
            else
              (let h = h(r := (h r)\<lparr>de_md := (de_md (h r))\<lparr>km_totalCopies := km_totalCopies (de_md (h p))\<rparr>\<rparr>);
                   h = h(r := (h r)\<lparr>de_data := de_data (h p) @ de_data (h r)\<rparr>)
               in Some (h, seen @ ps)))
         else if comp = LESS_THAN \<and> supercedes_at h p then None
         else if compare_at e deletedVersion h p = EQUAL then None
         else store_loop e r deletedVersion offset (seen @ [p]) ps h)"

definition dc_store :: "chain_env \<Rightarrow> entry_ref \<Rightarrow> u64 \<Rightarrow> entry_heap \<Rightarrow> data_chain
    \<Rightarrow> bool \<times> entry_heap \<times> data_chain" where
  "dc_store e r offset h c =
     (if isDeleted (version_at h r) then storeDeleted e r h c
      else
        (let deletedVersion = markDeleted (dv_vl e) (dv_wall e) (version_at h r)
         in case store_loop e r deletedVersion offset [] (dc_entries c) h of
              None \<Rightarrow> (False, h, c)
            | Some (h, ps) \<Rightarrow> (let (ok, c) = store_unlocked e r h (c\<lparr>dc_entries := ps\<rparr>) in (ok, h, c))))"

definition dc_summary :: "chain_env \<Rightarrow> entry_heap \<Rightarrow> data_chain \<Rightarrow> u64" where
  "dc_summary e h c =
     fold (\<lambda>p sum. sum XOR hash_integer (dv_hash e) (Hash (dv_hash e)
             (show_dec (length (de_data (h p))) @ vc_toString (dv_vl e) (version_at h p))))
       (dc_entries c) 0"

section \<open>What the operations keep\<close>

text \<open>What the chain relies on in turbolib's \<^verbatim>\<open>compare\<close>: versions that compare equal are interchangeable in it.\<close>

definition compare_equiv :: "vc_lib \<Rightarrow> bool" where
  "compare_equiv vl \<longleftrightarrow> (\<forall>a. vl_compare vl a a = EQUAL)
     \<and> (\<forall>a b c. vl_compare vl a b = EQUAL \<longrightarrow> vl_compare vl a c = vl_compare vl b c
                                          \<and> vl_compare vl c a = vl_compare vl c b)"

text \<open>No two entries have the same version, and none has one that a superceding entry succeeds.\<close>

definition chain_ok :: "chain_env \<Rightarrow> entry_heap \<Rightarrow> data_chain \<Rightarrow> bool" where
  "chain_ok e h c \<longleftrightarrow> distinct (dc_entries c)
     \<and> (\<forall>p \<in> set (dc_entries c). \<forall>q \<in> set (dc_entries c). p \<noteq> q \<longrightarrow>
          compare_at e (version_at h p) h q \<noteq> EQUAL
          \<and> (supercedes_at h q \<longrightarrow> compare_at e (version_at h p) h q \<noteq> LESS_THAN))"

text \<open>An entry that lets a new version pass: another version, that neither succeeds nor deletes the new one.\<close>

definition passes :: "chain_env \<Rightarrow> vclock \<Rightarrow> entry_heap \<Rightarrow> entry_ref \<Rightarrow> bool" where
  "passes e v h p \<longleftrightarrow> compare_at e v h p \<noteq> EQUAL
     \<and> \<not> (compare_at e v h p = LESS_THAN \<and> supercedes_at h p)
     \<and> compare_at e (markDeleted (dv_vl e) (dv_wall e) v) h p \<noteq> EQUAL"

text \<open>A new piece of a version takes over the data and the copies of what was there of it.\<close>

definition piece_joined :: "data_entry \<Rightarrow> data_entry \<Rightarrow> data_entry" where
  "piece_joined old new = new\<lparr>de_md := (de_md new)\<lparr>km_totalCopies := km_totalCopies (de_md old)\<rparr>,
     de_data := de_data old @ de_data new\<rparr>"

lemma piece_joined_simps [simp]:
  "de_data (piece_joined old new) = de_data old @ de_data new"
  "km_version (de_md (piece_joined old new)) = km_version (de_md new)"
  "km_supercede (de_md (piece_joined old new)) = km_supercede (de_md new)"
  by (simp_all add: piece_joined_def)

lemma compare_equivD:
  assumes "compare_equiv vl"
  shows "vl_compare vl a a = EQUAL"
    and "vl_compare vl a b = EQUAL \<Longrightarrow> vl_compare vl b a = EQUAL"
    and "vl_compare vl a b = EQUAL \<Longrightarrow> vl_compare vl a c = vl_compare vl b c"
    and "vl_compare vl a b = EQUAL \<Longrightarrow> vl_compare vl c a = vl_compare vl c b"
  using assms unfolding compare_equiv_def by metis+

lemma store_loop_passes:
  assumes "\<forall>p \<in> set xs. passes e (version_at h r) h p"
  shows "store_loop e r (markDeleted (dv_vl e) (dv_wall e) (version_at h r)) off seen (xs @ ys) h
       = store_loop e r (markDeleted (dv_vl e) (dv_wall e) (version_at h r)) off (seen @ xs) ys h"
  using assms by (induction xs arbitrary: seen) (auto simp: passes_def Let_def)

lemma store_loop_meets:
  assumes "compare_at e (version_at h r) h p = EQUAL" "p \<noteq> r"
  shows "store_loop e r del off seen (p # ps) h =
     (if off = of_nat (length (de_data (h p))) then Some (h(r := piece_joined (h p) (h r)), seen @ ps) else None)"
  using assms by (simp add: Let_def piece_joined_def fun_upd_def cong: if_cong)

text \<open>The entries up to the first that does not let the version pass.\<close>

lemma store_loop_cases:
  assumes "store_loop e r (markDeleted (dv_vl e) (dv_wall e) (version_at h r)) off [] ps h = Some (h', ps')" "r \<notin> set ps"
  obtains "h' = h" "ps' = ps" "\<forall>p \<in> set ps. passes e (version_at h r) h p"
  | xs p ys where "ps = xs @ p # ys" "ps' = xs @ ys" "compare_at e (version_at h r) h p = EQUAL"
      "off = of_nat (length (de_data (h p)))" "h' = h(r := piece_joined (h p) (h r))"
      "\<forall>q \<in> set xs. passes e (version_at h r) h q"
proof (cases "\<forall>p \<in> set ps. passes e (version_at h r) h p")
  case True
  with store_loop_passes [OF True, of off "[]" "[]"] assms that(1) show thesis by auto
next
  case False
  then obtain xs p ys where ps: "ps = xs @ p # ys" "\<not> passes e (version_at h r) h p"
      "\<forall>q \<in> set xs. passes e (version_at h r) h q"
    using split_list_first_prop [of ps "\<lambda>p. \<not> passes e (version_at h r) h p"] by blast
  note l = store_loop_passes [OF ps(3), of off "[]" "p # ys"]
  have "compare_at e (version_at h r) h p = EQUAL"
    using assms(1) ps(2) unfolding ps(1) l by (auto simp: passes_def Let_def split: if_splits)
  with store_loop_meets [OF this, of "markDeleted (dv_vl e) (dv_wall e) (version_at h r)" off xs ys]
    assms ps l that(2) show thesis by (auto split: if_splits)
qed

section \<open>Storing a version\<close>

lemma store_unlocked_entries:
  "store_unlocked e r h c = (True, \<lparr>dc_entries =
     (if supercedes_at h r
      then filter (\<lambda>p. compare_at e (version_at h p) h r \<noteq> LESS_THAN) (dc_entries c) else dc_entries c) @ [r]\<rparr>)"
  by (cases c) (simp add: store_unlocked_def clearLesser_unlocked_def Let_def)

text \<open>The entries that stay and the new one at the end.\<close>

lemma chain_ok_extend:
  assumes "compare_equiv (dv_vl e)" "r \<notin> set xs" "chain_ok e h \<lparr>dc_entries = xs\<rparr>"
    and "\<forall>p \<in> set xs. compare_at e (version_at h r) h p \<noteq> EQUAL"
    and "\<forall>p \<in> set xs. supercedes_at h p \<longrightarrow> compare_at e (version_at h r) h p \<noteq> LESS_THAN"
  shows "chain_ok e h (snd (store_unlocked e r h \<lparr>dc_entries = xs\<rparr>))"
proof -
  have "\<forall>p \<in> set xs. compare_at e (version_at h p) h r \<noteq> EQUAL"
    using assms(4) compare_equivD(2) [OF assms(1)] by metis
  then show ?thesis using assms(2-5) unfolding chain_ok_def store_unlocked_entries by auto
qed

lemma find_last: "\<forall>x \<in> set xs. \<not> P x \<Longrightarrow> P r \<Longrightarrow> find P (xs @ [r]) = Some r"
  by (induction xs) auto

lemma find_stored:
  assumes "compare_equiv (dv_vl e)" "\<forall>p \<in> set xs. compare_at e (version_at h r) h p \<noteq> EQUAL"
  shows "dc_find e (version_at h r) h (snd (store_unlocked e r h \<lparr>dc_entries = xs\<rparr>)) = Some r"
proof -
  note eq = compare_equivD(1,2) [OF assms(1)]
  have "\<forall>p \<in> set xs. vl_compare (dv_vl e) (version_at h p) (version_at h r) \<noteq> EQUAL"
    using assms(2) eq(2) by metis
  then show ?thesis
    using eq(1) unfolding dc_find_def dc_find_unlocked_def store_unlocked_entries
    by (auto intro!: find_last)
qed

lemma chain_ok_update:
  assumes "chain_ok e h \<lparr>dc_entries = xs\<rparr>" "r \<notin> set xs"
  shows "chain_ok e (h(r := x)) \<lparr>dc_entries = xs\<rparr>"
  using assms unfolding chain_ok_def by (auto simp: fun_upd_def)

lemma dc_store_cases:
  assumes "dc_store e r off h c = (True, h', c')" "\<not> isDeleted (version_at h r)" "r \<notin> set (dc_entries c)"
  obtains "h' = h" "c' = snd (store_unlocked e r h c)" "\<forall>p \<in> set (dc_entries c). passes e (version_at h r) h p"
  | xs p ys where "dc_entries c = xs @ p # ys" "c' = snd (store_unlocked e r h' \<lparr>dc_entries = xs @ ys\<rparr>)"
      "compare_at e (version_at h r) h p = EQUAL" "off = of_nat (length (de_data (h p)))"
      "h' = h(r := piece_joined (h p) (h r))" "\<forall>q \<in> set xs. passes e (version_at h r) h q"
proof -
  from assms obtain ps where l: "store_loop e r (markDeleted (dv_vl e) (dv_wall e) (version_at h r)) off []
        (dc_entries c) h = Some (h', ps)" and c': "c' = snd (store_unlocked e r h' \<lparr>dc_entries = ps\<rparr>)"
    by (cases c) (auto simp: dc_store_def Let_def split: option.splits prod.splits)
  from l assms(3) show thesis
  proof (cases rule: store_loop_cases)
    case 1
    with c' that(1) show thesis by (cases c) simp
  next
    case (2 xs p ys)
    with c' that(2) show thesis by blast
  qed
qed

lemma dc_store_refused:
  assumes "dc_store e r off h c = (False, h', c')" "\<not> isDeleted (version_at h r)"
  shows "h' = h \<and> c' = c"
  using assms by (auto simp: dc_store_def store_unlocked_entries Let_def split: option.splits)

lemma chain_store:
  assumes "compare_equiv (dv_vl e)" "chain_ok e h c" "r \<notin> set (dc_entries c)"
    and "\<not> isDeleted (version_at h r)" "dc_store e r off h c = (True, h', c')"
  shows "chain_ok e h' c'"
    and "dc_find e (version_at h r) h' c' = Some r"
    and "set (dc_entries c') \<subseteq> insert r (set (dc_entries c))"
    and "\<forall>p \<in> set (dc_entries c) - set (dc_entries c'). vl_compare (dv_vl e) (version_at h p) (version_at h r) \<in> {EQUAL, LESS_THAN}"
proof -
  note eq = compare_equivD [OF assms(1)]
  have *: "chain_ok e h' c' \<and> dc_find e (version_at h r) h' c' = Some r
     \<and> set (dc_entries c') \<subseteq> insert r (set (dc_entries c))
     \<and> (\<forall>p \<in> set (dc_entries c) - set (dc_entries c'). vl_compare (dv_vl e) (version_at h p) (version_at h r) \<in> {EQUAL, LESS_THAN})"
    using assms(5,4,3)
  proof (cases rule: dc_store_cases)
    case 1
    have "chain_ok e h' c'"
      unfolding 1(1,2) using assms(1,2,3) 1(3) by (cases c) (auto intro!: chain_ok_extend simp: passes_def)
    moreover have "dc_find e (version_at h r) h' c' = Some r"
      unfolding 1(1,2) using assms(1) 1(3) by (cases c) (auto intro!: find_stored simp: passes_def)
    ultimately show ?thesis using 1 by (auto simp: store_unlocked_entries)
  next
    case (2 xs p ys)
    let ?h = "h(r := piece_joined (h p) (h r))"
    have d: "r \<notin> set (xs @ ys)" "p \<notin> set (xs @ ys)" "p \<noteq> r" using assms(2,3) 2(1) by (auto simp: chain_ok_def)
    have v: "version_at ?h r = version_at h r" "\<And>q. q \<in> set (xs @ ys) \<Longrightarrow> ?h q = h q" using d by auto
    have same: "compare_at e (version_at h r) h q = compare_at e (version_at h p) h q" for q
      using eq(3) [OF 2(3)] .
    have sub: "chain_ok e h \<lparr>dc_entries = xs @ ys\<rparr>" using assms(2) 2(1) by (auto simp: chain_ok_def)
    have ne: "compare_at e (version_at h r) h q \<noteq> EQUAL"
        "supercedes_at h q \<longrightarrow> compare_at e (version_at h r) h q \<noteq> LESS_THAN" if "q \<in> set (xs @ ys)" for q
      using assms(2) d(2) that 2(1) unfolding same chain_ok_def by auto
    have "chain_ok e h' c'"
      unfolding 2(2,5) using ne v d(1) by (intro chain_ok_extend assms(1) chain_ok_update sub) auto
    moreover have "dc_find e (version_at h r) h' c' = Some r"
      unfolding 2(2,5) using find_stored [OF assms(1), of "xs @ ys" ?h r] ne(1) v by auto
    moreover have "vl_compare (dv_vl e) (version_at h p) (version_at h r) = EQUAL" using eq(2) [OF 2(3)] .
    ultimately show ?thesis using d v 2(1) by (auto simp: 2(2,5) store_unlocked_entries)
  qed
  then show "chain_ok e h' c'" "dc_find e (version_at h r) h' c' = Some r"
    "set (dc_entries c') \<subseteq> insert r (set (dc_entries c))"
    "\<forall>p \<in> set (dc_entries c) - set (dc_entries c'). vl_compare (dv_vl e) (version_at h p) (version_at h r) \<in> {EQUAL, LESS_THAN}"
    by blast+
qed

section \<open>Receiving a version piece by piece\<close>

text \<open>The pieces of a version, each stored at the length of what came before.\<close>

fun store_pieces :: "chain_env \<Rightarrow> nat \<Rightarrow> entry_ref list \<Rightarrow> entry_heap \<Rightarrow> data_chain
    \<Rightarrow> bool \<times> entry_heap \<times> data_chain" where
  "store_pieces e off [] h c = (True, h, c)"
| "store_pieces e off (r # rs) h c =
     (case dc_store e r (of_nat off) h c of
        (False, h, c) \<Rightarrow> (False, h, c)
      | (True, h', c) \<Rightarrow> store_pieces e (off + length (de_data (h r))) rs h' c)"

lemma store_first_piece:
  assumes "\<not> isDeleted (version_at h r)" "\<forall>p \<in> set (dc_entries c). passes e (version_at h r) h p"
  shows "dc_store e r off h c = (True, h, snd (store_unlocked e r h c))"
  using assms store_loop_passes [of "dc_entries c" e h r off "[]" "[]"]
  by (simp add: dc_store_def Let_def store_unlocked_entries)

lemma store_next_piece:
  assumes "\<not> isDeleted (version_at h r)" "\<forall>p \<in> set xs. passes e (version_at h r) h p"
    and "compare_at e (version_at h r) h p = EQUAL" "p \<noteq> r"
  shows "dc_store e r (of_nat (length (de_data (h p)))) h \<lparr>dc_entries = xs @ [p]\<rparr>
       = (True, h(r := piece_joined (h p) (h r)),
          snd (store_unlocked e r (h(r := piece_joined (h p) (h r))) \<lparr>dc_entries = xs\<rparr>))"
proof -
  have "store_loop e r (markDeleted (dv_vl e) (dv_wall e) (version_at h r)) (of_nat (length (de_data (h p))))
      [] (xs @ [p]) h = Some (h(r := piece_joined (h p) (h r)), xs)"
    by (simp only: store_loop_passes [OF assms(2)] store_loop_meets [OF assms(3,4)]) simp
  then show ?thesis using assms(1) by (simp add: dc_store_def store_unlocked_entries)
qed

lemma store_next_pieces:
  assumes "compare_equiv (dv_vl e)" "\<not> isDeleted v" "distinct (p # rs)" "set (p # rs) \<inter> set xs = {}"
    and "\<forall>r \<in> set (p # rs). version_at h r = v" "\<forall>q \<in> set xs. passes e v h q"
  shows "\<exists>h' ys. store_pieces e (length (de_data (h p))) rs h \<lparr>dc_entries = xs @ [p]\<rparr>
             = (True, h', \<lparr>dc_entries = ys @ [last (p # rs)]\<rparr>)
           \<and> set ys \<subseteq> set xs \<and> version_at h' (last (p # rs)) = v
           \<and> (\<forall>q \<in> set ys. h' q = h q)
           \<and> de_data (h' (last (p # rs))) = concat (map (\<lambda>r. de_data (h r)) (p # rs))"
  using assms(3-6)
proof (induction rs arbitrary: p h xs)
  case Nil
  then show ?case by auto
next
  case (Cons r rs)
  let ?h = "h(r := piece_joined (h p) (h r))"
  obtain zs where zs: "snd (store_unlocked e r ?h \<lparr>dc_entries = xs\<rparr>) = \<lparr>dc_entries = zs @ [r]\<rparr>"
      "set zs \<subseteq> set xs"
    unfolding store_unlocked_entries by (auto intro!: that)
  have "compare_at e (version_at h r) h p = EQUAL" using Cons.prems(3) compare_equivD(1) [OF assms(1)] by simp
  then have step: "dc_store e r (of_nat (length (de_data (h p)))) h \<lparr>dc_entries = xs @ [p]\<rparr>
      = (True, ?h, \<lparr>dc_entries = zs @ [r]\<rparr>)"
    using store_next_piece [of h r xs e p] Cons.prems assms(2) zs(1) by auto
  have rest: "\<forall>s \<in> set rs. ?h s = h s" "\<forall>q \<in> set xs. ?h q = h q"
    using Cons.prems(1,2) by auto
  have "\<exists>h' ys. store_pieces e (length (de_data (?h r))) rs ?h \<lparr>dc_entries = zs @ [r]\<rparr>
             = (True, h', \<lparr>dc_entries = ys @ [last (r # rs)]\<rparr>)
           \<and> set ys \<subseteq> set zs \<and> version_at h' (last (r # rs)) = v
           \<and> (\<forall>q \<in> set ys. h' q = ?h q)
           \<and> de_data (h' (last (r # rs))) = concat (map (\<lambda>r. de_data (?h r)) (r # rs))"
    using Cons.prems zs(2) rest by (intro Cons.IH) (auto simp: passes_def)
  then obtain h' ys where h': "store_pieces e (length (de_data (?h r))) rs ?h \<lparr>dc_entries = zs @ [r]\<rparr>
             = (True, h', \<lparr>dc_entries = ys @ [last (r # rs)]\<rparr>)" "set ys \<subseteq> set zs"
      "version_at h' (last (r # rs)) = v" "\<forall>q \<in> set ys. h' q = ?h q"
      "de_data (h' (last (r # rs))) = concat (map (\<lambda>r. de_data (?h r)) (r # rs))" by blast
  have c: "concat (map (\<lambda>r. de_data (?h r)) rs) = concat (map (\<lambda>r. de_data (h r)) rs)"
    using rest(1) by (intro arg_cong [where f = concat] map_cong) auto
  have "de_data (h' (last (p # r # rs))) = concat (map (\<lambda>r. de_data (h r)) (p # r # rs))"
    using h'(5) c by (simp del: fun_upd_apply add: fun_upd_same)
  moreover have "store_pieces e (length (de_data (h p))) (r # rs) h \<lparr>dc_entries = xs @ [p]\<rparr>
      = (True, h', \<lparr>dc_entries = ys @ [last (p # r # rs)]\<rparr>)"
    using h'(1) step by simp
  moreover have "\<forall>q \<in> set ys. h' q = h q" "set ys \<subseteq> set xs" using h'(2,4) zs(2) rest(2) by (metis subsetD, blast)
  ultimately show ?case using h'(3) by auto
qed

section \<open>Deletions\<close>

text \<open>The entry \<open>p\<close> with the data of a deletion, and marked as deleted.\<close>

abbreviation deleted_by :: "chain_env \<Rightarrow> data_entry \<Rightarrow> data_entry \<Rightarrow> data_entry" where
  "deleted_by e del old \<equiv> old\<lparr>de_data := de_data del,
     de_md := (de_md old)\<lparr>km_version := markDeleted (dv_vl e) (dv_wall e) (km_version (de_md old))\<rparr>\<rparr>"

lemma deleted_loop_Not_there:
  "deleted_loop e r ps h = Not_there \<Longrightarrow> p \<in> set ps \<Longrightarrow>
     compare_at e (version_at h r) h p \<noteq> EQUAL \<and> (supercedes_at h p \<longrightarrow> compare_at e (version_at h r) h p \<noteq> LESS_THAN)"
  by (induction ps) (auto simp: Let_def split: if_splits)

lemma deleted_loop_Replaced:
  "deleted_loop e r ps h = Replaced h' \<Longrightarrow> \<exists>xs p ys. ps = xs @ p # ys \<and> h' = h(p := deleted_by e (h r) (h p))
     \<and> compare_at e (version_at h r) h' p = EQUAL \<and> (\<forall>q \<in> set xs. compare_at e (version_at h r) h q \<noteq> EQUAL)"
proof (induction ps)
  case (Cons p ps)
  show ?case
  proof (cases "deleted_loop e r ps h = Replaced h' \<and> compare_at e (version_at h r) h p \<noteq> EQUAL")
    case True
    then obtain xs q ys where "ps = xs @ q # ys" "h' = h(q := deleted_by e (h r) (h q))"
      "compare_at e (version_at h r) h' q = EQUAL" "\<forall>q \<in> set xs. compare_at e (version_at h r) h q \<noteq> EQUAL"
      using Cons.IH by blast
    with True show ?thesis by (intro exI [of _ "p # xs"] exI [of _ q] exI [of _ ys]) simp
  next
    case False
    then show ?thesis using Cons.prems by (intro exI [of _ "[]"] exI [of _ p] exI [of _ ps]) (auto simp: Let_def split: if_splits)
  qed
qed simp

text \<open>
  A deletion of a version the chain holds takes its place: the chain keeps its entries, one of them
  is now that deletion. Otherwise it is refused, or stored as any other version.
\<close>

lemma find_first: "\<forall>x \<in> set xs. \<not> P x \<Longrightarrow> P y \<Longrightarrow> find P (xs @ y # ys) = Some y"
  by (induction xs) auto

lemma chain_storeDeleted:
  assumes "compare_equiv (dv_vl e)" "chain_ok e h c" "r \<notin> set (dc_entries c)" "storeDeleted e r h c = (True, h', c')"
  obtains "h' = h" "c' = snd (store_unlocked e r h c)" "chain_ok e h' c'" "dc_find e (version_at h r) h' c' = Some r"
  | q where "c' = c" "q \<in> set (dc_entries c)" "h' = h(q := deleted_by e (h r) (h q))" "dc_find e (version_at h r) h' c' = Some q"
      "chain_ok e h' \<lparr>dc_entries = removeAll q (dc_entries c)\<rparr>"
proof -
  note eq = compare_equivD [OF assms(1)]
  consider "deleted_loop e r (dc_entries c) h = Not_there" "h' = h" "c' = snd (store_unlocked e r h c)"
    | "deleted_loop e r (dc_entries c) h = Replaced h'" "c' = c"
    using assms(4) by (auto simp: storeDeleted_def store_unlocked_entries split: deletion.splits)
  then show thesis
  proof cases
    case 1
    note n = deleted_loop_Not_there [OF 1(1)]
    have "chain_ok e h (snd (store_unlocked e r h c))"
      using chain_ok_extend [OF assms(1,3), of h] assms(2) n by (cases c) simp
    moreover have "dc_find e (version_at h r) h (snd (store_unlocked e r h c)) = Some r"
      using find_stored [OF assms(1), of "dc_entries c" h r] n by (cases c) simp
    ultimately show thesis using that(1) 1 by blast
  next
    case 2
    then obtain xs q ys where q: "dc_entries c = xs @ q # ys" "h' = h(q := deleted_by e (h r) (h q))"
      "compare_at e (version_at h r) h' q = EQUAL" "\<forall>q \<in> set xs. compare_at e (version_at h r) h q \<noteq> EQUAL"
      using deleted_loop_Replaced by blast
    have "distinct (xs @ q # ys)" using assms(2) q(1) by (simp add: chain_ok_def)
    then have "\<forall>p \<in> set xs. h' p = h p" using q(2) by auto
    then have "\<forall>p \<in> set xs. vl_compare (dv_vl e) (version_at h' p) (version_at h r) \<noteq> EQUAL" using q(4) eq(2) by metis
    moreover have "vl_compare (dv_vl e) (version_at h' q) (version_at h r) = EQUAL" using q(3) eq(2) by blast
    ultimately have "dc_find e (version_at h r) h' c' = Some q"
      unfolding 2(2) dc_find_def dc_find_unlocked_def q(1) by (intro find_first) auto
    moreover have "chain_ok e h' \<lparr>dc_entries = removeAll q (dc_entries c)\<rparr>"
      using assms(2) unfolding q(2) by (intro chain_ok_update) (auto simp: chain_ok_def distinct_removeAll)
    moreover have "q \<in> set (dc_entries c)" using q(1) by simp
    ultimately show thesis using that(2) 2(2) q(2) by blast
  qed
qed

lemma storeDeleted_refused: "storeDeleted e r h c = (False, h', c') \<Longrightarrow> h' = h \<and> c' = c"
  by (auto simp: storeDeleted_def store_unlocked_entries split: deletion.splits)

section \<open>Other operations\<close>

lemma in_erase_first: "x \<in> set (erase_first P xs) \<Longrightarrow> x \<in> set xs"
  by (induction xs) (auto split: if_splits)

lemma distinct_erase_first: "distinct xs \<Longrightarrow> distinct (erase_first P xs)"
  by (induction xs) (auto dest: in_erase_first)

lemma chain_ok_subset:
  "chain_ok e h c \<Longrightarrow> distinct (dc_entries c') \<Longrightarrow> set (dc_entries c') \<subseteq> set (dc_entries c) \<Longrightarrow> chain_ok e h c'"
  unfolding chain_ok_def by blast

lemma chain_ok_erase: "chain_ok e h c \<Longrightarrow> chain_ok e h (snd (dc_erase e v h c))"
  by (rule chain_ok_subset)
    (auto simp: chain_ok_def dc_erase_def Let_def distinct_erase_first dest: in_erase_first)

lemma find_erase_first:
  "find P xs = Some x \<Longrightarrow> \<exists>as bs. xs = as @ x # bs \<and> erase_first P xs = as @ bs"
proof (induction xs)
  case (Cons y ys)
  show ?case
  proof (cases "P y")
    case True
    with Cons.prems show ?thesis by (intro exI [of _ "[]"] exI [of _ ys]) simp
  next
    case False
    with Cons obtain as bs where "ys = as @ x # bs" "erase_first P ys = as @ bs" by auto
    with False show ?thesis by (intro exI [of _ "y # as"] exI [of _ bs]) simp
  qed
qed simp

text \<open>A version made here succeeds every other one if its clock does, and then it is the only one left.\<close>

lemma storeAsBestVersion_effect:
  fixes e :: chain_env and h :: entry_heap and c :: data_chain
  assumes "r \<notin> set (dc_entries c)"
  defines "v \<equiv> vc_increment (dv_vl e) (dv_wall e) (dv_me e) (bestVersion e h c)"
  assumes "storeAsBestVersion e r h c = (ok, h', c')"
  shows "ok" "version_at h' r = v" "\<forall>q. q \<noteq> r \<longrightarrow> h' q = h q" "de_data (h' r) = de_data (h r)"
    and "supercedes_at h r \<Longrightarrow> \<forall>p \<in> set (dc_entries c). vl_compare (dv_vl e) (version_at h p) v = LESS_THAN
           \<Longrightarrow> dc_entries c' = [r]"
  using assms by (auto simp: storeAsBestVersion_def store_unlocked_entries Let_def v_def filter_empty_conv)

section \<open>An instance\<close>

lemma clock_le_trans: "clock_le a b \<Longrightarrow> clock_le b c \<Longrightarrow> clock_le a c"
  by (auto simp: clock_le_def)

lemma vclock_le_trans: "vclock_le a b \<Longrightarrow> vclock_le b c \<Longrightarrow> vclock_le a c"
  unfolding vclock_le_def by (meson clock_le_trans)

lemma compare_equiv_ref_lib: "compare_equiv ref_lib"
proof -
  have "vclock_le a a" for a by (auto simp: vclock_le_def clock_le_def)
  then show ?thesis
    unfolding compare_equiv_def
    by (auto simp: ref_lib_def ref_compare_def split: if_splits) (meson vclock_le_trans)+
qed

text \<open>Two versions of a value that do not succeed each other, and new pieces of a third.\<close>

definition sample_env :: chain_env where
  "sample_env = \<lparr>dv_vl = ref_lib, dv_wall = \<lparr>wc_frozen = 0, wc_system = 9\<rparr>, dv_me = ''me'',
     dv_hash = \<lparr>he_hasher = (\<lambda>s. s), he_encode = (\<lambda>s. s), he_decode = (\<lambda>s. s), he_overread = (\<lambda>s. 0)\<rparr>\<rparr>"

definition sample_heap :: entry_heap where
  "sample_heap = (\<lambda>p. \<lparr>de_data = replicate (p + 1) (CHR ''x''),
     de_md = KeyMetadata\<lparr>km_version :=
       (if p = 0 then [\<lparr>ck_key = ''delete'', ck_time = 5, ck_count = 0\<rparr>]
        else if p = 1 then [\<lparr>ck_key = ''a'', ck_time = 1, ck_count = 0\<rparr>]
        else if p = 4 then [\<lparr>ck_key = ''delete'', ck_time = 9, ck_count = 0\<rparr>, \<lparr>ck_key = ''a'', ck_time = 1, ck_count = 0\<rparr>]
        else [\<lparr>ck_key = ''a'', ck_time = 2, ck_count = 0\<rparr>])\<rparr>\<rparr>)"

lemmas sample_env_simps = sample_env_def sample_heap_def KeyMetadata_def ref_lib_def ref_compare_def ref_increment_def
  vclock_le_def clock_le_def isDeleted_def markDeleted_def markDeleted_at_def vc_increment_at_def wc_now_def

text \<open>
  Replacing an entry by its deletion does not clear what the deletion succeeds: the older deletion
  stays in the chain, though the entry that was replaced supercedes.
\<close>

lemma deletion_in_place_keeps_older:
  "\<exists>h. storeDeleted sample_env 4 sample_heap \<lparr>dc_entries = [0, 1]\<rparr> = (True, h, \<lparr>dc_entries = [0, 1]\<rparr>)
     \<and> compare_at sample_env (version_at h 0) h 1 = LESS_THAN \<and> supercedes_at h 1"
  by (simp add: storeDeleted_def sample_env_simps Let_def)

text \<open>
  C38. Storing keeps a data chain free of obsolete versions, with one exception: if no two entries of it have the same
  version and none is succeeded by a superceding one, then so it is after \<^verbatim>\<open>store\<close> has put an entry that was not in the chain into
  it, deletions included; the version is found and is that entry, and every entry that went had that version or an older one.
  The exception is a deletion that takes the place of the entry it deletes: no entry comes or goes, exactly that one
  changes, into the deletion that is found from then on, and what is free of obsolete versions is the chain without it. When
  \<^verbatim>\<open>store\<close> returns false, neither the chain nor any entry has changed.
\<close>

theorem store_keeps_chain_current:
  assumes "compare_equiv (dv_vl e)" "chain_ok e h c" "r \<notin> set (dc_entries c)" "dc_store e r off h c = (ok, h', c')"
  shows "if \<not> ok then h' = h \<and> c' = c
    else if r \<in> set (dc_entries c')
    then chain_ok e h' c' \<and> dc_find e (version_at h r) h' c' = Some r
       \<and> set (dc_entries c') \<subseteq> insert r (set (dc_entries c))
       \<and> (\<forall>p \<in> set (dc_entries c) - set (dc_entries c').
            vl_compare (dv_vl e) (version_at h p) (version_at h r) \<in> {EQUAL, LESS_THAN})
    else isDeleted (version_at h r) \<and> c' = c
       \<and> (\<exists>q \<in> set (dc_entries c). dc_find e (version_at h r) h' c' = Some q
            \<and> h' = h(q := (h q)\<lparr>de_data := de_data (h r),
                de_md := (de_md (h q))\<lparr>km_version := markDeleted (dv_vl e) (dv_wall e) (version_at h q)\<rparr>\<rparr>)
            \<and> chain_ok e h' \<lparr>dc_entries = removeAll q (dc_entries c)\<rparr>)"
proof (cases ok)
  case True
  with assms(4) have s: "dc_store e r off h c = (True, h', c')" by simp
  show ?thesis
  proof (cases "isDeleted (version_at h r)")
    case True
    then have "storeDeleted e r h c = (True, h', c')" using s by (simp add: dc_store_def)
    from assms(1-3) this show ?thesis
    proof (cases rule: chain_storeDeleted)
      case 1
      then show ?thesis using \<open>ok\<close> by (auto simp: store_unlocked_entries)
    next
      case (2 q)
      then show ?thesis using \<open>ok\<close> True assms(3) by auto
    qed
  next
    case False
    note f = chain_store [OF assms(1-3) False s]
    have "r \<in> set (dc_entries c')"
      using f(2) unfolding dc_find_def dc_find_unlocked_def find_Some_iff by auto
    then show ?thesis using \<open>ok\<close> f by simp
  qed
next
  case False
  with assms(4) have "dc_store e r off h c = (False, h', c')" by simp
  then have "h' = h \<and> c' = c"
    using dc_store_refused storeDeleted_refused by (cases "isDeleted (version_at h r)") (auto simp: dc_store_def)
  then show ?thesis using False by simp
qed

theorem store_keeps_chain_current_witness:
  "chain_ok sample_env sample_heap (snd (snd (dc_store sample_env 2 0 sample_heap \<lparr>dc_entries = [0, 1]\<rparr>)))
   \<and> dc_find sample_env (version_at sample_heap 2) sample_heap (snd (snd (dc_store sample_env 2 0 sample_heap \<lparr>dc_entries = [0, 1]\<rparr>))) = Some 2
   \<and> (\<exists>h q. dc_store sample_env 4 0 sample_heap \<lparr>dc_entries = [0, 1]\<rparr> = (True, h, \<lparr>dc_entries = [0, 1]\<rparr>)
        \<and> dc_find sample_env (version_at sample_heap 4) h \<lparr>dc_entries = [0, 1]\<rparr> = Some q)"
proof -
  have equiv: "compare_equiv (dv_vl sample_env)" using compare_equiv_ref_lib by (simp add: sample_env_def)
  have ok: "chain_ok sample_env sample_heap \<lparr>dc_entries = [0, 1]\<rparr>" by (simp add: chain_ok_def sample_env_simps)
  have new: "\<not> isDeleted (version_at sample_heap 2)" by (simp add: sample_env_simps)
  have "\<forall>p \<in> set [0, 1]. passes sample_env (version_at sample_heap 2) sample_heap p"
    by (simp add: passes_def sample_env_simps)
  then have "dc_store sample_env 2 0 sample_heap \<lparr>dc_entries = [0, 1]\<rparr>
      = (True, sample_heap, snd (store_unlocked sample_env 2 sample_heap \<lparr>dc_entries = [0, 1]\<rparr>))"
    using store_first_piece [of sample_heap 2 "\<lparr>dc_entries = [0, 1]\<rparr>" sample_env 0] new by simp
  moreover have "snd (store_unlocked sample_env 2 sample_heap \<lparr>dc_entries = [0, 1]\<rparr>) = \<lparr>dc_entries = [0, 2]\<rparr>"
    unfolding store_unlocked_entries by (simp add: sample_env_simps)
  ultimately have s: "dc_store sample_env 2 0 sample_heap \<lparr>dc_entries = [0, 1]\<rparr> = (True, sample_heap, \<lparr>dc_entries = [0, 2]\<rparr>)" by simp
  obtain h where "storeDeleted sample_env 4 sample_heap \<lparr>dc_entries = [0, 1]\<rparr> = (True, h, \<lparr>dc_entries = [0, 1]\<rparr>)"
    using deletion_in_place_keeps_older by blast
  moreover have "isDeleted (version_at sample_heap 4)" by (simp add: sample_env_simps)
  ultimately have d: "dc_store sample_env 4 0 sample_heap \<lparr>dc_entries = [0, 1]\<rparr> = (True, h, \<lparr>dc_entries = [0, 1]\<rparr>)"
    by (simp add: dc_store_def)
  show ?thesis
    using store_keeps_chain_current [OF equiv ok _ s] store_keeps_chain_current [OF equiv ok _ d] s d by auto
qed

text \<open>
  C39. A version is received piece by piece: pieces of one version that are stored one after the
  other, each at the length of those before, are all accepted, and the version is then found as
  one entry whose data are the pieces in their order, whatever other versions the chain holds
  that do not stand in its way.
\<close>

theorem pieces_make_one_entry:
  assumes "compare_equiv (dv_vl e)" "\<not> isDeleted v" "rs \<noteq> []" "distinct rs"
    and "set rs \<inter> set (dc_entries c) = {}" "\<forall>r \<in> set rs. version_at h r = v"
    and "\<forall>p \<in> set (dc_entries c). passes e v h p"
  shows "\<exists>h' c'. store_pieces e 0 rs h c = (True, h', c')
           \<and> dc_find e v h' c' = Some (last rs)
           \<and> de_data (h' (last rs)) = concat (map (\<lambda>r. de_data (h r)) rs)"
proof -
  obtain p qs where rs: "rs = p # qs" using assms(3) by (cases rs) auto
  obtain xs where xs: "snd (store_unlocked e p h c) = \<lparr>dc_entries = xs @ [p]\<rparr>" "set xs \<subseteq> set (dc_entries c)"
    unfolding store_unlocked_entries by (auto intro!: that)
  have "dc_store e p 0 h c = (True, h, \<lparr>dc_entries = xs @ [p]\<rparr>)"
    using store_first_piece [of h p c e 0] assms(2,6,7) rs xs(1) by simp
  moreover obtain h' ys where h': "store_pieces e (length (de_data (h p))) qs h \<lparr>dc_entries = xs @ [p]\<rparr>
      = (True, h', \<lparr>dc_entries = ys @ [last rs]\<rparr>)" "set ys \<subseteq> set xs" "version_at h' (last rs) = v"
      "\<forall>q \<in> set ys. h' q = h q" "de_data (h' (last rs)) = concat (map (\<lambda>r. de_data (h r)) rs)"
  proof -
    have "set (p # qs) \<inter> set xs = {}" "\<forall>q \<in> set xs. passes e v h q"
      using assms(5,7) xs(2) unfolding rs by blast+
    from store_next_pieces [OF assms(1,2) assms(4) [unfolded rs] this(1) assms(6) [unfolded rs] this(2)]
    show thesis using that unfolding rs by blast
  qed
  moreover have "vl_compare (dv_vl e) (version_at h' q) v \<noteq> EQUAL" if "q \<in> set ys" for q
    using that h'(2,4) xs(2) assms(7) compare_equivD(2) [OF assms(1)] unfolding passes_def
    by (metis subsetD)
  then have "dc_find e v h' \<lparr>dc_entries = ys @ [last rs]\<rparr> = Some (last rs)"
    using h'(3) compare_equivD(1) [OF assms(1)] by (auto simp: dc_find_def dc_find_unlocked_def intro!: find_last)
  ultimately show ?thesis unfolding rs by auto
qed

theorem pieces_make_one_entry_witness:
  "\<exists>h' c'. store_pieces sample_env 0 [2, 3] sample_heap \<lparr>dc_entries = [0, 1]\<rparr> = (True, h', c')
     \<and> dc_find sample_env [\<lparr>ck_key = ''a'', ck_time = 2, ck_count = 0\<rparr>] h' c' = Some 3
     \<and> de_data (h' 3) = ''xxxxxxx''"
proof -
  let ?v = "[\<lparr>ck_key = ''a'', ck_time = 2, ck_count = 0\<rparr>]"
  have "compare_equiv (dv_vl sample_env)" using compare_equiv_ref_lib by (simp add: sample_env_def)
  moreover have "\<not> isDeleted ?v" by (simp add: isDeleted_def)
  moreover have "\<forall>r \<in> set [2, 3]. version_at sample_heap r = ?v" by (simp add: sample_heap_def KeyMetadata_def)
  moreover have "\<forall>p \<in> set (dc_entries \<lparr>dc_entries = [0, 1]\<rparr>). passes sample_env ?v sample_heap p"
    by (simp add: passes_def sample_env_simps)
  moreover have "concat (map (\<lambda>r. de_data (sample_heap r)) [2, 3]) = ''xxxxxxx''"
    by (simp add: sample_heap_def numeral_eq_Suc)
  ultimately show ?thesis
    using pieces_make_one_entry [of sample_env ?v "[2, 3]" "\<lparr>dc_entries = [0, 1]\<rparr>" sample_heap] by simp
qed

end
