(* ===== verification/ReadBack.thy ===== *)
theory ReadBack
  imports Commands
begin

text \<open>
  The write command, the versioned store and the read command together: what a user writes is what
  the next user reads. The locale \<open>posix_files\<close> is what this needs of the file system, beside
  the laws of directories.
\<close>

section \<open>The file system\<close>

text \<open>
  \<open>data p f\<close> are the bytes of the file at \<open>p\<close>. A file that is new is opened with nothing in it and takes what is
  written, the system calls on one file leave the others alone, a file that is there can be opened, and a
  rename within a directory succeeds and takes the bytes along.
\<close>

locale posix_files = byte_source "file_reader_ops (fl_sys fl) beyond" left rok
  for fl :: "'f file_lib" and beyond :: bytes and left :: "file_reader \<Rightarrow> 'f \<Rightarrow> bytes" and rok :: "file_reader \<Rightarrow> 'f \<Rightarrow> bool" +
  fixes data :: "string \<Rightarrow> 'f \<Rightarrow> bytes option" and wok :: "file_writer \<Rightarrow> 'f \<Rightarrow> bool"
  assumes directories: "dir_laws fl"
    and listed: "n \<in> set (fl_list fl d f) \<longleftrightarrow> plain_name n \<and> data (in_dir d n) f \<noteq> None"
    and create_directories: "data q (fl_create_directories fl d f) = data q f"
    and create: "sy_open_write (fl_sys fl) (in_dir d n) (fl_create_directories fl d f) = (fd, f') \<Longrightarrow> data (in_dir d n) f = None
      \<Longrightarrow> fd \<noteq> -1 \<and> wok \<lparr>fw_fd = fd, fw_filename = in_dir d n\<rparr> f' \<and> data (in_dir d n) f' = Some []
        \<and> (\<forall>q. q \<noteq> in_dir d n \<longrightarrow> data q f' = data q f)"
    and writes: "wok w f \<Longrightarrow> wok w (sy_write (fl_sys fl) (fw_fd w) b f)
        \<and> data (fw_filename w) (sy_write (fl_sys fl) (fw_fd w) b f) = Some (the (data (fw_filename w) f) @ b)
        \<and> (\<forall>q. q \<noteq> fw_filename w \<longrightarrow> data q (sy_write (fl_sys fl) (fw_fd w) b f) = data q f)"
    and attributes: "wok w f \<Longrightarrow> sy_attr_set (fl_sys fl) (fw_fd w) k v f = (r, f') \<Longrightarrow> wok w f' \<and> (\<forall>q. data q f' = data q f)"
    and closes: "data q (sy_close (fl_sys fl) fd f) = data q f"
    and opens: "sy_open_read (fl_sys fl) p f = (fd, f') \<Longrightarrow> data p f = Some d
      \<Longrightarrow> fd \<noteq> -1 \<and> rok \<lparr>fr_fd = fd\<rparr> f' \<and> left \<lparr>fr_fd = fd\<rparr> f' = d \<and> (\<forall>q. data q f' = data q f) \<and> (\<forall>w. wok w f \<longrightarrow> wok w f')"
    and there: "wok w f \<Longrightarrow> data (fw_filename w) f \<noteq> None"
    and renames: "plain_name a \<Longrightarrow> plain_name b \<Longrightarrow> a \<noteq> b \<Longrightarrow> data (in_dir d a) f \<noteq> None
      \<Longrightarrow> \<exists>f'. fl_rename fl (in_dir d a) (in_dir d b) f = (True, f') \<and> data (in_dir d b) f' = data (in_dir d a) f
        \<and> (\<forall>q. q \<noteq> in_dir d a \<longrightarrow> q \<noteq> in_dir d b \<longrightarrow> data q f' = data q f)"
    and removes: "q \<noteq> p \<Longrightarrow> data q (snd (fl_remove fl p f)) = data q f"

text \<open>A callback that does not touch the files.\<close>

definition leaves_files :: "(string \<Rightarrow> 'f \<Rightarrow> bytes option) \<Rightarrow> (file_writer \<Rightarrow> 'f \<Rightarrow> bool) \<Rightarrow> ('r, 'f) commit_hook option \<Rightarrow> bool" where
  "leaves_files data wok h \<longleftrightarrow> (case h of None \<Rightarrow> True
     | Some g \<Rightarrow> \<forall>ins rd f ins' rd' f'. g ins rd f = (ins', rd', f')
         \<longrightarrow> wi_isComplete ins' = wi_isComplete ins \<and> (\<forall>q. data q f' = data q f) \<and> (\<forall>w. wok w f \<longrightarrow> wok w f'))"

text \<open>The commands are given the operations of the versioned store.\<close>

definition over_store :: "(file_writer, file_reader, 'f) cmd_env \<Rightarrow> 'f store_env \<Rightarrow> bytes \<Rightarrow> bool" where
  "over_store ce e beyond \<longleftrightarrow> ce_wo ce = file_writer_ops (fl_sys (se_files e))
     \<and> ce_ro ce = file_reader_ops (fl_sys (se_files e)) beyond
     \<and> ce_write ce = (\<lambda>name version copies offset. fs_write e name version copies)
     \<and> ce_read ce = fs_read e"

section \<open>The stream of a write command\<close>

text \<open>What a command keeps of its stream until the entry is complete.\<close>

definition keeps_stream :: "('w, 'f) write_command \<Rightarrow> ('w, 'f) write_command \<Rightarrow> bool" where
  "keeps_stream cmd' cmd \<longleftrightarrow> ws_onClose (wm_writer cmd') = ws_onClose (wm_writer cmd)
     \<and> km_version (ws_md (wm_writer cmd')) = km_version (ws_md (wm_writer cmd))
     \<and> wm_onCommit cmd' = wm_onCommit cmd"

lemma keeps_stream_refl [simp]: "keeps_stream cmd cmd"
  by (simp add: keeps_stream_def)

lemma keeps_stream_trans: "keeps_stream a b \<Longrightarrow> keeps_stream b c \<Longrightarrow> keeps_stream a c"
  by (simp add: keeps_stream_def)

lemma put_keeps_stream: "wm_put ce b cmd f = (cmd', f') \<Longrightarrow> keeps_stream cmd' cmd \<and> wm_instructions cmd' = wm_instructions cmd"
  by (auto simp: wm_put_def ws_write_def keeps_stream_def split: option.splits prod.splits)

lemma flush_keeps_stream:
  assumes "wm_flush ce cmd f = Inr (ok, cmd', f')" "\<not> wi_isComplete (wm_instructions cmd)"
  shows "keeps_stream cmd' cmd"
  using assms
  by (auto simp: wm_flush_def ws_commit_def ws_do_commit_def rbind_Inr_iff Let_def keeps_stream_def case_prod_beta
      split: if_splits option.splits)

lemma data_keeps_stream:
  assumes "wm_data ce buff cmd f = Inr (ok, cmd', f')" "\<not> wi_isComplete (wm_instructions cmd)"
  shows "keeps_stream cmd' cmd"
proof -
  have keeps: "keeps_stream (c\<lparr>wm_bytes := n\<rparr>) d = keeps_stream c d" for c d :: "('a, 'b) write_command" and n
    by (simp add: keeps_stream_def)
  show ?thesis
    using assms
    by (auto simp: wm_data_def rbind_Inr_iff Let_def keeps split: if_splits prod.splits
        dest!: put_keeps_stream flush_keeps_stream intro: keeps_stream_trans)
qed

lemma run_keeps_stream:
  assumes "WriteCommand_run ce buff cmd f = Inr (ok, cmd', f')" "wm_started cmd" "\<not> wm_finished cmd" "buff \<noteq> []"
    "\<not> wi_isComplete (wm_instructions cmd)"
  shows "keeps_stream cmd' cmd"
proof -
  have e: "cmd\<lparr>wm_started := True\<rparr> = cmd" using assms(2) by (cases cmd) simp
  have "wm_data ce buff cmd f = Inr (ok, cmd', f')"
    using assms by (simp add: WriteCommand_run_def wm_start_def e)
  then show ?thesis using assms(5) by (rule data_keeps_stream)
qed

context byte_sink
begin

lemma buffers_keeps_stream:
  assumes "ce_wo ce = wo" "ce_ro ce = ro" "writing content ok cmd f b" "quiet content ok (hook_of ce (wm_onCommit cmd))"
    "wm_bytes cmd \<le> 0x10000" "\<forall>d \<in> set bs. d \<noteq> [] \<and> length d \<le> 0x10000"
  shows "\<exists>cmd' f'. run_buffers ce bs cmd f = Inr (True, cmd', f') \<and> writing content ok cmd' f' (b @ concat bs)
           \<and> keeps_stream cmd' cmd"
  using assms(3-6)
proof (induction bs arbitrary: cmd f b)
  case Nil
  then show ?case by simp
next
  case (Cons d bs)
  obtain cmd' f' where c: "WriteCommand_run ce d cmd f = Inr (True, cmd', f')" "writing content ok cmd' f' (b @ d)"
      "wm_bytes cmd' \<le> 0x10000" "wm_onCommit cmd' = wm_onCommit cmd"
    using chunk_appends [OF assms(1,2) Cons.prems(1-3), of d] Cons.prems(4) by auto
  have "keeps_stream cmd' cmd"
    using run_keeps_stream [OF c(1)] Cons.prems(1,4) by (simp add: writing_def)
  then show ?case using Cons.IH [OF c(2)] Cons.prems(2,4) c by (auto intro: keeps_stream_trans)
qed

end

lemma run_buffers_append:
  "run_buffers ce (as @ bs) cmd f =
     rbind (run_buffers ce as cmd f) (\<lambda>(ok, cmd, f). if ok then run_buffers ce bs cmd f else Inr (False, cmd, f))"
  by (induction as arbitrary: cmd f) (auto simp: rbind_def split: sum.splits prod.splits)

section \<open>Writing a version\<close>

lemma FileReader_open: "FileReader sy p 0 f = (\<lparr>fr_fd = fst (sy_open_read sy p f)\<rparr>, snd (sy_open_read sy p f))"
  by (simp add: FileReader_def fr_open_def Let_def case_prod_beta)

definition content_of :: "(string \<Rightarrow> 'f \<Rightarrow> bytes option) \<Rightarrow> file_writer \<Rightarrow> 'f \<Rightarrow> bytes" where
  "content_of data w f = the (data (fw_filename w) f)"

text \<open>A writer of the file \<open>p\<close>, with every other file as it is in \<open>g\<close>.\<close>

definition only_writes :: "(string \<Rightarrow> 'f \<Rightarrow> bytes option) \<Rightarrow> (file_writer \<Rightarrow> 'f \<Rightarrow> bool) \<Rightarrow> string \<Rightarrow> 'f
    \<Rightarrow> file_writer \<Rightarrow> 'f \<Rightarrow> bool" where
  "only_writes data wok p g w f \<longleftrightarrow> wok w f \<and> fw_filename w = p \<and> (\<forall>q. q \<noteq> p \<longrightarrow> data q f = data q g)"

lemma leaves_files_quiet:
  "leaves_files data wok h \<Longrightarrow> quiet (content_of data) (only_writes data wok p g) h"
  unfolding leaves_files_def quiet_def only_writes_def content_of_def by (auto split: option.splits; blast)

context posix_files
begin

lemma open_there:
  assumes "data p f = Some d"
  shows "fr_good (fst (FileReader (fl_sys fl) p 0 f))" "data q (snd (FileReader (fl_sys fl) p 0 f)) = data q f"
    "wok w f \<Longrightarrow> wok w (snd (FileReader (fl_sys fl) p 0 f))"
    "rok (fst (FileReader (fl_sys fl) p 0 f)) (snd (FileReader (fl_sys fl) p 0 f))"
    "left (fst (FileReader (fl_sys fl) p 0 f)) (snd (FileReader (fl_sys fl) p 0 f)) = d"
proof -
  obtain fd f' where o: "sy_open_read (fl_sys fl) p f = (fd, f')" by fastforce
  show "fr_good (fst (FileReader (fl_sys fl) p 0 f))" "data q (snd (FileReader (fl_sys fl) p 0 f)) = data q f"
    "wok w f \<Longrightarrow> wok w (snd (FileReader (fl_sys fl) p 0 f))"
    "rok (fst (FileReader (fl_sys fl) p 0 f)) (snd (FileReader (fl_sys fl) p 0 f))"
    "left (fst (FileReader (fl_sys fl) p 0 f)) (snd (FileReader (fl_sys fl) p 0 f)) = d"
    using opens [OF o assms] o by (simp_all add: FileReader_open fr_good_def)
qed

lemma file_sink:
  "byte_sink (file_writer_ops (fl_sys fl)) (file_reader_ops (fl_sys fl) beyond) (content_of data) (only_writes data wok p g)"
proof
  fix w f b w' f' r rd
  assume ok: "only_writes data wok p g w f"
  {
    assume "iw_write (file_writer_ops (fl_sys fl)) b w f = (w', f')"
    then show "only_writes data wok p g w' f' \<and> content_of data w' f' = content_of data w f @ b"
      using ok writes [of w f b]
      by (auto simp: file_writer_ops_def fw_write_def only_writes_def content_of_def)
  next
    assume "iw_flush (file_writer_ops (fl_sys fl)) w f = (r, w', f')"
    then show "r \<and> only_writes data wok p g w' f' \<and> content_of data w' f' = content_of data w f"
      using ok by (simp add: file_writer_ops_def fw_flush_def)
  next
    assume rd: "iw_reader (file_writer_ops (fl_sys fl)) w f = (rd, f')"
    obtain d where "data (fw_filename w) f = Some d"
      using ok there [of w f] by (auto simp: only_writes_def)
    from open_there [OF this] rd ok
    show "ir_good (file_reader_ops (fl_sys fl) beyond) rd \<and> only_writes data wok p g w f' \<and> content_of data w f' = content_of data w f"
      by (auto simp: file_writer_ops_def file_reader_ops_def fw_reader_def only_writes_def content_of_def)
  }
qed

lemma not_stored:
  assumes "se_files e = fl" "version_name m" "\<not> fs_exists e name m f"
  shows "data (filepath e name (m @ ''~'')) f = None" "m \<notin> set (fs_versions e name False f)"
proof -
  have m: "CHR '','' \<in> set m" "last m \<noteq> CHR ''~''" "plain_name (m @ ''~'')"
    using assms(2) by (auto simp: version_name_def plain_name_def)
  then have l: "m @ ''~'' \<notin> set (fl_list fl (dirpath e name) f)" "m \<notin> set (fl_list fl (dirpath e name) f)"
    using assms(1,3) by (auto simp: version_exists_iff_file)
  then show "data (filepath e name (m @ ''~'')) f = None"
    using m(3) listed by (auto simp: filepath_in_dir)
  show "m \<notin> set (fs_versions e name False f)"
    using l(2) by (simp add: fs_versions_names [of e] assms(1) directories)
qed

lemma write_opens:
  assumes "se_files e = fl" "canonical (se_vl e) m" "version_of (se_vl e) m \<noteq> []" "version_name m"
    "\<not> fs_exists e name m f" "\<not> isExpired (se_wall e) EXPIRY_TIMEOUT_SECONDS (version_of (se_vl e) m)"
  shows "\<exists>ws w f0. fs_write e name m copies f = Inr (ws, f0) \<and> ws_writer ws = Some w \<and> fw_good w
     \<and> only_writes data wok (filepath e name (m @ ''~'')) f w f0 \<and> content_of data w f0 = []
     \<and> ws_onClose ws = Some (fs_onWriteComplete e name) \<and> km_version (ws_md ws) = version_of (se_vl e) m"
proof -
  let ?t = "filepath e name (m @ ''~'')" and ?d = "dirpath e name"
  have t: "filepath e name m @ ''~'' = ?t" by (simp add: filepath_def)
  have v: "vc_fromString (se_vl e) m [] = Inr (True, version_of (se_vl e) m)" "vc_toString (se_vl e) (version_of (se_vl e) m) = m"
    using assms(2) by (simp_all add: canonical_def)
  obtain fd f1 where o: "sy_open_write (fl_sys fl) ?t (fl_create_directories fl ?d f) = (fd, f1)" by fastforce
  have c: "fd \<noteq> -1" "wok \<lparr>fw_fd = fd, fw_filename = ?t\<rparr> f1" "data ?t f1 = Some []" "\<forall>q. q \<noteq> ?t \<longrightarrow> data q f1 = data q f"
    using create [OF o [unfolded filepath_in_dir]] not_stored(1) [OF assms(1,4,5)] by (simp_all add: filepath_in_dir)
  let ?w = "\<lparr>fw_fd = fd, fw_filename = ?t\<rparr>" and ?md = "KeyMetadata\<lparr>km_version := version_of (se_vl e) m, km_totalCopies := copies\<rparr>"
  obtain r f2 where a: "sy_attr_set (fl_sys fl) fd ''user.md'' (mdToString ?md) f1 = (r, f2)" by fastforce
  have "fs_open_version e name m f = Inr (Some (version_of (se_vl e) m))"
    using assms(3,5,6) v(1) by (simp add: fs_open_version_def)
  then have "fs_write e name m copies f = Inr (\<lparr>ws_writer = Some ?w, ws_md = ?md, ws_onClose = Some (fs_onWriteComplete e name)\<rparr>, f2)"
    using o a c(1) by (simp add: fs_write_def Let_def v(2) t assms(1) FileWriter_def fw_open_def fw_good_def fw_setAttribute_def)
  moreover have "only_writes data wok ?t f ?w f2" "content_of data ?w f2 = []"
    using c attributes [OF c(2), of "''user.md''" "mdToString ?md" r f2] a by (simp_all add: only_writes_def content_of_def)
  ultimately show ?thesis using c(1) by (auto simp: fw_good_def)
qed

lemma versions_data:
  assumes "se_files e = fl" "\<forall>q. q \<noteq> filepath e name (m @ ''~'') \<longrightarrow> data q g = data q f"
  shows "set (fs_versions e name False g) = set (fs_versions e name False f)"
proof -
  have "version_name s \<Longrightarrow> data (filepath e name s) g = data (filepath e name s) f" for s
  proof -
    assume "version_name s"
    then have "s \<noteq> m @ ''~''" by (auto simp: version_name_def)
    then show ?thesis using assms(2) by (simp add: filepath_in_dir)
  qed
  then show ?thesis
    using fs_versions_names [of e] directories listed assms(1) by (auto simp: filepath_in_dir)
qed

lemma purge_keeps_data:
  assumes "se_files e = fl" "p \<notin> filepath e name ` set ts"
  shows "data p (snd (fold (purge_step e name) ts (md, f))) = data p f"
  using assms(2) by (induction ts arbitrary: md f) (simp_all add: purge_step_def Let_def assms(1) removes)

text \<open>Completing the write of a version that no stored one succeeds.\<close>

lemma completes_version:
  assumes "se_files e = fl" "compare_dual (se_vl e)" "traverses (se_order e)"
    and m: "canonical (se_vl e) m" "version_name m" "\<not> older (se_vl e) m m"
    and stored: "\<forall>s \<in> set (fs_versions e name False f). canonical (se_vl e) s \<and> \<not> older (se_vl e) m s"
    and md: "km_version md = version_of (se_vl e) m"
    and g: "data (filepath e name (m @ ''~'')) g = Some b" "\<forall>q. q \<noteq> filepath e name (m @ ''~'') \<longrightarrow> data q g = data q f"
  shows "\<exists>md' f'. fs_onWriteComplete e name md g = Inr (True, md', f') \<and> data (filepath e name m) f' = Some b
     \<and> set (fs_versions e name False f') = {s \<in> insert m (set (fs_versions e name False f)). \<not> older (se_vl e) s m}"
proof -
  let ?V = "\<lambda>f. fs_versions e name False f" and ?O = "\<lambda>f. obsolete (se_vl e) m (set (fs_versions e name False f))"
  have pm: "plain_name m" "plain_name (m @ ''~'')" "m @ ''~'' \<noteq> m"
    using m(2) by (auto simp: version_name_def plain_name_def)
  have Vg: "set (?V g) = set (?V f)" using versions_data [OF assms(1) g(2)] .
  obtain g1 where g1: "fl_rename fl (filepath e name (m @ ''~'')) (filepath e name m) g = (True, g1)"
      "data (filepath e name m) g1 = Some b"
    using renames [OF pm(2,1,3), of "dirpath e name" g] g(1) by (auto simp: filepath_in_dir)
  have dl: "dir_laws (se_files e)" and ren: "fl_rename (se_files e) (filepath e name (m @ ''~'')) (filepath e name m) g = (True, g1)"
    and can: "\<forall>s \<in> set (?V g). canonical (se_vl e) s"
    using directories assms(1) g1(1) stored Vg by simp_all
  obtain md1 f' where fin: "fs_onWriteComplete e name md g = Inr (True, md1, f')"
      "set (?V g1) = insert m (set (?V g))" "set (?V f') = set (?V g1) - ?O g1"
    by (rule completion [OF dl assms(2,3) can m(1,2) md ren]) blast
  have O: "?O g1 = {s \<in> insert m (set (?V f)). older (se_vl e) s m}"
    using stored m(3) fin(2) Vg by (auto simp: obsolete_def)
  obtain ts where ts: "purge_marks (se_vl e) (km_version md) (?V g1) [] = Inr ts" "distinct ts" "set ts = ?O g1"
    using purge_marks_canonical [OF assms(2) m(1), of "?V g1" "[]"] can m(1) fin(2) md by auto
  have "set (se_order e ts) = ?O g1" using assms(3) ts by (simp add: traverses_def)
  then have "filepath e name m \<notin> filepath e name ` set (se_order e ts)"
    using O m(3) by (auto simp: filepath_def)
  moreover obtain md2 f2 where fo: "fold (purge_step e name) (se_order e ts) (md, g1) = (md2, f2)" by fastforce
  ultimately have "data (filepath e name m) f2 = Some b"
    using purge_keeps_data [OF assms(1), of "filepath e name m" name "se_order e ts" md g1] g1(2) by simp
  moreover have "fs_onWriteComplete e name md g
      = (let (md, f) = fold (purge_step e name) (se_order e ts) (md, g1) in Inr (True, md, f))"
    using ren ts(1) m(1) md
    by (simp add: fs_onWriteComplete_def purgeObsolete_def canonical_def filepath_def Let_def case_prod_beta)
  ultimately have "data (filepath e name m) f' = Some b" using fin(1) fo by simp
  moreover have "set (?V f') = {s \<in> insert m (set (?V f)). \<not> older (se_vl e) s m}"
    using fin(2,3) O Vg by auto
  ultimately show ?thesis using fin(1) by blast
qed


text \<open>The empty buffer at the end commits: the entry is stored under its version.\<close>

lemma commit_stores:
  assumes "over_store ce e beyond" "se_files e = fl" "compare_dual (se_vl e)" "traverses (se_order e)"
    and m: "canonical (se_vl e) m" "version_name m" "\<not> older (se_vl e) m m"
    and stored: "\<forall>s \<in> set (fs_versions e name False f). canonical (se_vl e) s \<and> \<not> older (se_vl e) m s"
    and hook: "leaves_files data wok (hook_of ce (wm_onCommit cmd))"
    and cmd: "writing (content_of data) (only_writes data wok (filepath e name (m @ ''~'')) f) cmd g b"
      "ws_onClose (wm_writer cmd) = Some (fs_onWriteComplete e name)" "km_version (ws_md (wm_writer cmd)) = version_of (se_vl e) m"
  shows "\<exists>cmd' f'. WriteCommand_run ce [] cmd g = Inr (True, cmd', f') \<and> wm_status cmd' = 200 \<and> wm_finished cmd'
     \<and> data (filepath e name m) f' = Some b
     \<and> set (fs_versions e name False f') = {s \<in> insert m (set (fs_versions e name False f)). \<not> older (se_vl e) s m}"
proof -
  let ?t = "filepath e name (m @ ''~'')" and ?fl = "fl_sys fl"
  obtain w where w: "ws_writer (wm_writer cmd) = Some w" "only_writes data wok ?t f w g" "content_of data w g = b"
    using cmd(1) by (auto simp: writing_def)
  have t: "fw_filename w = ?t" "data ?t g = Some b" "\<forall>q. q \<noteq> ?t \<longrightarrow> data q g = data q f"
    using w(2,3) there [of w g] by (auto simp: only_writes_def content_of_def)
  obtain w1 g1 where cl: "fw_close ?fl w g = (True, w1, g1)" "fw_filename w1 = ?t" "\<And>q. data q g1 = data q g"
    using t(1) closes by (cases "fw_good w") (auto simp: fw_close_def)
  obtain rd g2 where rd: "FileReader ?fl ?t 0 g1 = (rd, g2)" by fastforce
  have t1: "data ?t g1 = Some b" using t(2) cl(3) by simp
  have k: "fr_good rd" "\<And>q. data q g2 = data q g" using open_there(1,2) [OF t1] rd cl(3) by auto
  let ?ws = "wm_writer cmd"
  let ?md = "(ws_md ?ws)\<lparr>km_digest := ws_digest (ce_hash ce) (vc_toString (ce_vl ce) (km_version (ws_md ?ws))) (fr_size ?fl rd g2)\<rparr>"
  obtain md' g3 where on: "fs_onWriteComplete e name ?md g2 = Inr (True, md', g3)" "data (filepath e name m) g3 = Some b"
      "set (fs_versions e name False g3) = {s \<in> insert m (set (fs_versions e name False f)). \<not> older (se_vl e) s m}"
    using completes_version [OF assms(2-4) m stored, of ?md g2 b] cmd(3) t k(2) by auto
  have com: "ws_commit (ce_hash ce) (ce_vl ce) (ce_ro ce) (ce_wo ce) True ?ws g
      = Inr (\<lparr>rs_reader = Some rd, rs_md = md'\<rparr>, ?ws\<lparr>ws_writer := Some w1, ws_md := md'\<rparr>, g3)"
    using assms(1,2) w(1) cl rd cmd(2) on(1)
    by (simp add: over_store_def ws_commit_def ws_do_commit_def file_writer_ops_def file_reader_ops_def fw_flush_def fw_reader_def Let_def)
  have good: "rs_good (ce_ro ce) \<lparr>rs_reader = Some rd, rs_md = md'\<rparr>"
    using assms(1) k(1) by (simp add: over_store_def rs_good_def file_reader_ops_def)
  have fin: "wm_started cmd" "\<not> wm_finished cmd" using cmd(1) by (simp_all add: writing_def)
  let ?done = "\<lambda>f'. data (filepath e name m) f' = Some b
     \<and> set (fs_versions e name False f') = {s \<in> insert m (set (fs_versions e name False f)). \<not> older (se_vl e) s m}"
  have same: "?done g4" if "\<forall>q. data q g4 = data q g3" for g4
    using on(2,3) that versions_data [OF assms(2), of name m g4 g3] by simp
  show ?thesis
  proof (cases "hook_of ce (wm_onCommit cmd)")
    case None
    then show ?thesis using fin com good same [of g3]
      by (auto simp: WriteCommand_run_def wm_start_def wm_commit_def wm_flush_def Let_def setStatus_def)
  next
    case (Some h)
    have "\<forall>q. data q (snd (snd (h ins rs g3))) = data q g3" for ins rs
      using hook Some unfolding leaves_files_def by (cases "h ins rs g3") auto
    then show ?thesis using fin com good same Some
      by (auto simp: WriteCommand_run_def wm_start_def wm_commit_def wm_flush_def Let_def setStatus_def case_prod_beta)
  qed
qed

text \<open>The buffers of an entry go to its temporary file.\<close>

lemma buffers_fill_temporary:
  assumes "over_store ce e beyond" "se_files e = fl" "canonical (se_vl e) m" "version_name m"
    and new: "version_of (se_vl e) m \<noteq> []" "\<not> fs_exists e (wr_name req) m f"
      "\<not> isExpired (se_wall e) EXPIRY_TIMEOUT_SECONDS (version_of (se_vl e) m)"
    and hook: "leaves_files data wok (hook_of ce h)"
    and req: "wr_name req \<noteq> []" "wr_version req = m" and bs: "\<forall>d \<in> set bs. d \<noteq> [] \<and> length d \<le> 0x10000"
  obtains cmd f' where "run_buffers ce ([] # bs) (set_request req (WriteCommand_new ce h)) f = Inr (True, cmd, f')"
    "writing (content_of data) (only_writes data wok (filepath e (wr_name req) (m @ ''~'')) f) cmd f' (concat bs)"
    "ws_onClose (wm_writer cmd) = Some (fs_onWriteComplete e (wr_name req))"
    "km_version (ws_md (wm_writer cmd)) = version_of (se_vl e) m" "wm_onCommit cmd = h"
proof -
  let ?t = "filepath e (wr_name req) (m @ ''~'')"
  obtain ws w f0 where op: "fs_write e (wr_name req) m (wr_copies req) f = Inr (ws, f0)" "ws_writer ws = Some w" "fw_good w"
      "only_writes data wok ?t f w f0" "content_of data w f0 = []"
      "ws_onClose ws = Some (fs_onWriteComplete e (wr_name req))" "km_version (ws_md ws) = version_of (se_vl e) m"
    using write_opens [OF assms(2,3) new(1) assms(4) new(2,3)] by blast
  note over = assms(1,2) [unfolded over_store_def]
  let ?new = "set_request req (WriteCommand_new ce h)"
  let ?cmd = "?new\<lparr>wm_writer := ws, wm_started := True\<rparr>"
  have start: "WriteCommand_run ce [] ?new f = Inr (True, ?cmd, f0)"
    using over op(1-3) req by (simp add: WriteCommand_run_def wm_start_def WriteCommand_new_def set_request_def
        WriteInstructions_def ws_good_def file_writer_ops_def)
  have w0: "writing (content_of data) (only_writes data wok ?t f) ?cmd f0 []" "wm_onCommit ?cmd = h" "wm_bytes ?cmd \<le> 0x10000"
    using op(2,4,5) by (simp_all add: writing_def WriteCommand_new_def set_request_def WriteInstructions_def)
  have q: "quiet (content_of data) (only_writes data wok ?t f) (hook_of ce (wm_onCommit ?cmd))"
    using leaves_files_quiet [OF hook] w0(2) by simp
  obtain cmd1 f1 where mid: "run_buffers ce bs ?cmd f0 = Inr (True, cmd1, f1)"
      "writing (content_of data) (only_writes data wok ?t f) cmd1 f1 ([] @ concat bs)" "keeps_stream cmd1 ?cmd"
    using byte_sink.buffers_keeps_stream [OF file_sink, of ce ?t f ?cmd f0 "[]" bs] over w0(1,3) q bs by auto
  show thesis
    by (rule that [of cmd1 f1]) (use start mid op(6,7) w0(2) in \<open>simp_all add: keeps_stream_def\<close>)
qed

text \<open>The whole of a write: the buffers of an entry and the end.\<close>

lemma write_is_stored:
  assumes "over_store ce e beyond" "se_files e = fl" "compare_dual (se_vl e)" "traverses (se_order e)"
    and m: "canonical (se_vl e) m" "version_name m" "\<not> older (se_vl e) m m"
    and stored: "\<forall>s \<in> set (fs_versions e (wr_name req) False f). canonical (se_vl e) s \<and> \<not> older (se_vl e) m s"
    and new: "version_of (se_vl e) m \<noteq> []" "\<not> fs_exists e (wr_name req) m f"
      "\<not> isExpired (se_wall e) EXPIRY_TIMEOUT_SECONDS (version_of (se_vl e) m)"
    and hook: "leaves_files data wok (hook_of ce h)"
    and req: "wr_name req \<noteq> []" "wr_version req = m" and bs: "\<forall>d \<in> set bs. d \<noteq> [] \<and> length d \<le> 0x10000"
  shows "\<exists>cmd f'. run_buffers ce ([] # bs @ [[]]) (set_request req (WriteCommand_new ce h)) f = Inr (True, cmd, f')
     \<and> wm_status cmd = 200 \<and> data (filepath e (wr_name req) m) f' = Some (concat bs)
     \<and> set (fs_versions e (wr_name req) False f')
         = {s \<in> insert m (set (fs_versions e (wr_name req) False f)). \<not> older (se_vl e) s m}"
proof -
  obtain cmd1 f1 where mid: "run_buffers ce ([] # bs) (set_request req (WriteCommand_new ce h)) f = Inr (True, cmd1, f1)"
      "writing (content_of data) (only_writes data wok (filepath e (wr_name req) (m @ ''~'')) f) cmd1 f1 (concat bs)"
      "ws_onClose (wm_writer cmd1) = Some (fs_onWriteComplete e (wr_name req))"
      "km_version (ws_md (wm_writer cmd1)) = version_of (se_vl e) m" "wm_onCommit cmd1 = h"
    by (rule buffers_fill_temporary [OF assms(1,2) m(1,2) new hook req bs])
  obtain cmd' f' where fin: "WriteCommand_run ce [] cmd1 f1 = Inr (True, cmd', f')" "wm_status cmd' = 200"
     "data (filepath e (wr_name req) m) f' = Some (concat bs)"
     "set (fs_versions e (wr_name req) False f') = {s \<in> insert m (set (fs_versions e (wr_name req) False f)). \<not> older (se_vl e) s m}"
    using commit_stores [OF assms(1-4) m stored, of cmd1 f1 "concat bs"] hook mid(2-5) by auto
  have "run_buffers ce (([] # bs) @ [[]]) (set_request req (WriteCommand_new ce h)) f = Inr (True, cmd', f')"
    unfolding run_buffers_append using mid(1) fin(1) by simp
  then show ?thesis using fin(2-4) by auto
qed

text \<open>A stored version is read to its end.\<close>

lemma stored_is_read:
  assumes "over_store ce e beyond" "se_files e = fl" "canonical (se_vl e) m" "version_of (se_vl e) m \<noteq> []"
    and "data (filepath e name m) f = Some b"
    and "takes_all (file_reader_ops (fl_sys fl) beyond) left rok out sent" "\<forall>p f. sent (snd (sy_open_read (fl_sys fl) p f)) = sent f"
  shows "\<exists>f'. ReadCommand_run ce (Some out) \<lparr>nr_name = name, nr_version = m\<rparr> status f = Some (Inr (True, 200, f'))
     \<and> sent f' = sent f @ b"
proof -
  let ?p = "filepath e name m"
  obtain rd f1 where rd: "FileReader (fl_sys fl) ?p 0 f = (rd, f1)" by fastforce
  have k: "fr_good rd" "rok rd f1" "left rd f1 = b" using open_there(1,4,5) [OF assms(5)] rd by simp_all
  have s: "sent f1 = sent f" using assms(7) rd by (auto simp: FileReader_open)
  have v: "vc_fromString (se_vl e) m [] = Inr (True, version_of (se_vl e) m)" "vc_toString (se_vl e) (version_of (se_vl e) m) = m"
    using assms(3) by (simp_all add: canonical_def)
  have o: "fr_open (fl_sys fl) ?p 0 \<lparr>fr_fd = -1\<rparr> f = (fr_good rd, rd, f1)"
    using rd by (auto simp: FileReader_def fr_open_def Let_def case_prod_beta)
  obtain md where "fs_read e name m False f = Inr (\<lparr>rs_reader = Some rd, rs_md = md\<rparr>, f1)"
    using o k(1) assms(2,4) by (simp add: fs_read_def v Let_def fr_good_def)
  then have "ce_read ce name m False f = Inr (\<lparr>rs_reader = Some rd, rs_md = md\<rparr>, f1)"
    using assms(1) by (simp add: over_store_def)
  moreover have "ce_ro ce = file_reader_ops (fl_sys fl) beyond" using assms(1,2) by (simp add: over_store_def)
  moreover obtain rs' f' where "stream_all (file_reader_ops (fl_sys fl) beyond) out \<lparr>rs_reader = Some rd, rs_md = md\<rparr> f1 = Some (rs', f')"
      "sent f' = sent f1 @ left rd f1"
    using stream_all_sends [OF assms(6), of "\<lparr>rs_reader = Some rd, rs_md = md\<rparr>" rd f1] k(2) by auto
  ultimately show ?thesis
    using k(1,3) s by (simp add: ReadCommand_run_def rs_good_def file_reader_ops_def setStatus_def)
qed

end

section \<open>An instance\<close>

definition mem_data :: "string \<Rightarrow> mem_fs \<Rightarrow> bytes option" where
  "mem_data p s = (if ms_has p s then Some (mf_data (ms_file p s)) else None)"

lemma mem_data_simps [simp]:
  "mem_data p (ms_put q m s) = (if p = q then Some (mf_data m) else mem_data p s)"
  "p \<noteq> q \<Longrightarrow> mem_data p (ms_del q s) = mem_data p s"
  "mem_data p (ms_move fd pos s) = mem_data p s" "mem_data p (snd (ms_fd q s)) = mem_data p s"
  by (simp_all add: mem_data_def)

interpretation mem_posix: posix_files mem_lib beyond mem_left mem_readable mem_data mem_ok
proof
  fix r :: file_reader and f f' :: mem_fs and n d p q k v a b :: string and fd :: int and w :: file_writer and bs :: bytes
    and res :: bool and m :: nat
  show "mem_readable r f \<Longrightarrow> mem_left r f \<noteq> [] \<Longrightarrow> 0 < m \<Longrightarrow> \<exists>b r' f'. ir_chunk (file_reader_ops (fl_sys mem_lib) beyond) m r f = (Some b, r', f')
      \<and> b \<noteq> [] \<and> mem_left r f = b @ mem_left r' f' \<and> mem_readable r' f'"
    using mem_file_source.piece by (simp add: mem_lib_def)
  show "mem_readable r f \<Longrightarrow> mem_left r f = [] \<Longrightarrow> \<exists>r' f'. ir_chunk (file_reader_ops (fl_sys mem_lib) beyond) m r f = (None, r', f')"
    using mem_file_source.exhausted by (simp add: mem_lib_def)
  show "dir_laws mem_lib" by (rule dir_laws_mem_lib)
  show "n \<in> set (fl_list mem_lib d f) \<longleftrightarrow> plain_name n \<and> mem_data (in_dir d n) f \<noteq> None"
    by (simp add: mem_lib_def set_mem_list mem_data_def)
  show "mem_data q (fl_create_directories mem_lib d f) = mem_data q f" by (simp add: mem_lib_def)
  show "fd \<noteq> -1 \<and> mem_ok \<lparr>fw_fd = fd, fw_filename = in_dir d n\<rparr> f' \<and> mem_data (in_dir d n) f' = Some []
        \<and> (\<forall>q. q \<noteq> in_dir d n \<longrightarrow> mem_data q f' = mem_data q f)"
    if "sy_open_write (fl_sys mem_lib) (in_dir d n) (fl_create_directories mem_lib d f) = (fd, f')" "mem_data (in_dir d n) f = None"
  proof -
    let ?g = "ms_put (in_dir d n) \<lparr>mf_data = [], mf_time = ms_now f, mf_attr = []\<rparr> f"
    have "fd = int (length (ms_open f))" "f' = snd (ms_fd (in_dir d n) ?g)"
      using that by (auto simp: mem_lib_def mem_sys_def mem_data_def ms_fd_def split: if_splits)
    then show ?thesis
      by (simp add: mem_ok_def mem_content_def) (simp add: ms_at_def ms_fd_def)
  qed
  show "mem_ok w (sy_write (fl_sys mem_lib) (fw_fd w) bs f)
      \<and> mem_data (fw_filename w) (sy_write (fl_sys mem_lib) (fw_fd w) bs f) = Some (the (mem_data (fw_filename w) f) @ bs)
      \<and> (\<forall>q. q \<noteq> fw_filename w \<longrightarrow> mem_data q (sy_write (fl_sys mem_lib) (fw_fd w) bs f) = mem_data q f)"
    if ok: "mem_ok w f"
  proof -
    have "sy_write (fl_sys mem_lib) (fw_fd w) bs f = ms_move (fw_fd w) (length (mem_content w f) + length bs)
        (ms_put (fw_filename w) ((ms_file (fw_filename w) f)\<lparr>mf_data := mem_content w f @ bs, mf_time := ms_now f\<rparr>) f)"
      using ok by (auto simp: mem_lib_def mem_sys_def mem_ok_def mem_content_def Let_def)
    with ok show ?thesis by (simp add: mem_ok_def mem_content_def mem_data_def ms_at_move)
  qed
  show "mem_ok w f' \<and> (\<forall>q. mem_data q f' = mem_data q f)"
    if ok: "mem_ok w f" and "sy_attr_set (fl_sys mem_lib) (fw_fd w) k v f = (res, f')"
  proof -
    have "f' = ms_put (fw_filename w) ((ms_file (fw_filename w) f)\<lparr>mf_attr := AList.update k v (mf_attr (ms_file (fw_filename w) f))\<rparr>) f"
      using that by (auto simp: mem_lib_def mem_sys_def mem_ok_def Let_def)
    with ok show ?thesis by (simp add: mem_ok_def mem_content_def mem_data_def)
  qed
  show "mem_data q (sy_close (fl_sys mem_lib) fd f) = mem_data q f" by (simp add: mem_lib_def mem_sys_def)
  show "fd \<noteq> -1 \<and> mem_readable \<lparr>fr_fd = fd\<rparr> f' \<and> mem_left \<lparr>fr_fd = fd\<rparr> f' = bs \<and> (\<forall>q. mem_data q f' = mem_data q f)
      \<and> (\<forall>w. mem_ok w f \<longrightarrow> mem_ok w f')"
    if "sy_open_read (fl_sys mem_lib) p f = (fd, f')" "mem_data p f = Some bs"
  proof -
    have e: "fd = int (length (ms_open f))" "f' = snd (ms_fd p f)" "mf_data (ms_file p f) = bs"
      using that by (auto simp: mem_lib_def mem_sys_def mem_data_def ms_fd_def split: if_splits)
    have "ms_at fd f' = (p, 0)" using e by (simp add: ms_at_def ms_fd_def)
    then show ?thesis using e
      by (auto simp: mem_readable_def mem_left_def mem_ok_def mem_content_def ms_at_fd)
  qed
  show "mem_ok w f \<Longrightarrow> mem_data (fw_filename w) f \<noteq> None" by (simp add: mem_ok_def mem_data_def)
  show "\<exists>f'. fl_rename mem_lib (in_dir d a) (in_dir d b) f = (True, f') \<and> mem_data (in_dir d b) f' = mem_data (in_dir d a) f
      \<and> (\<forall>q. q \<noteq> in_dir d a \<longrightarrow> q \<noteq> in_dir d b \<longrightarrow> mem_data q f' = mem_data q f)"
    if "a \<noteq> b" "mem_data (in_dir d a) f \<noteq> None"
    using that by (auto simp: mem_lib_def mem_data_def split: if_splits)
  show "q \<noteq> p \<Longrightarrow> mem_data q (snd (fl_remove mem_lib p f)) = mem_data q f" by (simp add: mem_lib_def)
qed

text \<open>A file system beside something else that is written to, here the connection of a user.\<close>

definition beside :: "('f \<Rightarrow> 'r \<times> 'f) \<Rightarrow> 'f \<times> 'o \<Rightarrow> 'r \<times> 'f \<times> 'o" where
  "beside act s = (let (r, f) = act (fst s) in (r, f, snd s))"

definition with_output_sys :: "'f sys_ops \<Rightarrow> ('f \<times> 'o) sys_ops" where
  "with_output_sys sy =
     \<lparr>sy_open_write = \<lambda>p. beside (sy_open_write sy p), sy_open_read = \<lambda>p. beside (sy_open_read sy p),
      sy_close = \<lambda>fd s. (sy_close sy fd (fst s), snd s), sy_position = \<lambda>fd s. sy_position sy fd (fst s),
      sy_seek = \<lambda>fd pos. beside (sy_seek sy fd pos), sy_write = \<lambda>fd b s. (sy_write sy fd b (fst s), snd s),
      sy_read = \<lambda>fd n. beside (sy_read sy fd n), sy_fstat_size = \<lambda>fd s. sy_fstat_size sy fd (fst s),
      sy_attr_set = \<lambda>fd k v. beside (sy_attr_set sy fd k v), sy_attr_get = \<lambda>fd k s. sy_attr_get sy fd k (fst s),
      sy_link = \<lambda>a b. beside (sy_link sy a b), sy_remove = \<lambda>p s. (sy_remove sy p (fst s), snd s)\<rparr>"

definition with_output :: "'f file_lib \<Rightarrow> ('f \<times> 'o) file_lib" where
  "with_output fl =
     \<lparr>fl_sys = with_output_sys (fl_sys fl), fl_list = \<lambda>d s. fl_list fl d (fst s),
      fl_create_directories = \<lambda>d s. (fl_create_directories fl d (fst s), snd s),
      fl_remove_all = \<lambda>d s. (fl_remove_all fl d (fst s), snd s), fl_rename = \<lambda>a b. beside (fl_rename fl a b),
      fl_size = \<lambda>p s. fl_size fl p (fst s), fl_remove = \<lambda>p. beside (fl_remove fl p),
      fl_exists = \<lambda>p s. fl_exists fl p (fst s), fl_modified_time = \<lambda>p s. fl_modified_time fl p (fst s),
      fl_set_modified_time = \<lambda>p t. beside (fl_set_modified_time fl p t), fl_append = fl_append fl,
      fl_parent = fl_parent fl, fl_filename = fl_filename fl, fl_walk = \<lambda>d s. fl_walk fl d (fst s),
      fl_entries = \<lambda>d s. fl_entries fl d (fst s)\<rparr>"

lemma beside_simps [simp]:
  "fst (beside act s) = fst (act (fst s))" "snd (beside act s) = (snd (act (fst s)), snd s)"
  "beside act s = (r, s') \<longleftrightarrow> act (fst s) = (r, fst s') \<and> snd s' = snd s"
  by (auto simp: beside_def case_prod_beta prod_eq_iff)

lemma chunk_with_output:
  "ir_chunk (file_reader_ops (fl_sys (with_output fl)) beyond) n r s
     = (let (b, r, f) = ir_chunk (file_reader_ops (fl_sys fl) beyond) n r (fst s) in (b, r, f, snd s))"
  by (auto simp: file_reader_ops_def fr_chunk_def with_output_def with_output_sys_def beside_def Let_def case_prod_beta
      split: option.splits)

lemma with_output_ops [simp]:
  "fl_list (with_output fl) d s = fl_list fl d (fst s)" "fl_rename (with_output fl) a b = beside (fl_rename fl a b)"
  "fl_remove (with_output fl) p = beside (fl_remove fl p)" "fl_size (with_output fl) p s = fl_size fl p (fst s)"
  "fst (fl_create_directories (with_output fl) d s) = fl_create_directories fl d (fst s)"
  "sy_open_write (fl_sys (with_output fl)) p = beside (sy_open_write (fl_sys fl) p)"
  "sy_open_read (fl_sys (with_output fl)) p = beside (sy_open_read (fl_sys fl) p)"
  "fst (sy_close (fl_sys (with_output fl)) fd s) = sy_close (fl_sys fl) fd (fst s)"
  "fst (sy_write (fl_sys (with_output fl)) fd buf s) = sy_write (fl_sys fl) fd buf (fst s)"
  "sy_attr_set (fl_sys (with_output fl)) fd k v = beside (sy_attr_set (fl_sys fl) fd k v)"
  by (simp_all add: with_output_def with_output_sys_def)

lemma dir_laws_with_output:
  assumes "dir_laws fl"
  shows "dir_laws (with_output fl :: ('f \<times> 'o) file_lib)"
  unfolding dir_laws_def
proof (intro conjI allI)
  fix d a b :: string and s s' :: "'f \<times> 'o"
  show "distinct (fl_list (with_output fl) d s)" "\<forall>n \<in> set (fl_list (with_output fl) d s). plain_name n"
    using dir_laws_list [OF assms] by simp_all
  show "plain_name a \<and> plain_name b \<and> a \<noteq> b \<and> fl_rename (with_output fl) (in_dir d a) (in_dir d b) s = (True, s')
    \<longrightarrow> set (fl_list (with_output fl) d s') = insert b (set (fl_list (with_output fl) d s) - {a})
      \<and> fl_size (with_output fl) (in_dir d b) s' = fl_size (with_output fl) (in_dir d a) s
      \<and> (\<forall>n. plain_name n \<and> n \<noteq> a \<and> n \<noteq> b
          \<longrightarrow> fl_size (with_output fl) (in_dir d n) s' = fl_size (with_output fl) (in_dir d n) s)"
    unfolding with_output_ops beside_simps using dir_laws_rename [OF assms, of a b d "fst s" "fst s'"] by blast
  show "plain_name a \<longrightarrow> set (fl_list (with_output fl) d (snd (fl_remove (with_output fl) (in_dir d a) s)))
        = set (fl_list (with_output fl) d s) - {a}
      \<and> (\<forall>n. plain_name n \<and> n \<noteq> a \<longrightarrow> fl_size (with_output fl) (in_dir d n) (snd (fl_remove (with_output fl) (in_dir d a) s))
            = fl_size (with_output fl) (in_dir d n) s)"
    using dir_laws_remove [OF assms] by simp
qed

lemma posix_with_output:
  assumes "posix_files fl beyond left rok data wok"
  shows "posix_files (with_output fl :: ('f \<times> 'o) file_lib) beyond (\<lambda>r s. left r (fst s)) (\<lambda>r s. rok r (fst s))
     (\<lambda>p s. data p (fst s)) (\<lambda>w s. wok w (fst s))"
proof
  have src: "byte_source (file_reader_ops (fl_sys fl) beyond) left rok"
    using assms by (simp add: posix_files_def)
  fix r :: file_reader and f f' :: "'f \<times> 'o" and n d p q k v a b :: string and fd :: int and w :: file_writer and bs :: bytes
    and res :: bool and m :: nat
  show "rok r (fst f) \<Longrightarrow> left r (fst f) \<noteq> [] \<Longrightarrow> 0 < m \<Longrightarrow> \<exists>b r' f'. ir_chunk (file_reader_ops (fl_sys (with_output fl)) beyond) m r f = (Some b, r', f')
      \<and> b \<noteq> [] \<and> left r (fst f) = b @ left r' (fst f') \<and> rok r' (fst f')"
    using byte_source.piece [OF src, of r "fst f" m] by (auto simp: chunk_with_output)
  show "rok r (fst f) \<Longrightarrow> left r (fst f) = [] \<Longrightarrow> \<exists>r' f'. ir_chunk (file_reader_ops (fl_sys (with_output fl)) beyond) m r f = (None, r', f')"
    using byte_source.exhausted [OF src, of r "fst f" m] by (auto simp: chunk_with_output)
  show "dir_laws (with_output fl)" by (rule dir_laws_with_output [OF posix_files.directories [OF assms]])
  show "n \<in> set (fl_list (with_output fl) d f) \<longleftrightarrow> plain_name n \<and> data (in_dir d n) (fst f) \<noteq> None"
    by (simp add: with_output_def posix_files.listed [OF assms])
  show "data q (fst (fl_create_directories (with_output fl) d f)) = data q (fst f)"
    by (simp add: posix_files.create_directories [OF assms])
  show "fd \<noteq> -1 \<and> wok \<lparr>fw_fd = fd, fw_filename = in_dir d n\<rparr> (fst f') \<and> data (in_dir d n) (fst f') = Some []
        \<and> (\<forall>q. q \<noteq> in_dir d n \<longrightarrow> data q (fst f') = data q (fst f))"
    if "sy_open_write (fl_sys (with_output fl)) (in_dir d n) (fl_create_directories (with_output fl) d f) = (fd, f')"
      "data (in_dir d n) (fst f) = None"
    using that posix_files.create [OF assms, of d n "fst f" fd "fst f'"] by simp
  show "wok w (fst f) \<Longrightarrow> wok w (fst (sy_write (fl_sys (with_output fl)) (fw_fd w) bs f))
      \<and> data (fw_filename w) (fst (sy_write (fl_sys (with_output fl)) (fw_fd w) bs f)) = Some (the (data (fw_filename w) (fst f)) @ bs)
      \<and> (\<forall>q. q \<noteq> fw_filename w \<longrightarrow> data q (fst (sy_write (fl_sys (with_output fl)) (fw_fd w) bs f)) = data q (fst f))"
    using posix_files.writes [OF assms, of w "fst f" bs] by simp
  show "wok w (fst f) \<Longrightarrow> sy_attr_set (fl_sys (with_output fl)) (fw_fd w) k v f = (res, f')
      \<Longrightarrow> wok w (fst f') \<and> (\<forall>q. data q (fst f') = data q (fst f))"
    using posix_files.attributes [OF assms, of w "fst f" k v res "fst f'"] by simp
  show "data q (fst (sy_close (fl_sys (with_output fl)) fd f)) = data q (fst f)"
    by (simp add: posix_files.closes [OF assms])
  show "fd \<noteq> -1 \<and> rok \<lparr>fr_fd = fd\<rparr> (fst f') \<and> left \<lparr>fr_fd = fd\<rparr> (fst f') = bs
      \<and> (\<forall>q. data q (fst f') = data q (fst f)) \<and> (\<forall>w. wok w (fst f) \<longrightarrow> wok w (fst f'))"
    if "sy_open_read (fl_sys (with_output fl)) p f = (fd, f')" "data p (fst f) = Some bs"
    using that posix_files.opens [OF assms, of p "fst f" fd "fst f'" bs] by simp
  show "wok w (fst f) \<Longrightarrow> data (fw_filename w) (fst f) \<noteq> None" by (rule posix_files.there [OF assms])
  show "\<exists>f'. fl_rename (with_output fl) (in_dir d a) (in_dir d b) f = (True, f')
      \<and> data (in_dir d b) (fst f') = data (in_dir d a) (fst f)
      \<and> (\<forall>q. q \<noteq> in_dir d a \<longrightarrow> q \<noteq> in_dir d b \<longrightarrow> data q (fst f') = data q (fst f))"
    if pre: "plain_name a" "plain_name b" "a \<noteq> b" "data (in_dir d a) (fst f) \<noteq> None"
  proof -
    obtain g where g: "fl_rename fl (in_dir d a) (in_dir d b) (fst f) = (True, g)"
        "data (in_dir d b) g = data (in_dir d a) (fst f)"
        "\<forall>q. q \<noteq> in_dir d a \<longrightarrow> q \<noteq> in_dir d b \<longrightarrow> data q g = data q (fst f)"
      using posix_files.renames [OF assms pre] by blast
    then show ?thesis by (intro exI [of _ "(g, snd f)"]) simp
  qed
  show "q \<noteq> p \<Longrightarrow> data q (fst (snd (fl_remove (with_output fl) p f))) = data q (fst f)"
    by (simp add: posix_files.removes [OF assms])
qed

text \<open>Commands over the versioned store in memory, beside what the connection of a user has received.\<close>

definition out_env :: "(mem_fs \<times> bytes) store_env" where
  "out_env = \<lparr>se_files = with_output mem_lib, se_vl = ref_lib, se_hash = plain_env,
     se_wall = \<lparr>wc_frozen = 0, wc_system = 2000000\<rparr>, se_me = ''me'', se_order = id, se_join = concat, se_home = ''/h''\<rparr>"

definition out_cmd_env :: "(file_writer, file_reader, mem_fs \<times> bytes) cmd_env" where
  "out_cmd_env = \<lparr>ce_hash = plain_env, ce_vl = ref_lib, ce_wall = se_wall out_env,
     ce_ro = file_reader_ops (fl_sys (with_output mem_lib)) [], ce_wo = file_writer_ops (fl_sys (with_output mem_lib)),
     ce_write = (\<lambda>name version copies offset. fs_write out_env name version copies), ce_read = fs_read out_env,
     ce_local = None, ce_mirror = None, ce_status0 = 0, ce_behind = (\<lambda>_. CHR ''x'')\<rparr>"

definition to_user :: "(mem_fs \<times> bytes) byte_stream" where
  "to_user = \<lparr>by_max = (\<lambda>_. 1400), by_write = (\<lambda>b s. (int (length b), fst s, snd s @ b))\<rparr>"

lemma takes_all_to_user:
  "takes_all (file_reader_ops (fl_sys (with_output mem_lib)) beyond) (\<lambda>r s. mem_left r (fst s)) (\<lambda>r s. mem_readable r (fst s))
     to_user snd"
  by (simp add: takes_all_def to_user_def chunk_with_output case_prod_beta)

section \<open>Property\<close>

text \<open>
  C1. What is written is read: a user writes an entry under a version that is not stored yet, in any
  buffers of at most 65536 bytes, over a store whose versions of that name do not succeed the new one. Then every
  step of the write command reports success, the last one status 200, the store holds for the name the new version and
  those of the old ones that it does not succeed, and a read command for that version sends the user the whole
  entry and ends with status 200. This spans the write command, the streams, the store with the renaming of the
  temporary file and the clearing of obsolete versions, and the read command.
\<close>

theorem written_entry_is_read_back:
  assumes "posix_files (se_files e) beyond left rok data wok" "over_store ce e beyond" "leaves_files data wok (ce_local ce)"
    "compare_dual (se_vl e)" "traverses (se_order e)"
    "canonical (se_vl e) m" "version_name m" "version_of (se_vl e) m \<noteq> []" "\<not> older (se_vl e) m m"
    "\<forall>s \<in> set (fs_versions e (wr_name req) False f). canonical (se_vl e) s \<and> \<not> older (se_vl e) m s"
    "\<not> fs_exists e (wr_name req) m f" "\<not> isExpired (se_wall e) EXPIRY_TIMEOUT_SECONDS (version_of (se_vl e) m)"
    "wr_name req \<noteq> []" "wr_version req = m" "\<forall>d \<in> set bs. d \<noteq> [] \<and> length d \<le> 0x10000"
    "takes_all (ce_ro ce) left rok out sent" "\<forall>p f. sent (snd (sy_open_read (fl_sys (se_files e)) p f)) = sent f"
  shows "\<exists>cmd f1 f2. run_buffers ce ([] # bs @ [[]]) (api_write ce req) f = Inr (True, cmd, f1) \<and> wm_status cmd = 200
     \<and> set (fs_versions e (wr_name req) False f1)
         = {s \<in> insert m (set (fs_versions e (wr_name req) False f)). \<not> older (se_vl e) s m}
     \<and> ReadCommand_run ce (Some out) \<lparr>nr_name = wr_name req, nr_version = m\<rparr> status f1 = Some (Inr (True, 200, f2))
     \<and> sent f2 = sent f1 @ concat bs"
proof -
  obtain cmd f1 where w: "run_buffers ce ([] # bs @ [[]]) (api_write ce req) f = Inr (True, cmd, f1)" "wm_status cmd = 200"
      "data (filepath e (wr_name req) m) f1 = Some (concat bs)"
      "set (fs_versions e (wr_name req) False f1) = {s \<in> insert m (set (fs_versions e (wr_name req) False f)). \<not> older (se_vl e) s m}"
    using posix_files.write_is_stored [OF assms(1,2) refl assms(4-7,9,10,8,11,12) _ assms(13-15), of WhenLocalWriteFinishes] assms(3)
    by (auto simp: api_write_def hook_of_def)
  have "ce_ro ce = file_reader_ops (fl_sys (se_files e)) beyond" using assms(2) by (simp add: over_store_def)
  from posix_files.stored_is_read [OF assms(1,2) refl assms(6,8) w(3) assms(16) [unfolded this] assms(17), of status]
  show ?thesis using w(1,2,4) by blast
qed

theorem written_entry_is_read_back_witness:
  "\<exists>cmd f1 f2. run_buffers out_cmd_env ([] # [''hello'', '' world''] @ [[]])
       (api_write out_cmd_env (Write\<lparr>wr_name := ''k'', wr_version := name_of ''a'' 2\<rparr>)) (no_files, ''> '') = Inr (True, cmd, f1)
     \<and> wm_status cmd = 200
     \<and> set (fs_versions out_env ''k'' False f1)
         = {s \<in> insert (name_of ''a'' 2) (set (fs_versions out_env ''k'' False (no_files, ''> ''))). \<not> older (se_vl out_env) s (name_of ''a'' 2)}
     \<and> ReadCommand_run out_cmd_env (Some to_user) \<lparr>nr_name = ''k'', nr_version = name_of ''a'' 2\<rparr> 0 f1 = Some (Inr (True, 200, f2))
     \<and> snd f2 = snd f1 @ concat [''hello'', '' world'']"
proof -
  let ?req = "Write\<lparr>wr_name := ''k'', wr_version := name_of ''a'' 2\<rparr>"
  have posix: "posix_files (se_files out_env) [] (\<lambda>r s. mem_left r (fst s)) (\<lambda>r s. mem_readable r (fst s))
      (\<lambda>p s. mem_data p (fst s)) (\<lambda>w s. mem_ok w (fst s))"
    using posix_with_output [OF mem_posix.posix_files_axioms] by (simp add: out_env_def)
  have none: "fs_versions out_env ''k'' b (no_files, ''> '') = []" for b
    by (simp add: fs_versions_def out_env_def mem_lib_def mem_list_def mem_below_def no_files_def)
  have env: "over_store out_cmd_env out_env []" "se_vl out_env = ref_lib" "se_order out_env = id" "ce_local out_cmd_env = None"
    "ce_ro out_cmd_env = file_reader_ops (fl_sys (with_output mem_lib)) []" "se_files out_env = with_output mem_lib"
    by (simp_all add: over_store_def out_cmd_env_def out_env_def)
  note name = name_of_clock [of "''a''" 2] version_name_name_of [of "''a''" 2] older_name_of [of "''a''" "''a''" 2 2]
  have new: "canonical ref_lib (name_of ''a'' 2)" "version_name (name_of ''a'' 2)" "version_of ref_lib (name_of ''a'' 2) \<noteq> []"
    "\<not> older ref_lib (name_of ''a'' 2) (name_of ''a'' 2)"
    "\<not> isExpired w EXPIRY_TIMEOUT_SECONDS (version_of ref_lib (name_of ''a'' 2))" for w
    using name by (simp_all add: is_space_def isExpired_def isDeleted_def)
  have req: "wr_name ?req = ''k''" "wr_version ?req = name_of ''a'' 2" by simp_all
  show ?thesis
    using written_entry_is_read_back [OF posix env(1), where m = "name_of ''a'' 2" and req = ?req and f = "(no_files, ''> '')"
        and bs = "[''hello'', '' world'']" and out = to_user and sent = snd and status = 0]
      env new none takes_all_to_user req
    by (simp add: leaves_files_def compare_dual_ref_lib traverses_id fs_exists_def)
qed

end
