(* ===== verification/Writer.thy ===== *)
theory Writer
  imports Wire "HOL-Library.AList"
begin

text \<open>
  The sending side of a peer connection: \<^verbatim>\<open>peer_server/BufferedConnectionWriter\<close> (cuts data
  into frames, buffers them up to one packet, sends the packet), the
  \<^verbatim>\<open>MultiplexedSocketWriter\<close> that tags the data with a virtual id, the
  \<^verbatim>\<open>ConnectionWriteStream\<close> that commands write to, and the \<^verbatim>\<open>MultiplexedSocketPool\<close>.
  The socket is a parameter: the template argument \<^verbatim>\<open>Socket\<close> and its operations.
\<close>

section \<open>BufferedConnectionWriter\<close>

record 's socket_ops =
  sk_send :: "bytes \<Rightarrow> 's \<Rightarrow> int \<times> 's"
  sk_try_send :: "bytes \<Rightarrow> 's \<Rightarrow> int \<times> 's"
  sk_close :: "'s \<Rightarrow> bool \<times> 's"
  sk_target :: "'s \<Rightarrow> string"
  sk_handle :: "'s \<Rightarrow> int"

text \<open>
  A blocking flush gives up \<^verbatim>\<open>_buffMutex\<close> while it sends, so other threads may put bytes into
  the emptied buffer in the meantime. \<open>cw_others\<close> lists what they leave there, one entry for
  each such window; it is empty when nobody else writes.
\<close>

record 's conn_writer =
  cw_buffer :: bytes
  cw_capacity :: nat
  cw_sock :: 's
  cw_others :: "bytes list"

definition conn_writer_new :: "'s \<Rightarrow> u32 \<Rightarrow> 's conn_writer" where
  "conn_writer_new sock packetsize =
     \<lparr>cw_buffer = [], cw_capacity = unat (packetsize - 3), cw_sock = sock, cw_others = []\<rparr>"

definition push_frame :: "u8 \<Rightarrow> bytes \<Rightarrow> bytes" where
  "push_frame virtid buff = be16 (of_nat (length buff) + 1) @ [byte_of virtid] @ buff"

definition pushBytes :: "u8 \<Rightarrow> bytes \<Rightarrow> 's conn_writer \<Rightarrow> 's conn_writer" where
  "pushBytes virtid buff cw = cw\<lparr>cw_buffer := cw_buffer cw @ push_frame virtid buff\<rparr>"

definition byte_at :: "bytes \<Rightarrow> nat \<Rightarrow> char" where
  "byte_at s i = (if i < length s then s ! i else char_of (0::nat))"

function findFirstTruncatedPacket :: "bytes \<Rightarrow> nat \<Rightarrow> nat \<Rightarrow> nat" where
  "findFirstTruncatedPacket buff sz i =
     (if i < sz then
        let packetLen = unat (ntoh16 (byte_at buff i) (byte_at buff (i + 1))) in
          if packetLen + i + 2 > sz then i
          else findFirstTruncatedPacket buff sz (i + (2 + packetLen))
      else sz)"
  by pat_completeness auto
termination
  by (relation "measure (\<lambda>(buff, sz, i). sz - i)") auto

declare findFirstTruncatedPacket.simps [simp del]

definition flush_internal :: "'s socket_ops \<Rightarrow> bool \<Rightarrow> 's conn_writer \<Rightarrow> bool \<times> 's conn_writer" where
  "flush_internal ops blocking cw =
     (if blocking then
        let (res, sock') = sk_send ops (cw_buffer cw) (cw_sock cw);
            left = (case cw_others cw of [] \<Rightarrow> [] | o1 # os \<Rightarrow> o1)
        in (res \<noteq> 0, cw\<lparr>cw_buffer := left, cw_others := tl (cw_others cw), cw_sock := sock'\<rparr>)
      else
        let (res, sock') = sk_try_send ops (cw_buffer cw) (cw_sock cw);
            cw1 = cw\<lparr>cw_sock := sock'\<rparr>
        in if res = int (length (cw_buffer cw)) then (True, cw1\<lparr>cw_buffer := []\<rparr>)
           else if res > 0 then
             (False, cw1\<lparr>cw_buffer := drop (findFirstTruncatedPacket (cw_buffer cw) (nat res) 0)
                                         (cw_buffer cw)\<rparr>)
           else (False, cw1))"

text \<open>
  One round of the loop of \<^verbatim>\<open>write\<close>, up to the advance of the pointer: whether the writer is
  still good, and by how much the data advances. The loop is entered with \<^verbatim>\<open>good\<close> true and
  returns what remains.
\<close>

definition write_round :: "'s socket_ops \<Rightarrow> u8 \<Rightarrow> bool \<Rightarrow> bytes \<Rightarrow> nat \<Rightarrow> 's conn_writer
    \<Rightarrow> bool \<times> nat \<times> 's conn_writer" where
  "write_round ops virtid blocking buff remaining cw =
     (let maxBufferSize = cw_capacity cw;
          packetSize = length (cw_buffer cw) + remaining
      in if packetSize \<ge> maxBufferSize then
           (if length (cw_buffer cw) < maxBufferSize then
              let packetSize' = maxBufferSize - length (cw_buffer cw);
                  (good, cw1) = flush_internal ops blocking
                                  (pushBytes virtid (take packetSize' buff) cw)
              in (good, packetSize', cw1)
            else let (good, cw1) = flush_internal ops blocking cw in (good, packetSize, cw1))
         else (True, remaining, pushBytes virtid (take remaining buff) cw))"

lemma write_round_advances:
  "write_round ops virtid blocking buff remaining cw = (good, n, cw1) \<Longrightarrow> 0 < remaining \<Longrightarrow> 0 < n"
  by (auto simp: write_round_def Let_def split: if_splits prod.splits)

function write_loop :: "'s socket_ops \<Rightarrow> u8 \<Rightarrow> bool \<Rightarrow> bytes \<Rightarrow> nat \<Rightarrow> 's conn_writer
    \<Rightarrow> nat \<times> 's conn_writer" where
  "write_loop ops virtid blocking buff remaining cw =
     (case write_round ops virtid blocking buff remaining cw of
        (good, packetSize, cw1) \<Rightarrow>
          let remaining' = remaining - min packetSize remaining
          in if remaining' = 0 then (0, cw1)
             else if good then write_loop ops virtid blocking (drop packetSize buff) remaining' cw1
             else (remaining', cw1))"
  by pat_completeness auto
termination
  by (relation "measure (\<lambda>(ops, virtid, blocking, buff, remaining, cw). remaining)")
    (auto dest!: write_round_advances [OF sym])

declare write_loop.simps [simp del]

definition cw_write :: "'s socket_ops \<Rightarrow> u8 \<Rightarrow> bytes \<Rightarrow> bool \<Rightarrow> 's conn_writer
    \<Rightarrow> nat \<times> 's conn_writer" where
  "cw_write ops virtid buff blocking cw =
     (let (good, cw1) =
        (if length (cw_buffer cw) > 0 \<and> length (cw_buffer cw) + length buff > cw_capacity cw
         then flush_internal ops blocking cw else (True, cw))
      in if good then
           let (remaining, cw2) = write_loop ops virtid blocking buff (length buff) cw1
           in (length buff - remaining, cw2)
         else (0, cw1))"

definition cw_flush :: "'s socket_ops \<Rightarrow> bool \<Rightarrow> 's conn_writer \<Rightarrow> bool \<times> 's conn_writer" where
  "cw_flush ops blocking cw = flush_internal ops blocking cw"

definition cw_close :: "'s socket_ops \<Rightarrow> 's conn_writer \<Rightarrow> bool \<times> 's conn_writer" where
  "cw_close ops cw = (let (r, s) = sk_close ops (cw_sock cw) in (r, cw\<lparr>cw_sock := s\<rparr>))"

definition cw_target :: "'s socket_ops \<Rightarrow> 's conn_writer \<Rightarrow> string" where
  "cw_target ops cw = sk_target ops (cw_sock cw)"

definition cw_handle :: "'s socket_ops \<Rightarrow> 's conn_writer \<Rightarrow> int" where
  "cw_handle ops cw = sk_handle ops (cw_sock cw)"

section \<open>Frames of this writer\<close>

text \<open>The writer's frames are the ones \<^verbatim>\<open>MessagePacker\<close> builds, so the same contract holds.\<close>

lemma push_frame_package: "push_frame i p = package i p"
  by (simp add: push_frame_def package_eq)

interpretation buffered: framing push_frame 65535
  using message.framing_axioms by (simp add: push_frame_package [abs_def])

definition frames_bytes :: "(u8 \<times> bytes) list \<Rightarrow> bytes" where
  "frames_bytes fs = concat (map (\<lambda>(i, p). push_frame i p) fs)"

lemma frames_bytes_simps [simp]:
  "frames_bytes [] = []"
  "frames_bytes ((i, p) # fs) = push_frame i p @ frames_bytes fs"
  "frames_bytes (fs @ gs) = frames_bytes fs @ frames_bytes gs"
  by (simp_all add: frames_bytes_def)

lemma length_push_frame [simp]: "length (push_frame i p) = length p + 3"
  by (simp add: push_frame_package)

text \<open>A buffer in good shape: whole frames, no payload above the capacity.\<close>

definition whole_frames :: "nat \<Rightarrow> bytes \<Rightarrow> bool" where
  "whole_frames m s \<longleftrightarrow> (\<exists>fs. s = frames_bytes fs \<and> (\<forall>(i, p) \<in> set fs. length p \<le> m))"

lemma whole_frames_Nil [simp]: "whole_frames m []"
  by (auto simp: whole_frames_def intro: exI [of _ "[]"])

lemma whole_frames_push:
  assumes "whole_frames m s" "length p \<le> m"
  shows "whole_frames m (s @ push_frame i p)"
proof -
  obtain fs where "s = frames_bytes fs" "\<forall>(i, p) \<in> set fs. length p \<le> m"
    using assms(1) by (auto simp: whole_frames_def)
  then show ?thesis
    using assms(2) unfolding whole_frames_def by (intro exI [of _ "fs @ [(i, p)]"]) auto
qed

text \<open>The truncation search stops at a frame boundary.\<close>

lemma packet_len_at:
  assumes "length p < 65535"
  shows "unat (ntoh16 (byte_at (pre @ push_frame i p @ rest) (length pre))
                      (byte_at (pre @ push_frame i p @ rest) (length pre + 1))) = length p + 1"
proof -
  have "unat (of_nat (length p + 1) :: u16) = length p + 1"
    using assms by (simp only: unat_of_nat) simp
  moreover define w :: u16 where "w = of_nat (length p) + 1"
  ultimately have "unat w = length p + 1" by (simp add: add.commute)
  then show ?thesis
    by (simp add: byte_at_def push_frame_def be16_def nth_append flip: w_def del: of_char_of)
      (metis Suc_eq_plus1 ntoh16_be16_simp)
qed

lemma findFirstTruncatedPacket_boundary:
  assumes "\<forall>(i, p) \<in> set fs. length p < 65535"
    and "length pre \<le> n" "n \<le> length pre + length (frames_bytes fs)"
  shows "\<exists>k. drop (findFirstTruncatedPacket (pre @ frames_bytes fs) n (length pre))
                 (pre @ frames_bytes fs) = frames_bytes (drop k fs)
           \<and> findFirstTruncatedPacket (pre @ frames_bytes fs) n (length pre) \<le> n"
  using assms
proof (induction fs arbitrary: pre)
  case Nil
  then have "n = length pre" by simp
  then show ?case by (simp add: findFirstTruncatedPacket.simps)
next
  case (Cons f fs)
  obtain i p where f: "f = (i, p)" by (cases f)
  let ?b = "pre @ push_frame i p @ frames_bytes fs"
  let ?len = "unat (ntoh16 (byte_at ?b (length pre)) (byte_at ?b (length pre + 1)))"
  have len: "?len = length p + 1" using Cons.prems(1) f by (intro packet_len_at) simp
  consider "n = length pre" | "length pre < n" "n < ?len + length pre + 2"
    | "length pre < n" "?len + length pre + 2 \<le> n" using Cons.prems(2) by linarith
  then show ?case
  proof cases
    case 1
    then show ?thesis
      by (intro exI [of _ 0]) (simp add: findFirstTruncatedPacket.simps [of ?b] f)
  next
    case 2
    then show ?thesis
      by (intro exI [of _ 0]) (simp add: findFirstTruncatedPacket.simps [of ?b] f Let_def)
  next
    case 3
    let ?pre = "pre @ push_frame i p"
    have eq: "findFirstTruncatedPacket ?b n (length pre)
        = findFirstTruncatedPacket (?pre @ frames_bytes fs) n (length ?pre)"
      using 3 len by (subst findFirstTruncatedPacket.simps) (simp add: Let_def algebra_simps numeral_eq_Suc)
    have "\<exists>k. drop (findFirstTruncatedPacket (?pre @ frames_bytes fs) n (length ?pre))
                 (?pre @ frames_bytes fs) = frames_bytes (drop k fs)
           \<and> findFirstTruncatedPacket (?pre @ frames_bytes fs) n (length ?pre) \<le> n"
      using Cons.prems 3 len f by (intro Cons.IH) auto
    then obtain k where "drop (findFirstTruncatedPacket (?pre @ frames_bytes fs) n (length ?pre))
                 (?pre @ frames_bytes fs) = frames_bytes (drop k fs)"
        "findFirstTruncatedPacket (?pre @ frames_bytes fs) n (length ?pre) \<le> n" by blast
    then show ?thesis using eq f by (intro exI [of _ "Suc k"]) simp
  qed
qed

section \<open>Blocking writes deliver everything\<close>

text \<open>
  What a blocking send of a non-empty buffer is documented to do: it returns a non-zero value
  and the bytes have been handed to the connection. \<open>log\<close> reads off what the connection has
  taken so far.
\<close>

definition sends_all :: "'s socket_ops \<Rightarrow> ('s \<Rightarrow> bytes) \<Rightarrow> bool" where
  "sends_all ops log \<longleftrightarrow>
     (\<forall>b s. b \<noteq> [] \<longrightarrow> fst (sk_send ops b s) \<noteq> 0 \<and> log (snd (sk_send ops b s)) = log s @ b)"

lemma sends_allD:
  "sends_all ops log \<Longrightarrow> sk_send ops b s = (n, s') \<Longrightarrow> b \<noteq> [] \<Longrightarrow> n \<noteq> 0 \<and> log s' = log s @ b"
  unfolding sends_all_def by (metis fst_conv snd_conv)

lemma flush_blocking:
  assumes "sends_all ops log" "cw_others cw = []" "cw_buffer cw \<noteq> []"
  shows "\<exists>s'. flush_internal ops True cw = (True, cw\<lparr>cw_buffer := [], cw_sock := s'\<rparr>)
              \<and> log s' = log (cw_sock cw) @ cw_buffer cw"
proof -
  obtain n s' where r: "sk_send ops (cw_buffer cw) (cw_sock cw) = (n, s')" by fastforce
  from sends_allD [OF assms(1) r assms(3)] have "n \<noteq> 0" "log s' = log (cw_sock cw) @ cw_buffer cw"
    by auto
  moreover have "cw\<lparr>cw_buffer := [], cw_others := [], cw_sock := s'\<rparr>
      = cw\<lparr>cw_buffer := [], cw_sock := s'\<rparr>" using assms(2) by (cases cw) simp
  ultimately show ?thesis using r assms(2)
    by (intro exI [of _ s']) (simp add: flush_internal_def)
qed

text \<open>What has gone out or waits in the buffer: the data seen by the connection.\<close>

definition cw_stream :: "('s \<Rightarrow> bytes) \<Rightarrow> 's conn_writer \<Rightarrow> bytes" where
  "cw_stream log cw = log (cw_sock cw) @ cw_buffer cw"

definition chunk_frames :: "u8 \<Rightarrow> bytes list \<Rightarrow> bytes" where
  "chunk_frames i cs = frames_bytes (map (\<lambda>c. (i, c)) cs)"

lemma chunk_frames_simps [simp]:
  "chunk_frames i [] = []"
  "chunk_frames i (c # cs) = push_frame i c @ chunk_frames i cs"
  by (simp_all add: chunk_frames_def)

lemma write_loop_blocking:
  assumes "sends_all ops log" "0 < cw_capacity cw"
    and "cw_others cw = []" "length buff = remaining"
    and "cw_buffer cw = [] \<or> length (cw_buffer cw) + remaining \<le> cw_capacity cw"
    and "\<not> (remaining = 0 \<and> length (cw_buffer cw) = cw_capacity cw)"
  shows "\<exists>cw' cs. write_loop ops i True buff remaining cw = (0, cw')
     \<and> cw_stream log cw' = cw_stream log cw @ chunk_frames i cs \<and> concat cs = buff \<and> cs \<noteq> []
     \<and> (\<forall>c \<in> set cs. length c \<le> cw_capacity cw)"
  using assms
proof (induction remaining arbitrary: buff cw rule: less_induct)
  case (less remaining)
  let ?cap = "cw_capacity cw" and ?b = "cw_buffer cw"
  show ?case
  proof (cases "length ?b + remaining < ?cap")
    case True
    let ?cw' = "pushBytes i buff cw"
    have "write_loop ops i True buff remaining cw = (0, ?cw')"
      using True less.prems(4) by (subst write_loop.simps) (simp add: write_round_def)
    then show ?thesis
      using True less.prems(4)
      by (intro exI [of _ ?cw'] exI [of _ "[buff]"]) (simp add: pushBytes_def cw_stream_def)
  next
    case False
    have lt: "length ?b < ?cap" using False less.prems(2,5,6) by (cases "?b = []") auto
    define ps where "ps = ?cap - length ?b"
    have ps: "0 < ps" "ps \<le> remaining" "ps \<le> ?cap" using lt False by (auto simp: ps_def)
    let ?cw1 = "pushBytes i (take ps buff) cw"
    have ne: "cw_buffer ?cw1 \<noteq> []" by (simp add: pushBytes_def push_frame_def)
    obtain s' where fl: "flush_internal ops True ?cw1 = (True, ?cw1\<lparr>cw_buffer := [], cw_sock := s'\<rparr>)"
        "log s' = log (cw_sock ?cw1) @ cw_buffer ?cw1"
      using flush_blocking [OF less.prems(1) _ ne] less.prems(3) by (auto simp: pushBytes_def)
    let ?cw2 = "?cw1\<lparr>cw_buffer := [], cw_sock := s'\<rparr>"
    have rd: "write_round ops i True buff remaining cw = (True, ps, ?cw2)"
      using False lt fl(1) by (simp add: write_round_def ps_def Let_def)
    have st: "cw_stream log ?cw2 = cw_stream log cw @ push_frame i (take ps buff)"
      using fl(2) by (simp add: cw_stream_def pushBytes_def)
    show ?thesis
    proof (cases "remaining = ps")
      case True
      then have "write_loop ops i True buff remaining cw = (0, ?cw2)"
        using rd by (subst write_loop.simps) simp
      then show ?thesis using st True less.prems(4) ps
        by (intro exI [of _ ?cw2] exI [of _ "[buff]"]) simp
    next
      case False
      with ps have eq: "write_loop ops i True buff remaining cw
          = write_loop ops i True (drop ps buff) (remaining - ps) ?cw2"
        using rd by (subst write_loop.simps) simp
      have "\<exists>cw' cs. write_loop ops i True (drop ps buff) (remaining - ps) ?cw2 = (0, cw')
         \<and> cw_stream log cw' = cw_stream log ?cw2 @ chunk_frames i cs \<and> concat cs = drop ps buff
         \<and> cs \<noteq> [] \<and> (\<forall>c \<in> set cs. length c \<le> cw_capacity ?cw2)"
        using less.prems ps False by (intro less.IH) (auto simp: pushBytes_def)
      then obtain cw' cs where "write_loop ops i True (drop ps buff) (remaining - ps) ?cw2 = (0, cw')"
         "cw_stream log cw' = cw_stream log ?cw2 @ chunk_frames i cs" "concat cs = drop ps buff"
         "\<forall>c \<in> set cs. length c \<le> ?cap" by (auto simp: pushBytes_def)
      then show ?thesis using eq st ps less.prems(4)
        by (intro exI [of _ cw'] exI [of _ "take ps buff # cs"]) simp
    qed
  qed
qed

lemma write_blocking:
  assumes "sends_all ops log" "0 < cw_capacity cw" "cw_others cw = []"
    and "buff \<noteq> [] \<or> length (cw_buffer cw) \<noteq> cw_capacity cw"
  shows "\<exists>cw' cs. cw_write ops i buff True cw = (length buff, cw')
     \<and> cw_stream log cw' = cw_stream log cw @ chunk_frames i cs \<and> concat cs = buff \<and> cs \<noteq> []
     \<and> (\<forall>c \<in> set cs. length c \<le> cw_capacity cw)"
proof (cases "cw_buffer cw \<noteq> [] \<and> length (cw_buffer cw) + length buff > cw_capacity cw")
  case True
  obtain s' where fl: "flush_internal ops True cw = (True, cw\<lparr>cw_buffer := [], cw_sock := s'\<rparr>)"
      "log s' = log (cw_sock cw) @ cw_buffer cw"
    using flush_blocking [OF assms(1,3)] True by blast
  let ?cw1 = "cw\<lparr>cw_buffer := [], cw_sock := s'\<rparr>"
  have st: "cw_stream log ?cw1 = cw_stream log cw" using fl(2) by (simp add: cw_stream_def)
  obtain cw' cs where w: "write_loop ops i True buff (length buff) ?cw1 = (0, cw')"
     "cw_stream log cw' = cw_stream log ?cw1 @ chunk_frames i cs" "concat cs = buff" "cs \<noteq> []"
     "\<forall>c \<in> set cs. length c \<le> cw_capacity cw"
    using write_loop_blocking [OF assms(1), of ?cw1 buff "length buff" i] assms by auto
  then show ?thesis using fl(1) st True by (auto simp: cw_write_def)
next
  case False
  obtain cw' cs where w: "write_loop ops i True buff (length buff) cw = (0, cw')"
     "cw_stream log cw' = cw_stream log cw @ chunk_frames i cs" "concat cs = buff" "cs \<noteq> []"
     "\<forall>c \<in> set cs. length c \<le> cw_capacity cw"
    using write_loop_blocking [OF assms(1,2,3) refl, of buff i] assms(4) False by force
  then show ?thesis using False by (auto simp: cw_write_def)
qed

section \<open>Non-blocking writes keep the buffer well formed\<close>

definition try_bounded :: "'s socket_ops \<Rightarrow> bool" where
  "try_bounded ops \<longleftrightarrow> (\<forall>b s. fst (sk_try_send ops b s) \<le> int (length b))"

definition cw_ok :: "'s conn_writer \<Rightarrow> bool" where
  "cw_ok cw \<longleftrightarrow> whole_frames (cw_capacity cw) (cw_buffer cw)
     \<and> length (cw_buffer cw) \<le> cw_capacity cw + 3"

lemma whole_frames_truncate:
  assumes "whole_frames m s" "m < 65535" "n \<le> length s"
  shows "whole_frames m (drop (findFirstTruncatedPacket s n 0) s)"
proof -
  obtain fs where s: "s = frames_bytes fs" and fs: "\<forall>(i, p) \<in> set fs. length p \<le> m"
    using assms(1) by (auto simp: whole_frames_def)
  have "\<forall>(i, p) \<in> set fs. length p < 65535" using fs assms(2) by auto
  from findFirstTruncatedPacket_boundary [OF this, of "[]" n] assms(3) s
  obtain k where "drop (findFirstTruncatedPacket s n 0) s = frames_bytes (drop k fs)" by auto
  moreover have "\<forall>(i, p) \<in> set (drop k fs). length p \<le> m"
    using fs by (auto dest: in_set_dropD)
  ultimately show ?thesis unfolding whole_frames_def by blast
qed

lemma flush_nonblocking:
  assumes "whole_frames m (cw_buffer cw)" "m < 65535" "try_bounded ops"
    and "flush_internal ops False cw = (good, cw')"
  shows "whole_frames m (cw_buffer cw') \<and> length (cw_buffer cw') \<le> length (cw_buffer cw)
    \<and> cw_capacity cw' = cw_capacity cw"
proof -
  obtain n s' where r: "sk_try_send ops (cw_buffer cw) (cw_sock cw) = (n, s')" by fastforce
  have "n \<le> int (length (cw_buffer cw))"
    using assms(3) r unfolding try_bounded_def by (metis fst_conv)
  then have "whole_frames m (drop (findFirstTruncatedPacket (cw_buffer cw) (nat n) 0) (cw_buffer cw))"
    using assms(1,2) by (intro whole_frames_truncate) auto
  then show ?thesis using assms(1,4) r
    by (auto simp: flush_internal_def Let_def split: if_splits)
qed

lemma write_round_nonblocking:
  assumes "cw_ok cw" "cw_capacity cw < 65535" "try_bounded ops" "length buff = remaining"
    and "write_round ops i False buff remaining cw = (good, n, cw')"
  shows "cw_ok cw' \<and> cw_capacity cw' = cw_capacity cw"
proof (cases "length (cw_buffer cw) + remaining \<ge> cw_capacity cw")
  case False
  then show ?thesis
    using assms by (auto simp: write_round_def cw_ok_def pushBytes_def whole_frames_push)
next
  case True
  let ?ps = "cw_capacity cw - length (cw_buffer cw)"
  define c where "c = (if length (cw_buffer cw) < cw_capacity cw then pushBytes i (take ?ps buff) cw else cw)"
  have c: "whole_frames (cw_capacity cw) (cw_buffer c)" "length (cw_buffer c) \<le> cw_capacity cw + 3"
      "cw_capacity c = cw_capacity cw"
    using assms(1,4) by (auto simp: c_def cw_ok_def pushBytes_def whole_frames_push)
  have "flush_internal ops False c = (good, cw')"
    using True assms(5) by (auto simp: write_round_def c_def Let_def split: if_splits prod.splits)
  from flush_nonblocking [OF c(1) assms(2,3) this] c show ?thesis by (auto simp: cw_ok_def)
qed

lemma write_loop_nonblocking:
  assumes "cw_ok cw" "cw_capacity cw < 65535" "try_bounded ops" "length buff = remaining"
    and "write_loop ops i False buff remaining cw = (left, cw')"
  shows "cw_ok cw' \<and> cw_capacity cw' = cw_capacity cw \<and> left \<le> remaining"
  using assms
proof (induction remaining arbitrary: buff cw rule: less_induct)
  case (less remaining)
  obtain good n cw1 where r: "write_round ops i False buff remaining cw = (good, n, cw1)"
    by (cases "write_round ops i False buff remaining cw") auto
  from write_round_nonblocking [OF less.prems(1-4) r]
  have ok: "cw_ok cw1" "cw_capacity cw1 = cw_capacity cw" by auto
  show ?case
  proof (cases "remaining - min n remaining = 0 \<or> \<not> good")
    case True
    then show ?thesis using less.prems(5) ok r
      by (subst (asm) write_loop.simps) (auto simp: Let_def split: if_splits)
  next
    case False
    then have n: "n < remaining" by auto
    then have "write_loop ops i False (drop n buff) (remaining - n) cw1 = (left, cw')"
      using False less.prems(5) r by (subst (asm) write_loop.simps) simp
    moreover have "0 < n" using write_round_advances [OF r] n by simp
    ultimately have "cw_ok cw' \<and> cw_capacity cw' = cw_capacity cw1 \<and> left \<le> remaining - n"
      using ok less.prems n by (intro less.IH [of "remaining - n" cw1 "drop n buff"]) auto
    then show ?thesis using ok by auto
  qed
qed

section \<open>Multiplexing\<close>

text \<open>
  \<^verbatim>\<open>MultiplexedSocketWriter\<close> shares the buffered writer of its connection and only remembers
  the virtual id; the shared writer is passed along.
\<close>

record mux_writer =
  mx_muxid :: u8

definition mux_new :: mux_writer where
  "mux_new = \<lparr>mx_muxid = 0\<rparr>"

definition mux_try_send :: "'s socket_ops \<Rightarrow> mux_writer \<Rightarrow> bytes \<Rightarrow> 's conn_writer
    \<Rightarrow> nat \<times> 's conn_writer" where
  "mux_try_send ops m buffer cw = cw_write ops (mx_muxid m) buffer False cw"

definition mux_send :: "'s socket_ops \<Rightarrow> mux_writer \<Rightarrow> bytes \<Rightarrow> 's conn_writer
    \<Rightarrow> nat \<times> 's conn_writer" where
  "mux_send ops m buffer cw = cw_write ops (mx_muxid m) buffer True cw"

definition mux_capacity :: "'s conn_writer \<Rightarrow> nat" where
  "mux_capacity cw = cw_capacity cw"

definition mux_flush :: "'s socket_ops \<Rightarrow> bool \<Rightarrow> 's conn_writer \<Rightarrow> bool \<times> 's conn_writer" where
  "mux_flush ops wait cw = cw_flush ops wait cw"

text \<open>Closing one of the writers leaves the connection open for the others; \<open>address\<close> is the constructor of \<^verbatim>\<open>socket_address\<close>.\<close>

definition mux_close :: "'s conn_writer \<Rightarrow> bool \<times> 's conn_writer" where
  "mux_close cw = (True, cw)"

definition mux_target :: "'s socket_ops \<Rightarrow> 's conn_writer \<Rightarrow> string" where
  "mux_target ops cw = cw_target ops cw"

definition mux_endpoint :: "(string \<Rightarrow> nat \<Rightarrow> 'a) \<Rightarrow> 's socket_ops \<Rightarrow> 's conn_writer \<Rightarrow> 'a" where
  "mux_endpoint address ops cw = address (mux_target ops cw) 0"

definition mux_handle :: "'s socket_ops \<Rightarrow> 's conn_writer \<Rightarrow> int" where
  "mux_handle ops cw = cw_handle ops cw"

definition set_muxid :: "u8 \<Rightarrow> mux_writer \<Rightarrow> mux_writer" where
  "set_muxid i m = m\<lparr>mx_muxid := i\<rparr>"

text \<open>\<^verbatim>\<open>ConnectionWriteStream\<close>: full after a non-blocking write that came up short.\<close>

record conn_stream =
  cs_writer :: mux_writer
  cs_blocking :: bool
  cs_full :: bool
  cs_background :: bool

definition conn_stream_new :: "mux_writer \<Rightarrow> bool \<Rightarrow> conn_stream" where
  "conn_stream_new w blocking =
     \<lparr>cs_writer = w, cs_blocking = blocking, cs_full = False, cs_background = False\<rparr>"

definition cs_maxPacketLength :: "'s conn_writer \<Rightarrow> nat" where
  "cs_maxPacketLength cw = mux_capacity cw"

definition cs_write :: "'s socket_ops \<Rightarrow> bytes \<Rightarrow> conn_stream \<Rightarrow> 's conn_writer
    \<Rightarrow> nat \<times> conn_stream \<times> 's conn_writer" where
  "cs_write ops buff cs cw =
     (if cs_blocking cs then
        let (n, cw') = mux_send ops (cs_writer cs) buff cw in (n, cs, cw')
      else
        let (sent, cw') = mux_try_send ops (cs_writer cs) buff cw
        in (sent, cs\<lparr>cs_full := (sent \<noteq> length buff)\<rparr>, cw'))"

definition cs_flush :: "'s socket_ops \<Rightarrow> conn_stream \<Rightarrow> 's conn_writer \<Rightarrow> bool \<times> 's conn_writer" where
  "cs_flush ops cs cw = mux_flush ops (cs_blocking cs) cw"

definition setBackground :: "bool \<Rightarrow> conn_stream \<Rightarrow> conn_stream" where
  "setBackground b cs = cs\<lparr>cs_background := b\<rparr>"

declare mux_try_send_def [wire_simps] mux_send_def [wire_simps] mux_capacity_def [wire_simps] mux_flush_def [wire_simps]
  cw_flush_def [wire_simps] cs_write_def [wire_simps] cs_flush_def [wire_simps] cs_maxPacketLength_def [wire_simps]

section \<open>MultiplexedSocketPool\<close>

text \<open>
  The pool maps the address of a peer to its one shared buffered writer. Writers live in a
  store under references, as the \<^verbatim>\<open>shared_ptr\<close>s do; \<open>'a\<close> is the address type. The concurrent
  map of the code keeps one entry per address (\<^verbatim>\<open>upsert\<close>, \<^verbatim>\<open>find\<close>, \<^verbatim>\<open>erase\<close>, \<^verbatim>\<open>clear\<close>).
\<close>

record ('a, 's) socket_pool =
  sp_connections :: "('a \<times> nat) list"
  sp_store :: "nat \<Rightarrow> 's conn_writer"
  sp_next :: nat

definition pool_insert :: "('s \<Rightarrow> 'a) \<Rightarrow> 's \<Rightarrow> ('a, 's) socket_pool
    \<Rightarrow> (bool \<times> nat \<times> mux_writer) \<times> ('a, 's) socket_pool" where
  "pool_insert endpoint sock p =
     (let r = sp_next p;
          p1 = p\<lparr>sp_store := (sp_store p)(r := conn_writer_new sock 1472), sp_next := Suc r\<rparr>
      in case map_of (sp_connections p) (endpoint sock) of
           Some existing \<Rightarrow> ((False, existing, mux_new), p1)
         | None \<Rightarrow> ((True, r, mux_new),
                    p1\<lparr>sp_connections := AList.update (endpoint sock) r (sp_connections p)\<rparr>))"

definition pool_find :: "'s socket_ops \<Rightarrow> 'a \<Rightarrow> ('a, 's) socket_pool
    \<Rightarrow> (nat \<times> mux_writer) option \<times> ('a, 's) socket_pool" where
  "pool_find ops addr p =
     (case map_of (sp_connections p) addr of
        None \<Rightarrow> (None, p)
      | Some r \<Rightarrow>
          if cw_handle ops (sp_store p r) < 0
          then (None, p\<lparr>sp_connections := AList.delete addr (sp_connections p)\<rparr>)
          else (Some (r, mux_new), p))"

definition pool_close :: "'s socket_ops \<Rightarrow> ('s \<Rightarrow> 'a) \<Rightarrow> 's \<Rightarrow> ('a, 's) socket_pool
    \<Rightarrow> 's \<times> ('a, 's) socket_pool" where
  "pool_close ops endpoint sock p =
     (let (_, sock') = sk_close ops sock
      in (sock', p\<lparr>sp_connections := AList.delete (endpoint sock') (sp_connections p)\<rparr>))"

definition pool_close_all :: "'s socket_ops \<Rightarrow> ('a, 's) socket_pool \<Rightarrow> ('a, 's) socket_pool" where
  "pool_close_all ops p =
     p\<lparr>sp_store := fold (\<lambda>(a, r) st. st(r := snd (cw_close ops (st r)))) (sp_connections p) (sp_store p),
       sp_connections := []\<rparr>"

text \<open>One writer per address: a second insert for an endpoint hands out the first writer.\<close>

lemma pool_insert_again:
  assumes "pool_insert endpoint s1 p = ((n1, r1, w1), p1)" "endpoint s2 = endpoint s1"
  shows "\<exists>w2 p2. pool_insert endpoint s2 p1 = ((False, r1, w2), p2)"
  using assms by (auto simp: pool_insert_def Let_def AList.update_conv'
      split: option.splits)

section \<open>Properties\<close>

text \<open>A connection that takes everything, used as the concrete socket of the witnesses.\<close>

definition log_socket :: "bytes socket_ops" where
  "log_socket = \<lparr>sk_send = (\<lambda>b s. (int (length b), s @ b)),
     sk_try_send = (\<lambda>b s. (int (length b), s @ b)), sk_close = (\<lambda>s. (True, s)),
     sk_target = (\<lambda>s. ''log''), sk_handle = (\<lambda>s. 0)\<rparr>"

lemma sends_all_log_socket: "sends_all log_socket id"
  by (simp add: sends_all_def log_socket_def)

text \<open>
  C21. A blocking write delivers its data. When the stream of a connection (bytes handed to the
  socket, then the buffer) consists of whole frames, a blocking write with no other writer
  around returns the whole length, and the receiver's parsing loop, run over the stream, sees
  the earlier frames followed by frames of the given virtual id whose payloads, none longer
  than the capacity, put together are the data. The one exception is an empty write on a
  buffer that is filled to exactly the capacity.
\<close>

theorem blocking_write_delivers:
  assumes "sends_all ops log" "0 < cw_capacity cw" "cw_capacity cw \<le> 65535" "cw_others cw = []"
    and "buff \<noteq> [] \<or> length (cw_buffer cw) \<noteq> cw_capacity cw"
    and "cw_stream log cw = frames_bytes fs" "\<forall>(i, p) \<in> set fs. length p \<le> 65535"
  shows "\<exists>cw' cs. cw_write ops i buff True cw = (length buff, cw')
     \<and> packets (DataBuffer (cw_stream log cw'))
         = map (\<lambda>(i, p). (i, DataBuffer p)) fs @ map (\<lambda>c. (i, DataBuffer c)) cs
     \<and> concat cs = buff \<and> cs \<noteq> [] \<and> (\<forall>c \<in> set cs. length c \<le> cw_capacity cw)"
proof -
  obtain cw' cs where w: "cw_write ops i buff True cw = (length buff, cw')"
      "cw_stream log cw' = cw_stream log cw @ chunk_frames i cs" "concat cs = buff" "cs \<noteq> []"
      "\<forall>c \<in> set cs. length c \<le> cw_capacity cw"
    using write_blocking [OF assms(1,2,4,5), of i] by blast
  let ?all = "fs @ map (\<lambda>c. (i, c)) cs"
  have ok: "\<forall>(i, p) \<in> set ?all. length p \<le> 65535"
    using assms(3,7) w(5) by auto
  have "cw_stream log cw' = frames_bytes ?all"
    using w(2) assms(6) by (simp add: chunk_frames_def)
  then have "packets (DataBuffer (cw_stream log cw')) = map (\<lambda>(i, p). (i, DataBuffer p)) ?all"
    using buffered.packets_concat [OF ok, of "[]"]
    by (simp add: frames_bytes_def packets.simps [of "DataBuffer []"])
  then show ?thesis using w by (auto simp: comp_def)
qed

theorem blocking_write_delivers_witness:
  "\<exists>cw' cs. cw_write log_socket 7 ''hello'' True (conn_writer_new [] 7) = (5, cw')
     \<and> packets (DataBuffer (cw_stream id cw')) = map (\<lambda>c. (7, DataBuffer c)) cs
     \<and> concat cs = ''hello''"
  using blocking_write_delivers [OF sends_all_log_socket, of "conn_writer_new [] 7" "''hello''" "[]" 7]
  by (auto simp: conn_writer_new_def cw_stream_def)

text \<open>
  The end marker of a transfer can get lost. \<^verbatim>\<open>WriteSupervisor::store\<close> ends a transfer with
  an empty write. On a buffer filled to exactly the capacity that write flushes the buffer and
  returns 0, its full length, but puts no frame on the connection: the stream the receiver
  sees does not change, so the receiving command is never told to commit.
\<close>

theorem end_marker_lost_on_full_buffer:
  assumes "sends_all ops log" "cw_others cw = []" "0 < cw_capacity cw"
    and "length (cw_buffer cw) = cw_capacity cw"
  shows "\<exists>cw'. cw_write ops i [] True cw = (0, cw') \<and> cw_stream log cw' = cw_stream log cw
            \<and> cw_buffer cw' = []"
proof -
  have "cw_buffer cw \<noteq> []" using assms(3,4) by auto
  then obtain s' where "flush_internal ops True cw = (True, cw\<lparr>cw_buffer := [], cw_sock := s'\<rparr>)"
      "log s' = log (cw_sock cw) @ cw_buffer cw"
    using flush_blocking [OF assms(1,2)] by blast
  then show ?thesis using assms(4)
    by (simp add: cw_write_def write_loop.simps write_round_def Let_def cw_stream_def)
qed

theorem end_marker_lost_on_full_buffer_witness:
  "\<exists>cw'. cw_write log_socket 3 [] True
      \<lparr>cw_buffer = push_frame 3 ''data'', cw_capacity = 7, cw_sock = [], cw_others = []\<rparr> = (0, cw')
     \<and> cw_stream id cw' = push_frame 3 ''data'' \<and> cw_buffer cw' = []"
  using end_marker_lost_on_full_buffer [OF sends_all_log_socket,
      of "\<lparr>cw_buffer = push_frame 3 ''data'', cw_capacity = 7, cw_sock = [], cw_others = []\<rparr>" 3]
  by (simp add: cw_stream_def)

text \<open>
  Data can get lost between two threads. During a blocking flush the buffer's mutex is
  released. If other threads have by then refilled the buffer to the capacity or beyond, the
  next round of the loop sends their bytes, pushes nothing of its own and still counts the rest
  of its data as written: the write reports its full length, but only the first packet's worth
  of its data ever enters the stream.
\<close>

theorem concurrent_refill_loses_data:
  assumes "sends_all ops log" "cw_others cw = [other]" "0 < cw_capacity cw"
    and "cw_buffer cw = []" "cw_capacity cw < length buff" "cw_capacity cw \<le> length other"
  shows "\<exists>cw'. cw_write ops i buff True cw = (length buff, cw')
     \<and> cw_stream log cw' = cw_stream log cw @ push_frame i (take (cw_capacity cw) buff) @ other"
proof -
  let ?cap = "cw_capacity cw"
  obtain n1 s1 where s1: "sk_send ops (push_frame i (take ?cap buff)) (cw_sock cw) = (n1, s1)"
    by fastforce
  obtain n2 s2 where s2: "sk_send ops other s1 = (n2, s2)" by fastforce
  have l1: "n1 \<noteq> 0" "log s1 = log (cw_sock cw) @ push_frame i (take ?cap buff)"
    using sends_allD [OF assms(1) s1] by (auto simp: push_frame_def)
  have l2: "n2 \<noteq> 0" "log s2 = log s1 @ other"
    using sends_allD [OF assms(1) s2] assms(3,6) by force+
  let ?cw1 = "cw\<lparr>cw_buffer := other, cw_others := [], cw_sock := s1\<rparr>"
  let ?cw2 = "cw\<lparr>cw_buffer := [], cw_others := [], cw_sock := s2\<rparr>"
  have r1: "write_round ops i True buff (length buff) cw = (True, ?cap, ?cw1)"
    using assms s1 l1(1) by (simp add: write_round_def flush_internal_def pushBytes_def Let_def)
  have r2: "write_round ops i True (drop ?cap buff) (length buff - ?cap) ?cw1
      = (True, length other + (length buff - ?cap), ?cw2)"
    using assms s2 l2(1) by (simp add: write_round_def flush_internal_def Let_def)
  have "write_loop ops i True buff (length buff) cw = (0, ?cw2)"
    using r1 r2 assms(5) by (simp add: write_loop.simps Let_def)
  then show ?thesis
    using assms(4) l1(2) l2(2) by (simp add: cw_write_def cw_stream_def)
qed

theorem concurrent_refill_loses_data_witness:
  "\<exists>cw'. cw_write log_socket 1 ''abcdefgh'' True
      \<lparr>cw_buffer = [], cw_capacity = 4, cw_sock = [], cw_others = [push_frame 2 ''xyzw'']\<rparr> = (8, cw')
     \<and> cw_stream id cw' = push_frame 1 ''abcd'' @ push_frame 2 ''xyzw''"
  using concurrent_refill_loses_data [OF sends_all_log_socket,
      of "\<lparr>cw_buffer = [], cw_capacity = 4, cw_sock = [], cw_others = [push_frame 2 ''xyzw'']\<rparr>"
         "push_frame 2 ''xyzw''" "''abcdefgh''" 1]
  by (simp add: cw_stream_def numeral_eq_Suc)

text \<open>
  C22. Non-blocking writes keep the writer's buffer well formed, whatever the socket does: after
  any write, with full, partial or failed sends, the buffer again holds whole frames only, with
  payloads of at most the capacity, and at most three bytes more than the capacity; and the
  write reports at most the length it was given.
\<close>

theorem nonblocking_write_keeps_frames:
  assumes "cw_ok cw" "cw_capacity cw < 65535" "try_bounded ops"
    and "cw_write ops i buff False cw = (n, cw')"
  shows "cw_ok cw' \<and> n \<le> length buff"
proof (cases "cw_buffer cw \<noteq> [] \<and> length (cw_buffer cw) + length buff > cw_capacity cw")
  case True
  obtain good cw1 where f: "flush_internal ops False cw = (good, cw1)" by fastforce
  have ok1: "cw_ok cw1" "cw_capacity cw1 = cw_capacity cw"
    using flush_nonblocking [OF _ assms(2,3) f] assms(1) by (auto simp: cw_ok_def)
  show ?thesis
  proof (cases good)
    case True
    obtain left cw2 where l: "write_loop ops i False buff (length buff) cw1 = (left, cw2)" by fastforce
    have "cw_ok cw2" using write_loop_nonblocking [OF ok1(1) _ assms(3) refl l] ok1 assms(2) by simp
    then show ?thesis using assms(4) f l True \<open>cw_buffer cw \<noteq> [] \<and> _\<close>
      by (auto simp: cw_write_def)
  next
    case False
    then show ?thesis using assms(4) f ok1 \<open>cw_buffer cw \<noteq> [] \<and> _\<close> by (auto simp: cw_write_def)
  qed
next
  case False
  obtain left cw2 where l: "write_loop ops i False buff (length buff) cw = (left, cw2)" by fastforce
  have "cw_ok cw2" using write_loop_nonblocking [OF assms(1,2,3) refl l] by simp
  then show ?thesis using assms(4) l False by (auto simp: cw_write_def)
qed

theorem nonblocking_write_keeps_frames_witness:
  "cw_ok (snd (cw_write (log_socket\<lparr>sk_try_send := (\<lambda>b s. (min 4 (int (length b)), s @ take 4 b))\<rparr>)
      1 ''abcdefgh'' False (conn_writer_new [] 10)))"
proof -
  let ?ops = "log_socket\<lparr>sk_try_send := (\<lambda>b s. (min 4 (int (length b)), s @ take 4 b))\<rparr>"
  have "cw_ok (conn_writer_new [] 10 :: bytes conn_writer)" "try_bounded ?ops"
    by (simp_all add: cw_ok_def conn_writer_new_def try_bounded_def)
  then show ?thesis
    using nonblocking_write_keeps_frames [of "conn_writer_new [] 10" ?ops 1 "''abcdefgh''"]
    by (simp add: conn_writer_new_def prod_eq_iff)
qed

end
