(* ===== verification/Transfers.thy ===== *)
theory Transfers
  imports Callbacks Writer
begin

text \<open>
  Passing entries on to a peer: \<^verbatim>\<open>peer_client/WriteSupervisor\<close> opens a stream on the connection of a peer and
  copies an entry to it; what a connection does not take at once waits in \<^verbatim>\<open>peer_client/PartialTransfers\<close> until the
  socket is writable again. The locale \<open>seekable_source\<close> adds to the contract of readers what resuming needs.
\<close>

type_synonym i32 = "32 word"

section \<open>PartialTransfers\<close>

text \<open>
  One queue for each handle of a connection; \<open>'fun\<close> are the queued functions and \<open>'x\<close> is the state outside.
\<close>

record ('fun, 'x) transfers =
  pt_transfers :: "int \<rightharpoonup> 'fun list"
  pt_outside :: 'x

text \<open>\<open>wait\<close> is the call \<^verbatim>\<open>waitForWriter\<close> of the socket server.\<close>

definition pt_add :: "(int \<Rightarrow> 'x \<Rightarrow> 'x) \<Rightarrow> int \<Rightarrow> 'fun \<Rightarrow> ('fun, 'x) transfers \<Rightarrow> ('fun, 'x) transfers" where
  "pt_add wait i fn st =
     (let queue = (case pt_transfers st i of None \<Rightarrow> [] | Some queue \<Rightarrow> queue)
      in st\<lparr>pt_transfers := (pt_transfers st)(i \<mapsto> queue @ [fn]), pt_outside := wait i (pt_outside st)\<rparr>)"

definition pt_empty :: "int \<Rightarrow> ('fun, 'x) transfers \<Rightarrow> bool" where
  "pt_empty i st \<longleftrightarrow> (case pt_transfers st i of None \<Rightarrow> True | Some queue \<Rightarrow> queue = [])"

text \<open>
  The loop of \<^verbatim>\<open>run\<close>: true when the queue is empty, false when a function was not done. \<open>call\<close> runs one
  function, which may itself add to the queue or throw; it is None if it does not end, and so is the loop.
\<close>

partial_function (option) pt_loop :: "('fun \<Rightarrow> ('fun, 'x) transfers \<Rightarrow> (bool \<times> ('fun, 'x) transfers) result option) \<Rightarrow> int
    \<Rightarrow> ('fun, 'x) transfers \<Rightarrow> (bool \<times> ('fun, 'x) transfers) result option" where
  "pt_loop call i st =
     (case pt_transfers st i of
        Some (fn # queue) \<Rightarrow>
          Option.bind (call fn (st\<lparr>pt_transfers := (pt_transfers st)(i \<mapsto> queue)\<rparr>)) (\<lambda>r. case r of
              Inl e \<Rightarrow> Some (Inl e)
            | Inr (done', st) \<Rightarrow> if done' then pt_loop call i st else Some (Inr (False, st)))
      | _ \<Rightarrow> Some (Inr (True, st)))"

definition pt_run :: "('fun \<Rightarrow> ('fun, 'x) transfers \<Rightarrow> (bool \<times> ('fun, 'x) transfers) result option) \<Rightarrow> int
    \<Rightarrow> ('fun, 'x) transfers \<Rightarrow> (bool \<times> ('fun, 'x) transfers) result option" where
  "pt_run call i st =
     map_option (\<lambda>r. rbind r (\<lambda>(emptied, st).
        if \<not> emptied then Inr (False, st)
        else (case pt_transfers st i of
                None \<Rightarrow> Inr (True, st)
              | Some queue \<Rightarrow> if queue = [] then Inr (True, st\<lparr>pt_transfers := (pt_transfers st)(i := None)\<rparr>)
                              else Inr (False, st))))
       (pt_loop call i st)"

section \<open>WriteSupervisor\<close>

text \<open>
  The state: the shared writers of the connections and the open streams on them, both by reference, the
  peers with their counters, the calls of \<^verbatim>\<open>waitForWriter\<close> and the files. \<open>te_getWriter\<close> is the socket server's
  answer to an address; \<open>te_read\<close> is the store.
\<close>

record ('s, 'f) supervised =
  sv_writers :: "nat \<Rightarrow> 's conn_writer"
  sv_conns :: "nat \<Rightarrow> nat \<times> conn_stream"
  sv_fresh :: nat
  sv_peers :: "ref \<Rightarrow> peer"
  sv_waits :: "int list"
  sv_files :: 'f

type_synonym ('s, 'f) supervisor_state = "(write_instructions, ('s, 'f) supervised) transfers"

record ('a, 's, 'r, 'f) transfer_env =
  te_mpack :: "request \<Rightarrow> bytes"
  te_addr :: "'a addr_lib"
  te_sock :: "'s socket_ops"
  te_ro :: "('r, 'f) reader_ops"
  te_getWriter :: "'a \<Rightarrow> nat option"
  te_read :: "string \<Rightarrow> string \<Rightarrow> bool \<Rightarrow> 'f \<Rightarrow> ('r readstream \<times> 'f) result"

definition write_header :: "(request \<Rightarrow> bytes) \<Rightarrow> write_instructions \<Rightarrow> bytes" where
  "write_header mpack write = package (of_nat Write_INTERNAL_ID) (mpack (WriteReq (write_req.truncate write)))"

definition WriteSupervisor_open :: "('a, 's, 'r, 'f) transfer_env \<Rightarrow> ref \<Rightarrow> write_instructions \<Rightarrow> bool
    \<Rightarrow> ('s, 'f) supervisor_state \<Rightarrow> nat option \<times> ('s, 'f) supervisor_state" where
  "WriteSupervisor_open te peer write blocking st =
     (let x = pt_outside st
      in case al_fromString (te_addr te) (pr_address (sv_peers x peer)) of
           None \<Rightarrow> (None, st)
         | Some addr \<Rightarrow>
             (case te_getWriter te addr of
                None \<Rightarrow> (None, st)
              | Some w \<Rightarrow>
                  (let (i, p) = nextActionId (sv_peers x peer);
                       (_, conn, cw) = cs_write (te_sock te) (write_header (te_mpack te) write)
                                         (conn_stream_new (set_muxid i mux_new) blocking) (sv_writers x w);
                       r = sv_fresh x
                   in (Some r, st\<lparr>pt_outside := x\<lparr>sv_writers := (sv_writers x)(w := cw), sv_conns := (sv_conns x)(r := (w, conn)),
                                     sv_fresh := Suc r, sv_peers := (sv_peers x)(peer := p)\<rparr>\<rparr>))))"

text \<open>
  The loop that copies: the bytes written so far are a 32 bit integer, as is the result of one write. It is None
  when it does not end.
\<close>

partial_function (option) stream_conn :: "('a, 's, 'r, 'f) transfer_env \<Rightarrow> i32 \<Rightarrow> 'r readstream \<Rightarrow> conn_stream \<Rightarrow> 's conn_writer
    \<Rightarrow> 'f \<Rightarrow> (i32 \<times> 'r readstream \<times> conn_stream \<times> 's conn_writer \<times> 'f) option" where
  "stream_conn te bytesWrit contents conn cw f =
     (let (b, contents, f) = rs_stream (te_ro te) (cs_maxPacketLength cw) contents f;
          (wrote, conn, cw) = (case b of None \<Rightarrow> (0, conn, cw)
                               | Some b \<Rightarrow> (let (n, conn, cw) = cs_write (te_sock te) b conn cw in (of_nat n, conn, cw)))
      in if 0 <s wrote then stream_conn te (bytesWrit + wrote) contents conn cw f
         else Some (bytesWrit, contents, conn, cw, f))"

definition WriteSupervisor_store :: "('a, 's, 'r, 'f) transfer_env \<Rightarrow> nat \<Rightarrow> write_instructions \<Rightarrow> 'r readstream \<Rightarrow> bool
    \<Rightarrow> ('s, 'f) supervisor_state \<Rightarrow> (bool \<times> 'r readstream \<times> ('s, 'f) supervisor_state) option" where
  "WriteSupervisor_store te r write contents background st =
     (let x = pt_outside st; (w, conn) = sv_conns x r; cw = sv_writers x w
      in if cs_background conn \<and> \<not> background then Some (False, contents, st)
         else
           (let (ok, contents, f) = (if 0 < wr_offset write then rs_setPosition (te_ro te) (wr_offset write) contents (sv_files x)
                                     else (True, contents, sv_files x))
            in if \<not> ok then Some (False, contents, st\<lparr>pt_outside := x\<lparr>sv_files := f\<rparr>\<rparr>)
               else map_option (\<lambda>(bytesWrit, contents, conn, cw, f).
                      if cs_full conn then
                        (let rewrite = write\<lparr>wi_isComplete := True, wr_offset := wr_offset write + scast bytesWrit\<rparr>;
                             x = x\<lparr>sv_writers := (sv_writers x)(w := cw), sv_conns := (sv_conns x)(r := (w, setBackground True conn)),
                                   sv_files := f\<rparr>
                         in (False, contents, pt_add (\<lambda>i x. x\<lparr>sv_waits := sv_waits x @ [i]\<rparr>) (cw_handle (te_sock te) cw) rewrite
                                                (st\<lparr>pt_outside := x\<rparr>)))
                      else
                        (let (conn, cw) = (if wi_isComplete write
                                           then let (_, conn, cw) = cs_write (te_sock te) [] conn cw in (conn, snd (cs_flush (te_sock te) conn cw))
                                           else (conn, cw))
                         in (True, contents, st\<lparr>pt_outside := x\<lparr>sv_writers := (sv_writers x)(w := cw), sv_conns := (sv_conns x)(r := (w, conn)),
                                                  sv_files := f\<rparr>\<rparr>)))
                    (stream_conn te 0 contents conn cw f)))"

definition WriteSupervisor_store_peer :: "('a, 's, 'r, 'f) transfer_env \<Rightarrow> ref \<Rightarrow> write_instructions \<Rightarrow> 'r readstream
    \<Rightarrow> ('s, 'f) supervisor_state \<Rightarrow> (bool \<times> 'r readstream \<times> ('s, 'f) supervisor_state) option" where
  "WriteSupervisor_store_peer te peer write contents st =
     (case WriteSupervisor_open te peer write True st of
        (None, st) \<Rightarrow> Some (False, contents, st)
      | (Some r, st) \<Rightarrow> WriteSupervisor_store te r write contents False st)"

text \<open>A write without a stream is None here: the code follows its null pointer.\<close>

definition WriteSupervisor_resume :: "('a, 's, 'r, 'f) transfer_env \<Rightarrow> write_instructions
    \<Rightarrow> ('s, 'f) supervisor_state \<Rightarrow> (bool \<times> ('s, 'f) supervisor_state) result option" where
  "WriteSupervisor_resume te write st =
     (let x = pt_outside st
      in case te_read te (wr_name write) (wr_version write) True (sv_files x) of
           Inl e \<Rightarrow> Some (Inl e)
         | Inr (reader, f) \<Rightarrow>
             (let st = st\<lparr>pt_outside := x\<lparr>sv_files := f\<rparr>\<rparr>
              in if \<not> rs_good (te_ro te) reader then Some (Inr (True, st))
                 else case wi_outstream write of
                        None \<Rightarrow> None
                      | Some r \<Rightarrow> map_option (\<lambda>(res, _, st). Inr (res, st)) (WriteSupervisor_store te r write reader True st)))"

section \<open>What a connection takes\<close>

text \<open>
  A socket of messages: an attempt to send without blocking takes the whole buffer or nothing, as UDP and UDT
  messages do. \<open>log\<close> reads off what the connection has taken.
\<close>

definition tries_whole :: "'s socket_ops \<Rightarrow> ('s \<Rightarrow> bytes) \<Rightarrow> bool" where
  "tries_whole ops log \<longleftrightarrow>
     (\<forall>b s. fst (sk_try_send ops b s) = int (length b) \<and> log (snd (sk_try_send ops b s)) = log s @ b
          \<or> fst (sk_try_send ops b s) \<le> 0 \<and> log (snd (sk_try_send ops b s)) = log s)"

lemma flush_tries:
  assumes "tries_whole ops log" "flush_internal ops False cw = (good, cw')"
  shows "cw_stream log cw' = cw_stream log cw" "cw_capacity cw' = cw_capacity cw" "good \<longrightarrow> cw_buffer cw' = []"
proof -
  obtain n s' where r: "sk_try_send ops (cw_buffer cw) (cw_sock cw) = (n, s')" by fastforce
  have "n = int (length (cw_buffer cw)) \<and> log s' = log (cw_sock cw) @ cw_buffer cw \<or> n \<le> 0 \<and> log s' = log (cw_sock cw)"
    using assms(1) [unfolded tries_whole_def, THEN spec [where x = "cw_buffer cw"], THEN spec [where x = "cw_sock cw"]] r by simp
  then show "cw_stream log cw' = cw_stream log cw" "cw_capacity cw' = cw_capacity cw" "good \<longrightarrow> cw_buffer cw' = []"
    using assms(2) r by (auto simp: flush_internal_def Let_def cw_stream_def split: if_splits)
qed

lemma write_loop_piece:
  assumes "tries_whole ops log" "b \<noteq> []" "length b \<le> cw_capacity c"
    "cw_buffer c = [] \<or> length (cw_buffer c) + length b \<le> cw_capacity c" "write_loop ops i False b (length b) c = (m, c')"
  shows "cw_capacity c' = cw_capacity c \<and> m = 0 \<and> cw_stream log c' = cw_stream log c @ push_frame i b"
proof (cases "length (cw_buffer c) + length b < cw_capacity c")
  case True
  then have "write_round ops i False b (length b) c = (True, length b, pushBytes i b c)" by (simp add: write_round_def)
  then have "write_loop ops i False b (length b) c = (0, pushBytes i b c)" by (subst write_loop.simps) simp
  then show ?thesis using assms(5) by (auto simp: pushBytes_def cw_stream_def)
next
  case False
  have pos: "0 < length b" using assms(2) by simp
  have "length (cw_buffer c) + length b \<le> cw_capacity c" using assms(3,4) by auto
  then have eq: "length (cw_buffer c) + length b = cw_capacity c" "length (cw_buffer c) < cw_capacity c"
    using False pos by linarith+
  obtain good c1 where f: "flush_internal ops False (pushBytes i b c) = (good, c1)" by fastforce
  have "cw_capacity c - length (cw_buffer c) = length b" using eq by simp
  then have "write_round ops i False b (length b) c = (good, length b, c1)" using eq f by (simp add: write_round_def)
  then have "write_loop ops i False b (length b) c = (0, c1)" by (subst write_loop.simps) simp
  then show ?thesis using assms(5) flush_tries(1,2) [OF assms(1) f] by (auto simp: pushBytes_def cw_stream_def)
qed

text \<open>An empty buffer takes a piece.\<close>

lemma write_piece_empty:
  assumes "tries_whole ops log" "b \<noteq> []" "length b \<le> cw_capacity cw" "cw_buffer cw = []" "cw_write ops i b False cw = (n, cw')"
  shows "cw_capacity cw' = cw_capacity cw \<and> cw_stream log cw' = cw_stream log cw @ push_frame i b"
proof -
  obtain m c2 where l: "write_loop ops i False b (length b) cw = (m, c2)" by fastforce
  show ?thesis using assms(4,5) l write_loop_piece [OF assms(1-3) _ l] by (auto simp: cw_write_def)
qed

text \<open>A piece no longer than the capacity is taken whole or not at all.\<close>

lemma write_piece:
  assumes "tries_whole ops log" "b \<noteq> []" "length b \<le> cw_capacity cw" "cw_write ops i b False cw = (n, cw')"
  shows "cw_capacity cw' = cw_capacity cw"
    "n = 0 \<and> cw_stream log cw' = cw_stream log cw \<or> n = length b \<and> cw_stream log cw' = cw_stream log cw @ push_frame i b"
proof -
  note loop = write_loop_piece [OF assms(1,2)]
  have "cw_capacity cw' = cw_capacity cw \<and>
    (n = 0 \<and> cw_stream log cw' = cw_stream log cw \<or> n = length b \<and> cw_stream log cw' = cw_stream log cw @ push_frame i b)"
  proof (cases "cw_buffer cw \<noteq> [] \<and> length (cw_buffer cw) + length b > cw_capacity cw")
    case True
    obtain good c1 where f: "flush_internal ops False cw = (good, c1)" by fastforce
    note c1 = flush_tries [OF assms(1) f]
    show ?thesis
    proof (cases good)
      case False
      then show ?thesis using True f c1 assms(4) by (simp add: cw_write_def)
    next
      case g: True
      obtain m c2 where l: "write_loop ops i False b (length b) c1 = (m, c2)" by fastforce
      show ?thesis using True g f c1 assms(3,4) l loop [OF _ _ l] by (auto simp: cw_write_def)
    qed
  next
    case False
    obtain m c2 where l: "write_loop ops i False b (length b) cw = (m, c2)" by fastforce
    show ?thesis using False assms(3,4) l loop [OF _ _ l] by (auto simp: cw_write_def)
  qed
  then show "cw_capacity cw' = cw_capacity cw"
    "n = 0 \<and> cw_stream log cw' = cw_stream log cw \<or> n = length b \<and> cw_stream log cw' = cw_stream log cw @ push_frame i b"
    by blast+
qed

text \<open>The empty frame that ends an entry is put behind the others, or lost.\<close>

lemma write_end:
  assumes "tries_whole ops log" "cw_write ops i [] False cw = (n, cw')"
  shows "cw_stream log cw' = cw_stream log cw \<or> cw_stream log cw' = cw_stream log cw @ push_frame i []"
proof -
  have loop: "cw_stream log c' = cw_stream log c \<or> cw_stream log c' = cw_stream log c @ push_frame i []"
    if l: "write_loop ops i False [] 0 c = (m, c')" for c m c'
  proof (cases "length (cw_buffer c) < cw_capacity c")
    case True
    then have "write_loop ops i False [] 0 c = (0, pushBytes i [] c)"
      by (subst write_loop.simps) (simp add: write_round_def)
    then show ?thesis using l by (auto simp: pushBytes_def cw_stream_def)
  next
    case False
    obtain good c1 where f: "flush_internal ops False c = (good, c1)" by fastforce
    then have "write_loop ops i False [] 0 c = (0, c1)"
      using False by (subst write_loop.simps) (simp add: write_round_def)
    then show ?thesis using l flush_tries(1) [OF assms(1) f] by simp
  qed
  obtain good c1 where f: "flush_internal ops False cw = (good, c1)" by fastforce
  obtain m c2 where l: "write_loop ops i False [] 0 c1 = (m, c2)" by fastforce
  obtain m' c3 where l': "write_loop ops i False [] 0 cw = (m', c3)" by fastforce
  show ?thesis
    using assms(2) f l l' loop [OF l] loop [OF l'] flush_tries(1) [OF assms(1) f]
    by (auto simp: cw_write_def split: if_splits)
qed

section \<open>The contract of readers that can be resumed\<close>

text \<open>
  A reader of an entry can be set to a position in it, and its pieces are no longer than asked for. \<open>whole\<close> is
  the entry behind a reader.
\<close>

locale seekable_source = byte_source ro left ok
  for ro :: "('r, 'f) reader_ops" and left :: "'r \<Rightarrow> 'f \<Rightarrow> bytes" and ok :: "'r \<Rightarrow> 'f \<Rightarrow> bool" +
  fixes whole :: "'r \<Rightarrow> 'f \<Rightarrow> bytes"
  assumes piece_bound: "ok r f \<Longrightarrow> ir_chunk ro n r f = (Some b, r', f') \<Longrightarrow> length b \<le> n"
    and seeks: "ok r f \<Longrightarrow> off \<le> length (whole r f) \<Longrightarrow> off < 2 ^ 31
      \<Longrightarrow> \<exists>r' f'. ir_setPosition ro (of_nat off) r f = (True, r', f') \<and> ok r' f' \<and> left r' f' = drop off (whole r f)"

lemma i32_of_nat:
  assumes "n < 2 ^ 31"
  shows "(0 :: i32) <s of_nat n \<longleftrightarrow> 0 < n" "(scast (of_nat n :: i32) :: u64) = of_nat n"
proof -
  have "sint (of_nat n :: i32) = int n"
    using assms by (simp add: sint_uint unsigned_of_nat signed_take_bit_eq_if_positive take_bit_nat_eq_self bit_iff_odd take_bit_int_eq_self)
  then show "(0 :: i32) <s of_nat n \<longleftrightarrow> 0 < n" "(scast (of_nat n :: i32) :: u64) = of_nat n"
    by (simp_all add: word_sless_alt scast_eq)
qed

definition same_stream :: "conn_stream \<Rightarrow> conn_stream \<Rightarrow> bool" where
  "same_stream c c' \<longleftrightarrow> cs_writer c' = cs_writer c \<and> cs_blocking c' = cs_blocking c \<and> cs_background c' = cs_background c"

context seekable_source
begin

lemma stream_conn_takes:
  assumes "tries_whole (te_sock te) log" "te_ro te = ro" "rs_reader rs = Some r" "ok r f" "\<not> cs_blocking conn"
    "0 < cw_capacity cw" "length (left r f) < 2 ^ 31"
  shows "\<exists>cs rs' conn' cw' f'. stream_conn te k rs conn cw f = Some (k + of_nat (length (concat cs)), rs', conn', cw', f')
     \<and> cw_stream log cw' = cw_stream log cw @ chunk_frames (mx_muxid (cs_writer conn)) cs \<and> same_stream conn conn'
     \<and> (\<forall>c \<in> set cs. c \<noteq> [] \<and> length c \<le> cw_capacity cw)
     \<and> (\<exists>rest. left r f = concat cs @ rest \<and> (\<not> cs_full conn' \<longrightarrow> rest = []))"
  using assms(3-7)
proof (induction "length (left r f)" arbitrary: k rs r f conn cw rule: less_induct)
  case less
  show ?case
  proof (cases "left r f = []")
    case True
    obtain r' f' where c: "ir_chunk ro (cw_capacity cw) r f = (None, r', f')" using exhausted [OF less.prems(2) True] by blast
    have "stream_conn te k rs conn cw f = Some (k, rs\<lparr>rs_reader := Some r'\<rparr>, conn, cw, f')"
      using less.prems(1) c assms(2)
      by (subst stream_conn.simps) (simp add: rs_stream_def wire_simps)
    then show ?thesis using True by (intro exI [of _ "[]"]) (simp add: same_stream_def)
  next
    case False
    obtain b r' f' where c: "ir_chunk ro (cw_capacity cw) r f = (Some b, r', f')" "b \<noteq> []" "left r f = b @ left r' f'" "ok r' f'"
      using piece [OF less.prems(2) False less.prems(4)] by blast
    let ?rs = "rs\<lparr>rs_reader := Some r'\<rparr>"
    obtain n cw' where w: "cw_write (te_sock te) (mx_muxid (cs_writer conn)) b False cw = (n, cw')" by fastforce
    note wp = write_piece [OF assms(1) c(2) piece_bound [OF less.prems(2) c(1)] w]
    define conn' where "conn' = conn\<lparr>cs_full := (n \<noteq> length b)\<rparr>"
    have cw: "cs_write (te_sock te) b conn cw = (n, conn', cw')"
      using less.prems(3) w by (simp add: wire_simps conn'_def)
    have lb: "length b < 2 ^ 31" using less.prems(5) c(3) by simp
    have same: "same_stream conn conn'" by (simp add: same_stream_def conn'_def)
    have step: "stream_conn te k rs conn cw f
        = (if (0::i32) <s of_nat n then stream_conn te (k + of_nat n) ?rs conn' cw' f' else Some (k, ?rs, conn', cw', f'))"
      using less.prems(1) c(1) cw assms(2)
      by (subst stream_conn.simps) (simp add: rs_stream_def wire_simps)
    from wp(2) show ?thesis
    proof
      assume "n = 0 \<and> cw_stream log cw' = cw_stream log cw"
      then show ?thesis using step same c(2,3)
        by (intro exI [of _ "[]"]) (simp add: conn'_def)
    next
      assume n: "n = length b \<and> cw_stream log cw' = cw_stream log cw @ push_frame (mx_muxid (cs_writer conn)) b"
      then have go: "stream_conn te k rs conn cw f = stream_conn te (k + of_nat (length b)) ?rs conn' cw' f'"
        using step i32_of_nat(1) [OF lb] c(2) by simp
      have lt: "length (left r' f') < length (left r f)" "length (left r' f') < 2 ^ 31" using c(2,3) less.prems(5) by simp_all
      have go_on: "rs_reader ?rs = Some r'" "\<not> cs_blocking conn'" "0 < cw_capacity cw'"
        using less.prems(3,4) wp(1) by (simp_all add: conn'_def)
      obtain cs rs2 conn2 cw2 f2 where
        IH: "stream_conn te (k + of_nat (length b)) ?rs conn' cw' f'
              = Some (k + of_nat (length b) + of_nat (length (concat cs)), rs2, conn2, cw2, f2)"
          "cw_stream log cw2 = cw_stream log cw' @ chunk_frames (mx_muxid (cs_writer conn')) cs" "same_stream conn' conn2"
          "\<forall>c \<in> set cs. c \<noteq> [] \<and> length c \<le> cw_capacity cw'"
          "\<exists>rest. left r' f' = concat cs @ rest \<and> (\<not> cs_full conn2 \<longrightarrow> rest = [])"
        using less.hyps [OF lt(1) go_on(1) c(4) go_on(2,3) lt(2), of "k + of_nat (length b)"] by blast
      show ?thesis
        using go IH n same c(2,3) wp(1) piece_bound [OF less.prems(2) c(1)]
        by (intro exI [of _ "b # cs"] exI [of _ rs2] exI [of _ conn2] exI [of _ cw2] exI [of _ f2])
          (auto simp: same_stream_def conn'_def add.assoc)
    qed
  qed
qed

lemma store_takes:
  assumes "tries_whole (te_sock te) log" "te_ro te = ro" "sv_conns (pt_outside st) h = (w, conn)" "\<not> cs_blocking conn"
    "\<not> cs_background conn \<or> background" "0 < cw_capacity (sv_writers (pt_outside st) w)"
    "rs_reader rs = Some r" "ok r (sv_files (pt_outside st))" "whole r (sv_files (pt_outside st)) = content"
    "length content < 2 ^ 31" "wr_offset write = of_nat off" "off \<le> length content"
    "off = 0 \<longrightarrow> left r (sv_files (pt_outside st)) = content"
  shows "\<exists>res rs' st' cs tail. WriteSupervisor_store te h write rs background st = Some (res, rs', st')
     \<and> (\<forall>c \<in> set cs. c \<noteq> [] \<and> length c \<le> cw_capacity (sv_writers (pt_outside st) w))
     \<and> cw_stream log (sv_writers (pt_outside st') w)
         = cw_stream log (sv_writers (pt_outside st) w) @ chunk_frames (mx_muxid (cs_writer conn)) cs @ tail
     \<and> (if res then take off content @ concat cs = content \<and> (tail = [] \<or> wi_isComplete write \<and> tail = push_frame (mx_muxid (cs_writer conn)) [])
        else tail = [] \<and> take off content @ concat cs = take (off + length (concat cs)) content
          \<and> cs_background (snd (sv_conns (pt_outside st') h))
          \<and> (\<exists>queue. pt_transfers st' (cw_handle (te_sock te) (sv_writers (pt_outside st') w))
                = Some (queue @ [write\<lparr>wi_isComplete := True, wr_offset := of_nat (off + length (concat cs))\<rparr>])))"
proof -
  let ?x = "pt_outside st"
  let ?cw = "sv_writers ?x w" and ?i = "mx_muxid (cs_writer conn)"
  have off: "off < 2 ^ 31" using assms(10,12) by simp
  then have "unat (of_nat off :: u64) = off" by (intro of_nat_inverse [OF refl]) simp
  then have pos: "0 < wr_offset write \<longleftrightarrow> 0 < off" using assms(11) by (simp add: word_less_nat_alt)
  obtain rs1 r1 f1 where at: "(if 0 < wr_offset write then rs_setPosition (te_ro te) (wr_offset write) rs (sv_files ?x)
      else (True, rs, sv_files ?x)) = (True, rs1, f1)" "rs_reader rs1 = Some r1" "ok r1 f1" "left r1 f1 = drop off content"
  proof (cases "0 < off")
    case True
    obtain r' f' where "ir_setPosition ro (of_nat off) r (sv_files ?x) = (True, r', f')" "ok r' f'" "left r' f' = drop off content"
      using seeks [OF assms(8) _ off] assms(9,12) by auto
    then show ?thesis using that [of "rs\<lparr>rs_reader := Some r'\<rparr>" f' r'] True pos assms(2,7,11) by (simp add: rs_setPosition_def)
  next
    case False
    then show ?thesis using that [of rs "sv_files ?x" r] pos assms(7,8,13) by simp
  qed
  have short: "length (left r1 f1) < 2 ^ 31" using at(4) assms(10) by simp
  obtain cs rs2 conn2 cw2 f2 where l: "stream_conn te 0 rs1 conn ?cw f1 = Some (0 + of_nat (length (concat cs)), rs2, conn2, cw2, f2)"
      "cw_stream log cw2 = cw_stream log ?cw @ chunk_frames ?i cs" "same_stream conn conn2"
      "\<forall>c \<in> set cs. c \<noteq> [] \<and> length c \<le> cw_capacity ?cw"
      "\<exists>rest. left r1 f1 = concat cs @ rest \<and> (\<not> cs_full conn2 \<longrightarrow> rest = [])"
    using stream_conn_takes [OF assms(1,2) at(2,3) assms(4,6) short, of 0] by blast
  then obtain rest where rest: "drop off content = concat cs @ rest" "\<not> cs_full conn2 \<longrightarrow> rest = []" using at(4) by auto
  have len: "off + length (concat cs) \<le> length content" using rest(1) assms(12) by (metis le_add1 length_append length_drop le_diff_conv2 add.commute)
  have sc: "(scast (of_nat (length (concat cs)) :: i32) :: u64) = of_nat (length (concat cs))"
    using len assms(10) by (intro i32_of_nat(2)) simp
  have tk: "take off content @ concat cs = take (off + length (concat cs)) content" by (simp add: take_add rest(1))
  show ?thesis
  proof (cases "cs_full conn2")
    case True
    then show ?thesis
      using assms(3,5,11) at(1) l sc tk
      by (intro exI [of _ False]) (auto simp: WriteSupervisor_store_def Let_def pt_add_def setBackground_def split: option.split)
  next
    case False
    then have whole: "take off content @ concat cs = content" using rest by (metis append_Nil2 append_take_drop_id)
    obtain n c3 where e: "cw_write (te_sock te) ?i [] False cw2 = (n, c3)" by fastforce
    obtain good c4 where fl: "flush_internal (te_sock te) False c3 = (good, c4)" by fastforce
    have bl: "cs_blocking conn2 = False" "mx_muxid (cs_writer conn2) = ?i" using l(3) assms(4) by (simp_all add: same_stream_def)
    let ?st = "st\<lparr>pt_outside := ?x\<lparr>
        sv_writers := (sv_writers ?x)(w := if wi_isComplete write then c4 else cw2),
        sv_conns := (sv_conns ?x)(h := (w, if wi_isComplete write then conn2\<lparr>cs_full := (n \<noteq> 0)\<rparr> else conn2)), sv_files := f2\<rparr>\<rparr>"
    have run: "WriteSupervisor_store te h write rs background st = Some (True, rs2, ?st)"
      using False assms(3,5) at(1) l(1) e fl bl
      by (simp add: WriteSupervisor_store_def Let_def wire_simps)
    obtain t where t: "cw_stream log c4 = cw_stream log cw2 @ t" "t = [] \<or> t = push_frame ?i []"
      using write_end [OF assms(1) e] flush_tries(1) [OF assms(1) fl] by auto
    define tail where "tail = (if wi_isComplete write then t else [])"
    have "cw_stream log (sv_writers (pt_outside ?st) w) = cw_stream log ?cw @ chunk_frames ?i cs @ tail"
      "tail = [] \<or> wi_isComplete write \<and> tail = push_frame ?i []"
      using t l(2) by (auto simp: tail_def)
    then show ?thesis
      using run whole l(4) by (intro exI [of _ True] exI [of _ rs2] exI [of _ ?st] exI [of _ cs] exI [of _ tail]) simp
  qed
qed

end

definition mem_whole :: "file_reader \<Rightarrow> mem_fs \<Rightarrow> bytes" where
  "mem_whole r s = mf_data (ms_file (fst (ms_at (fr_fd r) s)) s)"

interpretation mem_resumed: seekable_source "file_reader_ops mem_sys beyond" mem_left mem_readable mem_whole
proof
  fix r r' :: file_reader and f f' :: mem_fs and n off :: nat and b
  assume ok: "mem_readable r f"
  obtain p pos where at: "ms_at (fr_fd r) f = (p, pos)" by fastforce
  {
    assume "ir_chunk (file_reader_ops mem_sys beyond) n r f = (Some b, r', f')"
    then show "length b \<le> n"
      using ok at by (auto simp: file_reader_ops_def fr_chunk_def mem_sys_def mem_readable_def Let_def split: if_splits)
  next
    assume "off \<le> length (mem_whole r f)" "off < 2 ^ 31"
    then have "unat (of_nat off :: u64) = off" by (intro of_nat_inverse [OF refl]) simp
    then have "ir_setPosition (file_reader_ops mem_sys beyond) (of_nat off) r f = (True, r, ms_move (fr_fd r) off f)"
      using ok by (simp add: file_reader_ops_def fr_setPosition_def mem_sys_def mem_readable_def)
    moreover have "mem_left r (ms_move (fr_fd r) off f) = drop off (mem_whole r f)" "mem_readable r (ms_move (fr_fd r) off f)"
      using ok at by (simp_all add: mem_left_def mem_whole_def mem_readable_def ms_at_move)
    ultimately show "\<exists>r' f'. ir_setPosition (file_reader_ops mem_sys beyond) (of_nat off) r f = (True, r', f')
        \<and> mem_readable r' f' \<and> mem_left r' f' = drop off (mem_whole r f)" by simp
  }
qed

section \<open>Properties\<close>

text \<open>
  A blocking send that fails is taken for the end of the entry: nothing of it goes out, the frame that ends
  it does, and the store is reported as done.
\<close>

lemma failed_send_ends_entry:
  assumes "sv_conns (pt_outside st) h = (w, conn)" "cs_blocking conn" "\<not> cs_full conn" "\<not> cs_background conn"
    "wi_isComplete write" "wr_offset write = 0"
    "rs_reader rs = Some r" "ir_chunk (te_ro te) (cw_capacity cw) r (sv_files (pt_outside st)) = (Some b, r', f')" "b \<noteq> []"
    "cw = sv_writers (pt_outside st) w" "cw_buffer cw \<noteq> []" "length (cw_buffer cw) + length b > cw_capacity cw" "0 < cw_capacity cw"
    "cw_others cw = []" "sk_send (te_sock te) (cw_buffer cw) (cw_sock cw) = (0, s')"
  shows "\<exists>rs' st'. WriteSupervisor_store te h write rs background st = Some (True, rs', st')
    \<and> cw_sock (sv_writers (pt_outside st') w) = snd (sk_send (te_sock te) (push_frame (mx_muxid (cs_writer conn)) []) s')"
proof -
  let ?i = "mx_muxid (cs_writer conn)" and ?c = "cw\<lparr>cw_buffer := [], cw_others := [], cw_sock := s'\<rparr>"
  have w: "cw_write (te_sock te) ?i b True cw = (0, ?c)"
    using assms(11-15) by (simp add: cw_write_def flush_internal_def)
  have "write_loop (te_sock te) ?i True [] 0 ?c = (0, pushBytes ?i [] ?c)"
    using assms(13) by (subst write_loop.simps) (simp add: write_round_def)
  then have e: "cw_write (te_sock te) ?i [] True ?c = (0, pushBytes ?i [] ?c)" by (simp add: cw_write_def)
  have l: "stream_conn te 0 rs conn cw (sv_files (pt_outside st)) = Some (0, rs\<lparr>rs_reader := Some r'\<rparr>, conn, ?c, f')"
    using assms(2,7,8) w
    by (subst stream_conn.simps) (simp add: rs_stream_def wire_simps)
  show ?thesis
    using assms(1-6) l e unfolding assms(10) [symmetric]
    by (simp add: WriteSupervisor_store_def wire_simps assms(10) [symmetric]
        flush_internal_def pushBytes_def case_prod_beta Let_def)
qed

text \<open>
  C18. No byte of an entry is lost or sent twice when it is passed on without blocking: given a socket that takes
  a message whole or not at all, storing puts a run of frames into the connection, under the id of the stream,
  that go on exactly where the offset says. If it reports that it is done, they reach the end of the entry; if not, a
  transfer is queued for the connection whose offset is where they end, to be gone on with by \<^verbatim>\<open>resume\<close>.
\<close>

theorem resumed_transfer_goes_on_where_it_stopped:
  assumes "seekable_source (te_ro te) left ok whole" "tries_whole (te_sock te) log"
    "sv_conns (pt_outside st) h = (w, conn)" "\<not> cs_blocking conn" "\<not> cs_background conn \<or> background"
    "0 < cw_capacity (sv_writers (pt_outside st) w)"
    "rs_reader rs = Some r" "ok r (sv_files (pt_outside st))" "whole r (sv_files (pt_outside st)) = content"
    "length content < 2 ^ 31" "wr_offset write = of_nat off" "off \<le> length content"
    "off = 0 \<longrightarrow> left r (sv_files (pt_outside st)) = content"
  shows "\<exists>res rs' st' cs tail. WriteSupervisor_store te h write rs background st = Some (res, rs', st')
     \<and> (\<forall>c \<in> set cs. c \<noteq> [] \<and> length c \<le> cw_capacity (sv_writers (pt_outside st) w))
     \<and> cw_stream log (sv_writers (pt_outside st') w)
         = cw_stream log (sv_writers (pt_outside st) w) @ chunk_frames (mx_muxid (cs_writer conn)) cs @ tail
     \<and> (if res then take off content @ concat cs = content \<and> (tail = [] \<or> wi_isComplete write \<and> tail = push_frame (mx_muxid (cs_writer conn)) [])
        else tail = [] \<and> take off content @ concat cs = take (off + length (concat cs)) content
          \<and> cs_background (snd (sv_conns (pt_outside st') h))
          \<and> (\<exists>queue. pt_transfers st' (cw_handle (te_sock te) (sv_writers (pt_outside st') w))
                = Some (queue @ [write\<lparr>wi_isComplete := True, wr_offset := of_nat (off + length (concat cs))\<rparr>])))"
  by (rule seekable_source.store_takes [OF assms(1,2) refl assms(3-13)])

definition mem_te :: "(string \<times> string, bytes, file_reader, mem_fs) transfer_env" where
  "mem_te = \<lparr>te_mpack = (\<lambda>_. []), te_addr = list_addr, te_sock = log_socket, te_ro = file_reader_ops mem_sys [],
     te_getWriter = (\<lambda>_. Some 0), te_read = (\<lambda>_ _ _ f. Inr (readstream_none, f))\<rparr>"

definition one_file :: mem_fs where
  "one_file = \<lparr>ms_files = [(''k'', \<lparr>mf_data = ''hello world'', mf_time = 1, mf_attr = []\<rparr>)], ms_open = [(''k'', 0)], ms_now = 1\<rparr>"

definition one_stream :: "(bytes, mem_fs) supervisor_state" where
  "one_stream = \<lparr>pt_transfers = (\<lambda>_. None), pt_outside = \<lparr>sv_writers = (\<lambda>_. \<lparr>cw_buffer = [], cw_capacity = 4, cw_sock = [], cw_others = []\<rparr>),
     sv_conns = (\<lambda>_. (0, conn_stream_new \<lparr>mx_muxid = 7\<rparr> False)), sv_fresh = 1, sv_peers = (\<lambda>_. Peer [] []), sv_waits = [],
     sv_files = one_file\<rparr>\<rparr>"

lemma resumed_transfer_goes_on_where_it_stopped_witness:
  "\<exists>res rs' st'. WriteSupervisor_store mem_te 0 (WriteInstructions\<lparr>wr_offset := of_nat 6\<rparr>)
      \<lparr>rs_reader = Some \<lparr>fr_fd = 0\<rparr>, rs_md = KeyMetadata\<rparr> False one_stream = Some (res, rs', st')"
proof -
  have "mem_readable \<lparr>fr_fd = 0\<rparr> one_file" "mem_whole \<lparr>fr_fd = 0\<rparr> one_file = ''hello world''"
    by (simp_all add: mem_readable_def one_file_def mem_whole_def ms_at_def ms_file_def)
  moreover have "tries_whole (te_sock mem_te) id" by (simp add: tries_whole_def mem_te_def log_socket_def)
  moreover have "seekable_source (te_ro mem_te) mem_left mem_readable mem_whole"
    by (simp add: mem_te_def mem_resumed.seekable_source_axioms)
  ultimately show ?thesis
    using resumed_transfer_goes_on_where_it_stopped [of mem_te mem_left mem_readable mem_whole id one_stream 0 0
        "conn_stream_new \<lparr>mx_muxid = 7\<rparr> False" False "\<lparr>rs_reader = Some \<lparr>fr_fd = 0\<rparr>, rs_md = KeyMetadata\<rparr>" "\<lparr>fr_fd = 0\<rparr>"
        "''hello world''" "WriteInstructions\<lparr>wr_offset := of_nat 6\<rparr>" 6]
    by (fastforce simp: one_stream_def conn_stream_new_def WriteInstructions_def)
qed

end
