(* ===== verification/Server.thy ===== *)
theory Server
  imports Commands "HOL-Library.Multiset" "HOL-Library.AList"
begin

text \<open>
  Receiving from peers: \<^verbatim>\<open>peer_server/PeerCommandRunner\<close> (buffers of one peer, parsed into commands by one
  thread at a time), \<^verbatim>\<open>ConcurrentCommandCenter\<close> (a runner for each peer) and \<^verbatim>\<open>PeerPacketHandler\<close>. The threads
  that meet in a runner are a step relation; moodycamel's queue and the executor are outside the sources.
\<close>

section \<open>PeerCommandRunner\<close>

text \<open>What a runner asks of \<^verbatim>\<open>IPeerCommandCenter\<close> and of the commands; a command may throw.\<close>

record ('c, 'f) runner_ops =
  ro_command :: "u8 \<Rightarrow> bytes \<Rightarrow> 'c option"
  ro_setPeer :: "ref \<Rightarrow> 'c \<Rightarrow> 'c"
  ro_finished :: "'c \<Rightarrow> bool"
  ro_run :: "bytes \<Rightarrow> 'c \<Rightarrow> 'f \<Rightarrow> ('c \<times> 'f) result"

record 'c runner =
  rn_peer :: ref
  rn_running :: bool
  rn_commands :: "u8 \<rightharpoonup> 'c"
  rn_buffers :: "bytes list"

definition PeerCommandRunner :: "ref \<Rightarrow> 'c runner" where
  "PeerCommandRunner peer = \<lparr>rn_peer = peer, rn_running = False, rn_commands = (\<lambda>_. None), rn_buffers = []\<rparr>"

definition runner_shutdown :: "'c runner \<Rightarrow> 'c runner" where
  "runner_shutdown rn = rn\<lparr>rn_buffers := []\<rparr>"

text \<open>One round of the loop of \<^verbatim>\<open>parseAndRun\<close>: a packet goes to the command of its id, or starts one.\<close>

definition run_packet :: "('c, 'f) runner_ops \<Rightarrow> ref \<Rightarrow> u8 \<times> data_buffer \<Rightarrow> (u8 \<rightharpoonup> 'c) \<times> 'f \<Rightarrow> ((u8 \<rightharpoonup> 'c) \<times> 'f) result" where
  "run_packet ro peer = (\<lambda>(virtid, buff) (commands, f).
     (case (case commands virtid of None \<Rightarrow> None | Some c \<Rightarrow> if ro_finished ro c then None else Some c) of
        Some c \<Rightarrow> rbind (ro_run ro (db_bytes buff) c f) (\<lambda>(c, f). Inr (commands(virtid \<mapsto> c), f))
      | None \<Rightarrow>
          (case getNext buff of
             (_, None) \<Rightarrow> Inr (commands, f)
           | (buff, Some (cid, commandBuff)) \<Rightarrow>
               (case ro_command ro cid (db_bytes commandBuff) of
                  None \<Rightarrow> Inr (commands, f)
                | Some c \<Rightarrow>
                    (let c = ro_setPeer ro peer c; keep = \<not> ro_finished ro c
                     in rbind (ro_run ro (db_bytes buff) c f)
                          (\<lambda>(c, f). Inr (if keep then commands(virtid \<mapsto> c) else commands, f)))))))"

fun run_packets :: "('c, 'f) runner_ops \<Rightarrow> ref \<Rightarrow> (u8 \<times> data_buffer) list \<Rightarrow> (u8 \<rightharpoonup> 'c) \<times> 'f \<Rightarrow> ((u8 \<rightharpoonup> 'c) \<times> 'f) result" where
  "run_packets ro peer [] s = Inr s"
| "run_packets ro peer (p # ps) s = rbind (run_packet ro peer p s) (run_packets ro peer ps)"

definition parseAndRun :: "('c, 'f) runner_ops \<Rightarrow> ref \<Rightarrow> bytes \<Rightarrow> (u8 \<rightharpoonup> 'c) \<times> 'f \<Rightarrow> ((u8 \<rightharpoonup> 'c) \<times> 'f) result" where
  "parseAndRun ro peer buffer s = run_packets ro peer (packets (DataBuffer buffer)) s"

text \<open>
  The two atomic calls of \<^verbatim>\<open>addWork\<close>, and the result: whether the caller has to have \<^verbatim>\<open>run\<close> executed.
\<close>

definition enqueue :: "bytes \<Rightarrow> 'c runner \<Rightarrow> 'c runner" where
  "enqueue buff rn = rn\<lparr>rn_buffers := rn_buffers rn @ [buff]\<rparr>"

definition test_and_set :: "'c runner \<Rightarrow> bool \<times> 'c runner" where
  "test_and_set rn = (rn_running rn, rn\<lparr>rn_running := True\<rparr>)"

definition addWork :: "bytes \<Rightarrow> 'c runner \<Rightarrow> bool \<times> 'c runner" where
  "addWork buff rn = (let (was, rn) = test_and_set (enqueue buff rn) in (\<not> was, rn))"

text \<open>
  Where a thread can be. A caller of \<^verbatim>\<open>addWork\<close>: after the buffer is in the queue; with the flag won, before the
  executor has the task. The executor: a task not started. A thread in \<^verbatim>\<open>run\<close>: before it takes a buffer; parsing
  it; before the flag is cleared; before the size is looked at; before the flag is tried again.
\<close>

datatype phase = Added | Claimed | Scheduled | Working | Parsing bytes | Clearing | Checking | Claiming

text \<open>\<open>ru_done\<close> lists the buffers that have been parsed, \<open>ru_added\<close> all that were ever added.\<close>

record ('c, 'f) running =
  ru_runner :: "'c runner"
  ru_outside :: 'f
  ru_threads :: "phase list"
  ru_added :: "bytes list"
  ru_done :: "bytes list"

text \<open>
  A step of one thread. The queue hands out some buffer: it keeps no order between producers. Its \<^verbatim>\<open>size_approx\<close> and
  \<^verbatim>\<open>try_dequeue\<close> are taken as exact. A thread whose command throws takes no further step. Shutting a runner down, as when
  a peer is dismissed, is not a step.
\<close>

inductive thread_step :: "('c, 'f) runner_ops \<Rightarrow> ('c, 'f) running \<Rightarrow> ('c, 'f) running \<Rightarrow> bool" for ro where
  add_lost: "ru_threads s = us @ Added # vs \<Longrightarrow> test_and_set (ru_runner s) = (True, rn)
     \<Longrightarrow> thread_step ro s (s\<lparr>ru_runner := rn, ru_threads := us @ vs\<rparr>)"
| add_won: "ru_threads s = us @ Added # vs \<Longrightarrow> test_and_set (ru_runner s) = (False, rn)
     \<Longrightarrow> thread_step ro s (s\<lparr>ru_runner := rn, ru_threads := us @ Claimed # vs\<rparr>)"
| execute: "ru_threads s = us @ Claimed # vs \<Longrightarrow> thread_step ro s (s\<lparr>ru_threads := us @ Scheduled # vs\<rparr>)"
| start: "ru_threads s = us @ Scheduled # vs \<Longrightarrow> thread_step ro s (s\<lparr>ru_threads := us @ Working # vs\<rparr>)"
| dequeue: "ru_threads s = us @ Working # vs \<Longrightarrow> rn_buffers (ru_runner s) = bs @ b # cs
     \<Longrightarrow> thread_step ro s (s\<lparr>ru_runner := (ru_runner s)\<lparr>rn_buffers := bs @ cs\<rparr>, ru_threads := us @ Parsing b # vs\<rparr>)"
| parse: "ru_threads s = us @ Parsing b # vs
     \<Longrightarrow> parseAndRun ro (rn_peer (ru_runner s)) b (rn_commands (ru_runner s), ru_outside s) = Inr (commands, f)
     \<Longrightarrow> thread_step ro s (s\<lparr>ru_runner := (ru_runner s)\<lparr>rn_commands := commands\<rparr>, ru_outside := f,
            ru_threads := us @ Working # vs, ru_done := ru_done s @ [b]\<rparr>)"
| no_more: "ru_threads s = us @ Working # vs \<Longrightarrow> rn_buffers (ru_runner s) = []
     \<Longrightarrow> thread_step ro s (s\<lparr>ru_threads := us @ Clearing # vs\<rparr>)"
| clear: "ru_threads s = us @ Clearing # vs
     \<Longrightarrow> thread_step ro s (s\<lparr>ru_runner := (ru_runner s)\<lparr>rn_running := False\<rparr>, ru_threads := us @ Checking # vs\<rparr>)"
| leave: "ru_threads s = us @ Checking # vs \<Longrightarrow> rn_buffers (ru_runner s) = []
     \<Longrightarrow> thread_step ro s (s\<lparr>ru_threads := us @ vs\<rparr>)"
| again: "ru_threads s = us @ Checking # vs \<Longrightarrow> rn_buffers (ru_runner s) \<noteq> []
     \<Longrightarrow> thread_step ro s (s\<lparr>ru_threads := us @ Claiming # vs\<rparr>)"
| claim_lost: "ru_threads s = us @ Claiming # vs \<Longrightarrow> test_and_set (ru_runner s) = (True, rn)
     \<Longrightarrow> thread_step ro s (s\<lparr>ru_runner := rn, ru_threads := us @ vs\<rparr>)"
| claim_won: "ru_threads s = us @ Claiming # vs \<Longrightarrow> test_and_set (ru_runner s) = (False, rn)
     \<Longrightarrow> thread_step ro s (s\<lparr>ru_runner := rn, ru_threads := us @ Working # vs\<rparr>)"

text \<open>A packet arrives: a new caller has put its buffer into the queue.\<close>

definition arrive :: "bytes \<Rightarrow> ('c, 'f) running \<Rightarrow> ('c, 'f) running" where
  "arrive b s = s\<lparr>ru_runner := enqueue b (ru_runner s), ru_threads := ru_threads s @ [Added], ru_added := ru_added s @ [b]\<rparr>"

inductive reachable_from :: "('c, 'f) runner_ops \<Rightarrow> ref \<Rightarrow> 'f \<Rightarrow> ('c, 'f) running \<Rightarrow> bool" for ro peer f where
  initial: "reachable_from ro peer f \<lparr>ru_runner = PeerCommandRunner peer, ru_outside = f, ru_threads = [], ru_added = [], ru_done = []\<rparr>"
| arrived: "reachable_from ro peer f s \<Longrightarrow> reachable_from ro peer f (arrive b s)"
| stepped: "reachable_from ro peer f s \<Longrightarrow> thread_step ro s s' \<Longrightarrow> reachable_from ro peer f s'"

inductive_cases thread_stepE: "thread_step ro s s'"

section \<open>ConcurrentCommandCenter\<close>

text \<open>
  Runners are shared, so they are kept by reference; \<open>cc_tasks\<close> are the runners whose \<^verbatim>\<open>run\<close> was given to the
  executor. \<open>uid\<close> is the name of a peer.
\<close>

record 'c command_center =
  cc_runners :: "(string \<times> nat) list"
  cc_store :: "nat \<Rightarrow> 'c runner"
  cc_fresh :: nat
  cc_tasks :: "nat list"

definition getRunner :: "(ref \<Rightarrow> string) \<Rightarrow> ref \<Rightarrow> 'c command_center \<Rightarrow> nat \<times> 'c command_center" where
  "getRunner uid peer cc =
     (case map_of (cc_runners cc) (uid peer) of
        Some r \<Rightarrow> (r, cc)
      | None \<Rightarrow>
          (let r = cc_fresh cc
           in (r, cc\<lparr>cc_runners := AList.update (uid peer) r (cc_runners cc), cc_store := (cc_store cc)(r := PeerCommandRunner peer),
                     cc_fresh := Suc r\<rparr>)))"

definition center_run :: "(ref \<Rightarrow> string) \<Rightarrow> ref \<Rightarrow> bytes \<Rightarrow> 'c command_center \<Rightarrow> 'c command_center" where
  "center_run uid peer buffer cc =
     (let (r, cc) = getRunner uid peer cc; (scheduled, rn) = addWork buffer (cc_store cc r);
          cc = cc\<lparr>cc_store := (cc_store cc)(r := rn)\<rparr>
      in if scheduled then cc\<lparr>cc_tasks := cc_tasks cc @ [r]\<rparr> else cc)"

definition center_dismiss :: "(ref \<Rightarrow> string) \<Rightarrow> ref \<Rightarrow> 'c command_center \<Rightarrow> 'c command_center" where
  "center_dismiss uid peer cc = cc\<lparr>cc_runners := AList.delete (uid peer) (cc_runners cc)\<rparr>"

definition center_shutdown :: "'c command_center \<Rightarrow> 'c command_center" where
  "center_shutdown cc =
     cc\<lparr>cc_store := fold (\<lambda>(u, r) store. store(r := runner_shutdown (store r))) (cc_runners cc) (cc_store cc), cc_runners := []\<rparr>"

text \<open>\<^verbatim>\<open>command\<close> asks the table of commands.\<close>

definition center_command :: "(command_kind \<Rightarrow> bytes \<Rightarrow> request option) \<Rightarrow> u8 \<Rightarrow> bytes \<Rightarrow> (command_kind \<times> request) option" where
  "center_command unpack cid buff = api_command unpack (unat cid) buff"

section \<open>PeerPacketHandler\<close>

text \<open>A packet without a buffer tells that the connection was closed. The log is the list of its warnings.\<close>

definition PeerPacketHandler_onPacket :: "('a \<Rightarrow> ref option) \<Rightarrow> ('a \<Rightarrow> string) \<Rightarrow> (ref \<Rightarrow> string) \<Rightarrow> 'a \<Rightarrow> bytes option
    \<Rightarrow> string list \<times> 'c command_center \<Rightarrow> string list \<times> 'c command_center" where
  "PeerPacketHandler_onPacket lookupAddr show_addr uid endpoint buff = (\<lambda>(log, cc).
     (case lookupAddr endpoint of
        None \<Rightarrow> (log @ [''rejecting packet from unknown host '' @ show_addr endpoint], cc)
      | Some peer \<Rightarrow>
          (case buff of
             None \<Rightarrow> (log, center_dismiss uid peer cc)
           | Some buffer \<Rightarrow> if buffer = [] then (log, cc) else (log, center_run uid peer buffer cc))))"

section \<open>One thread at a time\<close>

fun owner :: "phase \<Rightarrow> bool" where
  "owner Added = False"
| "owner Checking = False"
| "owner Claiming = False"
| "owner _ = True"

fun parsing :: "phase \<Rightarrow> bytes list" where
  "parsing (Parsing b) = [b]"
| "parsing _ = []"

text \<open>The buffers parsed one after the other.\<close>

fun run_in_turn :: "('c, 'f) runner_ops \<Rightarrow> ref \<Rightarrow> bytes list \<Rightarrow> (u8 \<rightharpoonup> 'c) \<times> 'f \<Rightarrow> ((u8 \<rightharpoonup> 'c) \<times> 'f) result" where
  "run_in_turn ro peer [] s = Inr s"
| "run_in_turn ro peer (b # bs) s = rbind (parseAndRun ro peer b s) (run_in_turn ro peer bs)"

lemma run_in_turn_append:
  "run_in_turn ro peer (bs @ cs) s = rbind (run_in_turn ro peer bs s) (run_in_turn ro peer cs)"
proof (induction bs arbitrary: s)
  case (Cons b bs)
  then show ?case by (cases "parseAndRun ro peer b s") simp_all
qed simp

text \<open>
  The flag is up exactly when one thread owns the runner; when it is down, a buffer in the queue has a thread that is
  still going to look.
\<close>

definition runner_inv :: "('c, 'f) runner_ops \<Rightarrow> ref \<Rightarrow> 'f \<Rightarrow> ('c, 'f) running \<Rightarrow> bool" where
  "runner_inv ro peer f s \<longleftrightarrow>
     length (filter owner (ru_threads s)) = (if rn_running (ru_runner s) then 1 else 0)
   \<and> (rn_buffers (ru_runner s) \<noteq> [] \<and> \<not> rn_running (ru_runner s) \<longrightarrow> (\<exists>t \<in> set (ru_threads s). \<not> owner t))
   \<and> mset (ru_added s) = mset (rn_buffers (ru_runner s)) + mset (concat (map parsing (ru_threads s))) + mset (ru_done s)
   \<and> rn_peer (ru_runner s) = peer
   \<and> run_in_turn ro peer (ru_done s) (\<lambda>_. None, f) = Inr (rn_commands (ru_runner s), ru_outside s)"

lemma runner_inv_step:
  assumes "runner_inv ro peer f s" "thread_step ro s s'"
  shows "runner_inv ro peer f s'"
  using assms(2,1)
  by cases (auto simp: runner_inv_def test_and_set_def run_in_turn_append split: if_splits)

lemma reachable_inv: "reachable_from ro peer f s \<Longrightarrow> runner_inv ro peer f s"
proof (induction rule: reachable_from.induct)
  case initial
  show ?case by (simp add: runner_inv_def PeerCommandRunner_def)
next
  case (arrived s)
  then show ?case by (simp add: runner_inv_def arrive_def enqueue_def)
next
  case (stepped s s')
  then show ?case by (blast intro: runner_inv_step)
qed

section \<open>Every run comes to an end\<close>

fun steps_left :: "bool \<Rightarrow> phase \<Rightarrow> nat" where
  "steps_left nothing Added = 8"
| "steps_left nothing Claimed = 7"
| "steps_left nothing Scheduled = 6"
| "steps_left nothing Clearing = (if nothing then 2 else 5)"
| "steps_left nothing Checking = (if nothing then 1 else 4)"
| "steps_left nothing Claiming = (if nothing then 5 else 3)"
| "steps_left nothing (Parsing b) = (if nothing then 4 else 2)"
| "steps_left nothing Working = (if nothing then 3 else 1)"

definition work_left :: "('c, 'f) running \<Rightarrow> nat \<times> nat" where
  "work_left s = (length (rn_buffers (ru_runner s)),
     sum_list (map (steps_left (rn_buffers (ru_runner s) = [])) (ru_threads s)))"

lemma thread_step_decreases:
  assumes "thread_step ro s s'"
  shows "(work_left s', work_left s) \<in> less_than <*lex*> less_than"
  using assms by cases (auto simp: work_left_def test_and_set_def)

lemma thread_steps_end: "\<not> (\<forall>n. thread_step ro (run n) (run (Suc n)))"
proof
  assume "\<forall>n. thread_step ro (run n) (run (Suc n))"
  then have "\<forall>n. (work_left (run (Suc n)), work_left (run n)) \<in> less_than <*lex*> less_than"
    using thread_step_decreases by blast
  moreover have "wf (less_than <*lex*> less_than)" by (intro wf_lex_prod wf_less_than)
  ultimately show False unfolding wf_iff_no_infinite_down_chain by (metis comp_apply)
qed

text \<open>A thread that cannot go on is parsing a buffer whose commands throw.\<close>

definition thrown :: "('c, 'f) runner_ops \<Rightarrow> ('c, 'f) running \<Rightarrow> bool" where
  "thrown ro s \<longleftrightarrow> (\<exists>b e. Parsing b \<in> set (ru_threads s)
     \<and> parseAndRun ro (rn_peer (ru_runner s)) b (rn_commands (ru_runner s), ru_outside s) = Inl e)"

lemma thread_goes_on:
  assumes "t \<in> set (ru_threads s)" "\<not> thrown ro s"
  shows "\<exists>s'. thread_step ro s s'"
proof -
  obtain us vs where t: "ru_threads s = us @ t # vs" using assms(1) by (auto simp: in_set_conv_decomp)
  obtain was rn where w: "test_and_set (ru_runner s) = (was, rn)" by fastforce
  show ?thesis
  proof (cases t)
    case Working
    show ?thesis
    proof (cases "rn_buffers (ru_runner s)")
      case (Cons b bs)
      then show ?thesis using dequeue [of s us vs "[]" b bs] t Working by (metis append_Nil)
    qed (use no_more t Working in blast)
  next
    case (Parsing b)
    then have "\<exists>r. parseAndRun ro (rn_peer (ru_runner s)) b (rn_commands (ru_runner s), ru_outside s) = Inr r"
      using assms unfolding thrown_def by (metis sum.exhaust)
    then show ?thesis using parse t Parsing by (metis surj_pair)
  next
    case Added
    then show ?thesis using add_lost [of s us vs rn ro] add_won [of s us vs rn ro] t w by (cases was) auto
  next
    case Claiming
    then show ?thesis using claim_lost [of s us vs rn ro] claim_won [of s us vs rn ro] t w by (cases was) auto
  next
    case Checking
    then show ?thesis using leave again t by (cases "rn_buffers (ru_runner s) = []") blast+
  qed (use t execute start clear in blast)+
qed

lemma steps_add_nothing: "(thread_step ro)\<^sup>*\<^sup>* s t \<Longrightarrow> ru_added t = ru_added s"
  by (induction rule: rtranclp_induct) (auto elim: thread_stepE)

lemma steps_reachable: "(thread_step ro)\<^sup>*\<^sup>* s t \<Longrightarrow> reachable_from ro peer f s \<Longrightarrow> reachable_from ro peer f t"
  by (induction rule: rtranclp_induct) (auto intro: stepped)

section \<open>A run of two threads\<close>

text \<open>Commands that note what they are run with, and a packet that is still on its way while another is parsed.\<close>

definition noting_ops :: "(unit, bytes list) runner_ops" where
  "noting_ops = \<lparr>ro_command = (\<lambda>_ _. Some ()), ro_setPeer = (\<lambda>_ c. c), ro_finished = (\<lambda>_. False),
     ro_run = (\<lambda>b c f. Inr (c, f @ [b]))\<rparr>"

definition two_packets :: "phase list \<Rightarrow> (unit, bytes list) running" where
  "two_packets ts = \<lparr>ru_runner = \<lparr>rn_peer = 0, rn_running = True, rn_commands = (\<lambda>_. None), rn_buffers = [''ab'', ''c'']\<rparr>,
     ru_outside = [], ru_threads = ts, ru_added = [''ab'', ''c''], ru_done = []\<rparr>"

lemma two_packets_reachable: "reachable_from noting_ops 0 [] (two_packets [Scheduled])"
proof -
  note ds = two_packets_def arrive_def enqueue_def PeerCommandRunner_def test_and_set_def
  let ?s = "\<lparr>ru_runner = PeerCommandRunner 0, ru_outside = [], ru_threads = [], ru_added = [], ru_done = []\<rparr> :: (unit, bytes list) running"
  let ?t = "arrive ''c'' (arrive ''ab'' ?s)"
  have "reachable_from noting_ops 0 [] ?t" by (intro arrived initial)
  moreover have "thread_step noting_ops ?t (two_packets [Claimed, Added])"
    using add_won [of ?t "[]" "[Added]" "(ru_runner ?t)\<lparr>rn_running := True\<rparr>" noting_ops] by (simp add: ds)
  moreover have "thread_step noting_ops (two_packets [Claimed, Added]) (two_packets [Claimed])"
    using add_lost [of "two_packets [Claimed, Added]" "[Claimed]" "[]" "ru_runner (two_packets [])" noting_ops] by (simp add: ds)
  moreover have "thread_step noting_ops (two_packets [Claimed]) (two_packets [Scheduled])"
    using execute [of "two_packets [Claimed]" "[]" "[]" noting_ops] by (simp add: ds)
  ultimately show ?thesis by (blast intro: stepped)
qed

section \<open>Properties\<close>

text \<open>
  C4. One thread at a time: however callers and threads interleave, at most one thread parses buffers of a
  peer, and the commands and all they act on are as if the buffers had been parsed one after the other; when no
  thread is left, the queue is empty and every buffer that was added has been parsed, exactly once.
\<close>

theorem one_thread_parses_every_buffer:
  assumes "reachable_from ro peer f s"
  shows "length (concat (map parsing (ru_threads s))) \<le> 1
    \<and> run_in_turn ro peer (ru_done s) (\<lambda>_. None, f) = Inr (rn_commands (ru_runner s), ru_outside s)
    \<and> (ru_threads s = [] \<longrightarrow> rn_buffers (ru_runner s) = [] \<and> mset (ru_done s) = mset (ru_added s))"
proof -
  note inv = reachable_inv [OF assms, unfolded runner_inv_def]
  have "length (concat (map parsing ts)) \<le> length (filter owner ts)" for ts
  proof (induction ts)
    case (Cons t ts)
    then show ?case by (cases t) auto
  qed simp
  also have "length (filter owner (ru_threads s)) \<le> 1" using inv by (simp split: if_splits)
  finally show ?thesis using inv by (auto split: if_splits)
qed

lemma one_thread_parses_every_buffer_witness:
  "length (concat (map parsing (ru_threads (two_packets [Scheduled])))) \<le> 1"
  using one_thread_parses_every_buffer [OF two_packets_reachable] by blast

text \<open>
  C12. No buffer is left behind: once no more packets arrive, the threads of a runner cannot go on forever, and
  when they have come to rest every buffer has been parsed, unless a command has thrown.
\<close>

theorem every_buffer_is_parsed_in_the_end:
  assumes "reachable_from ro peer f s"
  shows "\<not> (\<exists>run. run 0 = s \<and> (\<forall>n. thread_step ro (run n) (run (Suc n))))
    \<and> (\<forall>t. (thread_step ro)\<^sup>*\<^sup>* s t \<and> (\<nexists>u. thread_step ro t u) \<longrightarrow> thrown ro t \<or> mset (ru_done t) = mset (ru_added s))"
proof -
  have "thrown ro t \<or> mset (ru_done t) = mset (ru_added s)"
    if t: "(thread_step ro)\<^sup>*\<^sup>* s t" "\<nexists>u. thread_step ro t u" for t
  proof (cases "ru_threads t")
    case Nil
    have "runner_inv ro peer f t" by (rule reachable_inv [OF steps_reachable [OF t(1) assms]])
    then show ?thesis using Nil steps_add_nothing [OF t(1)] by (simp add: runner_inv_def split: if_splits)
  next
    case (Cons th ts)
    then show ?thesis using thread_goes_on [of th t ro] t(2) by auto
  qed
  then show ?thesis using thread_steps_end by blast
qed

lemma every_buffer_is_parsed_in_the_end_witness:
  "\<not> (\<exists>run. run 0 = two_packets [Scheduled] \<and> (\<forall>n. thread_step noting_ops (run n) (run (Suc n))))"
  using every_buffer_is_parsed_in_the_end [OF two_packets_reachable] by blast

end
