(* ===== verification/Mirroring.thy ===== *)
theory Mirroring
  imports ReadBack Transfers Server
begin

text \<open>
  From one peer to the next: what \<^verbatim>\<open>WriteSupervisor\<close> sends, read by the \<^verbatim>\<open>PeerCommandRunner\<close> of the other
  side and given to the \<^verbatim>\<open>WriteCommand\<close> it starts there.
\<close>

section \<open>The commands of a runner\<close>

text \<open>
  The write commands of the table, beside the others: \<open>ce\<close> is what commands of the receiver use, \<open>unpack\<close> is
  msgpack, and \<open>others\<close> runs the commands that do not write.
\<close>

definition mirror_ops :: "('w, 'r, 'f) cmd_env \<Rightarrow> (command_kind \<Rightarrow> bytes \<Rightarrow> request option) \<Rightarrow> ('o, 'f) runner_ops
    \<Rightarrow> (('w, 'f) write_command + 'o, 'f) runner_ops" where
  "mirror_ops ce unpack others =
     \<lparr>ro_command = (\<lambda>cid b. case center_command unpack cid b of
          None \<Rightarrow> None
        | Some (WriteCommand h, WriteReq req) \<Rightarrow> Some (Inl (set_request req (WriteCommand_new ce h)))
        | Some _ \<Rightarrow> map_option Inr (ro_command others cid b)),
      ro_setPeer = (\<lambda>p. map_sum id (ro_setPeer others p)),
      ro_finished = case_sum wm_finished (ro_finished others),
      ro_run = (\<lambda>b c f. case c of
          Inl c \<Rightarrow> rbind (WriteCommand_run ce b c f) (\<lambda>(_, c, f). Inr (Inl c, f))
        | Inr c \<Rightarrow> rbind (ro_run others b c f) (\<lambda>(c, f). Inr (Inr c, f)))\<rparr>"

section \<open>What is sent is stored\<close>

lemma center_command_write:
  assumes "unpack (WriteCommand WhenMirrorWriteFinishes) m = Some req"
  shows "center_command unpack (of_nat Write_INTERNAL_ID) m = Some (WriteCommand WhenMirrorWriteFinishes, req)"
  using assms by (simp add: center_command_def api_command_def api_command_impl_def Write_INTERNAL_ID_def)

context byte_sink
begin

lemma packets_append:
  assumes "ce_wo ce = wo" "ce_ro ce = ro" "writing content ok cmd f b" "quiet content ok (hook_of ce (wm_onCommit cmd))"
    "wm_bytes cmd \<le> 0x10000" "\<forall>d \<in> set bs. d \<noteq> [] \<and> length d \<le> 0x10000"
  shows "\<exists>cmd' f'. run_packets (mirror_ops ce unpack others) peer (map (\<lambda>b. (i, DataBuffer b)) bs) (commands(i \<mapsto> Inl cmd), f)
       = Inr (commands(i \<mapsto> Inl cmd'), f') \<and> writing content ok cmd' f' (b @ concat bs) \<and> keeps_stream cmd' cmd"
  using assms(3-6)
proof (induction bs arbitrary: cmd f b)
  case Nil
  then show ?case by (intro exI [of _ cmd] exI [of _ f]) simp
next
  case (Cons d bs)
  obtain cmd' f' where c: "WriteCommand_run ce d cmd f = Inr (True, cmd', f')" "writing content ok cmd' f' (b @ d)"
      "wm_bytes cmd' \<le> 0x10000" "wm_onCommit cmd' = wm_onCommit cmd"
    using chunk_appends [OF assms(1,2) Cons.prems(1-3), of d] Cons.prems(4) by auto
  have "\<not> wm_finished cmd" "wm_started cmd" "\<not> wi_isComplete (wm_instructions cmd)" "d \<noteq> []"
    using Cons.prems(1,4) by (simp_all add: writing_def)
  then have k: "keeps_stream cmd' cmd" using run_keeps_stream [OF c(1)] by blast
  have step: "run_packet (mirror_ops ce unpack others) peer (i, DataBuffer d) (commands(i \<mapsto> Inl cmd), f)
      = Inr (commands(i \<mapsto> Inl cmd'), f')"
    using c(1) \<open>\<not> wm_finished cmd\<close> by (simp add: run_packet_def mirror_ops_def)
  obtain cmd2 f2 where rest: "run_packets (mirror_ops ce unpack others) peer (map (\<lambda>b. (i, DataBuffer b)) bs) (commands(i \<mapsto> Inl cmd'), f')
       = Inr (commands(i \<mapsto> Inl cmd2), f2)" "writing content ok cmd2 f2 ((b @ d) @ concat bs)" "keeps_stream cmd2 cmd'"
    using Cons.IH [OF c(2) _ c(3)] Cons.prems(2,4) unfolding c(4) by (metis list.set_intros(2))
  show ?case
    by (intro exI [of _ cmd2] exI [of _ f2] conjI) (use rest step keeps_stream_trans [OF rest(3) k] in \<open>simp_all del: fun_upd_apply\<close>)
qed

lemma mirrored_frames:
  assumes "ce_wo ce = wo" "ce_ro ce = ro" "quiet content ok (ce_mirror ce)" "wr_name req \<noteq> []"
    "ce_write ce (wr_name req) (wr_version req) (wr_copies req) (wr_offset req) f = Inr (ws, f0)"
    "ws_writer ws = Some w" "iw_good wo w" "ok w f0" "content w f0 = []"
    "\<forall>d \<in> set bs. d \<noteq> [] \<and> length d \<le> 0x10000"
    "unpack (WriteCommand WhenMirrorWriteFinishes) m = Some (WriteReq req)" "length m \<le> 65535"
  shows "\<exists>commands cmd f'. run_packets (mirror_ops ce unpack others) peer
       (map (\<lambda>b. (i, DataBuffer b)) (package (of_nat Write_INTERNAL_ID) m # bs)) (\<lambda>_. None, f) = Inr (commands, f')
     \<and> commands i = Some (Inl cmd) \<and> writing content ok cmd f' (concat bs)
     \<and> wm_onCommit cmd = WhenMirrorWriteFinishes \<and> ws_onClose (wm_writer cmd) = ws_onClose ws
     \<and> km_version (ws_md (wm_writer cmd)) = km_version (ws_md ws)"
proof -
  let ?ops = "mirror_ops ce unpack others"
  let ?new = "set_request req (WriteCommand_new ce WhenMirrorWriteFinishes)"
  let ?cmd = "?new\<lparr>wm_writer := ws, wm_started := True\<rparr>"
  have start: "WriteCommand_run ce [] ?new f = Inr (True, ?cmd, f0)"
    using assms(1,4-7) by (simp add: WriteCommand_run_def wm_start_def WriteCommand_new_def set_request_def
        WriteInstructions_def ws_good_def)
  have "getNext (DataBuffer (package (of_nat Write_INTERNAL_ID) m)) = (DataBuffer [], Some (of_nat Write_INTERNAL_ID, DataBuffer m))"
    using getNext_package [OF assms(12), of _ "[]"] by simp
  then have first: "run_packet ?ops peer (i, DataBuffer (package (of_nat Write_INTERNAL_ID) m)) (\<lambda>_. None, f)
      = Inr ([i \<mapsto> Inl ?cmd], f0)"
    using start center_command_write [of unpack m, OF assms(11)]
    by (simp add: run_packet_def mirror_ops_def set_request_def WriteCommand_new_def)
  have w: "writing content ok ?cmd f0 []" "wm_bytes ?cmd \<le> 0x10000" "quiet content ok (hook_of ce (wm_onCommit ?cmd))"
    using assms(3,6,8,9)
    by (simp_all add: writing_def WriteCommand_new_def set_request_def WriteInstructions_def hook_of_def)
  obtain cmd' f' where "run_packets ?ops peer (map (\<lambda>b. (i, DataBuffer b)) bs) ([i \<mapsto> Inl ?cmd], f0) = Inr ([i \<mapsto> Inl cmd'], f')"
      "writing content ok cmd' f' ([] @ concat bs)" "keeps_stream cmd' ?cmd"
    using packets_append [OF assms(1,2) w(1,3,2) assms(10)] by blast
  then show ?thesis using first
    by (intro exI [of _ "[i \<mapsto> Inl cmd']"])
      (auto simp: keeps_stream_def WriteCommand_new_def set_request_def)
qed

end

text \<open>The empty frame at the end of a stream makes the receiver store the entry.\<close>

lemma run_packets_append:
  "run_packets ro peer (as @ bs) s = rbind (run_packets ro peer as s) (run_packets ro peer bs)"
  by (induction as arbitrary: s) (auto simp: rbind_def split: sum.splits)

context posix_files
begin

lemma mirrored_frames_stored:
  assumes "over_store ce e beyond" "se_files e = fl" "compare_dual (se_vl e)" "traverses (se_order e)"
    and m: "canonical (se_vl e) m" "version_name m" "\<not> older (se_vl e) m m"
    and stored: "\<forall>s \<in> set (fs_versions e (wr_name req) False f). canonical (se_vl e) s \<and> \<not> older (se_vl e) m s"
    and new: "version_of (se_vl e) m \<noteq> []" "\<not> fs_exists e (wr_name req) m f"
      "\<not> isExpired (se_wall e) EXPIRY_TIMEOUT_SECONDS (version_of (se_vl e) m)"
    and hook: "leaves_files data wok (ce_mirror ce)" and req: "wr_name req \<noteq> []" "wr_version req = m"
    and bs: "\<forall>d \<in> set bs. d \<noteq> [] \<and> length d \<le> 0x10000"
    and pack: "unpack (WriteCommand WhenMirrorWriteFinishes) msg = Some (WriteReq req)" "length msg \<le> 65535"
  shows "\<exists>commands f'. run_packets (mirror_ops ce unpack others) peer
        (map (\<lambda>b. (i, DataBuffer b)) (package (of_nat Write_INTERNAL_ID) msg # bs)) (\<lambda>_. None, f) = Inr (commands, f')
     \<and> data (filepath e (wr_name req) (m @ ''~'')) f' = Some (concat bs)
     \<and> set (fs_versions e (wr_name req) False f') = set (fs_versions e (wr_name req) False f)"
    and "\<exists>commands f'. run_packets (mirror_ops ce unpack others) peer
        (map (\<lambda>b. (i, DataBuffer b)) ((package (of_nat Write_INTERNAL_ID) msg # bs) @ [[]])) (\<lambda>_. None, f) = Inr (commands, f')
     \<and> data (filepath e (wr_name req) m) f' = Some (concat bs)
     \<and> set (fs_versions e (wr_name req) False f')
         = {s \<in> insert m (set (fs_versions e (wr_name req) False f)). \<not> older (se_vl e) s m}"
proof -
  let ?t = "filepath e (wr_name req) (m @ ''~'')" and ?ops = "mirror_ops ce unpack others"
  obtain ws w f0 where op: "fs_write e (wr_name req) m (wr_copies req) f = Inr (ws, f0)" "ws_writer ws = Some w" "fw_good w"
      "only_writes data wok ?t f w f0" "content_of data w f0 = []"
      "ws_onClose ws = Some (fs_onWriteComplete e (wr_name req))" "km_version (ws_md ws) = version_of (se_vl e) m"
    using write_opens [OF assms(2) m(1) new(1) m(2) new(2,3)] by blast
  note over = assms(1,2) [unfolded over_store_def]
  have cw: "ce_wo ce = file_writer_ops (fl_sys fl)" "ce_ro ce = file_reader_ops (fl_sys fl) beyond"
      "ce_write ce (wr_name req) (wr_version req) (wr_copies req) (wr_offset req) f = Inr (ws, f0)"
      "iw_good (file_writer_ops (fl_sys fl)) w"
    using over op(1,3) req(2) by (simp_all add: file_writer_ops_def)
  obtain commands cmd f1 where mid: "run_packets ?ops peer (map (\<lambda>b. (i, DataBuffer b)) (package (of_nat Write_INTERNAL_ID) msg # bs))
       (\<lambda>_. None, f) = Inr (commands, f1)" "commands i = Some (Inl cmd)"
      "writing (content_of data) (only_writes data wok ?t f) cmd f1 (concat bs)"
      "wm_onCommit cmd = WhenMirrorWriteFinishes" "ws_onClose (wm_writer cmd) = ws_onClose ws"
      "km_version (ws_md (wm_writer cmd)) = km_version (ws_md ws)"
    using byte_sink.mirrored_frames [where req = req and unpack = unpack and m = msg and ce = ce and others = others and peer = peer and i = i,
        OF file_sink cw(1,2) leaves_files_quiet [OF hook] req(1) cw(3) op(2) cw(4) op(4,5) bs pack] by blast
  obtain w1 where w1: "only_writes data wok ?t f w1 f1" "content_of data w1 f1 = concat bs"
    using mid(3) by (auto simp: writing_def)
  have "data ?t f1 = Some (concat bs)" using w1 there [of w1 f1] by (auto simp: only_writes_def content_of_def)
  moreover have "\<forall>p. p \<noteq> ?t \<longrightarrow> data p f1 = data p f" using w1(1) by (simp add: only_writes_def)
  then have "set (fs_versions e (wr_name req) False f1) = set (fs_versions e (wr_name req) False f)" by (rule versions_data [OF assms(2)])
  ultimately show "\<exists>commands f'. run_packets ?ops peer
        (map (\<lambda>b. (i, DataBuffer b)) (package (of_nat Write_INTERNAL_ID) msg # bs)) (\<lambda>_. None, f) = Inr (commands, f')
     \<and> data ?t f' = Some (concat bs) \<and> set (fs_versions e (wr_name req) False f') = set (fs_versions e (wr_name req) False f)"
    using mid(1) by blast
  obtain cmd' f' where fin: "WriteCommand_run ce [] cmd f1 = Inr (True, cmd', f')"
     "data (filepath e (wr_name req) m) f' = Some (concat bs)"
     "set (fs_versions e (wr_name req) False f') = {s \<in> insert m (set (fs_versions e (wr_name req) False f)). \<not> older (se_vl e) s m}"
    using commit_stores [OF assms(1-4) m stored, of cmd f1 "concat bs"] hook mid(3-6) op(6,7) by (auto simp: hook_of_def)
  have "\<not> wm_finished cmd" using mid(3) by (simp add: writing_def)
  then have "run_packet ?ops peer (i, DataBuffer []) (commands, f1) = Inr (commands(i \<mapsto> Inl cmd'), f')"
    using mid(2) fin(1) by (simp add: run_packet_def mirror_ops_def)
  then show "\<exists>commands f'. run_packets ?ops peer
        (map (\<lambda>b. (i, DataBuffer b)) ((package (of_nat Write_INTERNAL_ID) msg # bs) @ [[]])) (\<lambda>_. None, f) = Inr (commands, f')
     \<and> data (filepath e (wr_name req) m) f' = Some (concat bs)
     \<and> set (fs_versions e (wr_name req) False f')
         = {s \<in> insert m (set (fs_versions e (wr_name req) False f)). \<not> older (se_vl e) s m}"
    using mid(1) fin(2,3) unfolding map_append run_packets_append by auto
qed

end

text \<open>Frames of one stream, parsed.\<close>

lemma packets_stream:
  assumes "\<forall>c \<in> set cs. length c \<le> 65535"
  shows "packets (DataBuffer (chunk_frames i cs)) = map (\<lambda>c. (i, DataBuffer c)) cs"
proof -
  have "packets (DataBuffer (concat (map (\<lambda>(i, p). push_frame i p) (map (\<lambda>c. (i, c)) cs)) @ []))
      = map (\<lambda>(i, p). (i, DataBuffer p)) (map (\<lambda>c. (i, c)) cs) @ packets (DataBuffer [])"
    by (rule buffered.packets_concat) (use assms in auto)
  then show ?thesis by (simp add: chunk_frames_def frames_bytes_def packets.simps [of "DataBuffer []"] comp_def)
qed

text \<open>A stream that is opened on an idle connection has its request in front.\<close>

lemma open_idle:
  assumes "tries_whole (te_sock te) log"
    "al_fromString (te_addr te) (pr_address (sv_peers (pt_outside st) peer)) = Some addr" "te_getWriter te addr = Some w"
    "cw_stream log (sv_writers (pt_outside st) w) = []"
    "length (write_header (te_mpack te) write) \<le> cw_capacity (sv_writers (pt_outside st) w)"
  obtains h st' conn where "WriteSupervisor_open te peer write False st = (Some h, st')"
    "sv_conns (pt_outside st') h = (w, conn)" "\<not> cs_blocking conn" "\<not> cs_background conn"
    "mx_muxid (cs_writer conn) = fst (nextActionId (sv_peers (pt_outside st) peer))"
    "cw_stream log (sv_writers (pt_outside st') w) = push_frame (mx_muxid (cs_writer conn)) (write_header (te_mpack te) write)"
    "cw_capacity (sv_writers (pt_outside st') w) = cw_capacity (sv_writers (pt_outside st) w)"
    "sv_files (pt_outside st') = sv_files (pt_outside st)"
proof -
  let ?x = "pt_outside st" and ?hdr = "write_header (te_mpack te) write"
  obtain i p where i: "nextActionId (sv_peers ?x peer) = (i, p)" by fastforce
  obtain n cw where w: "cw_write (te_sock te) i ?hdr False (sv_writers ?x w) = (n, cw)" by fastforce
  have ne: "?hdr \<noteq> []" by (simp add: write_header_def package_eq)
  have "cw_buffer (sv_writers ?x w) = []" using assms(4) by (simp add: cw_stream_def)
  from write_piece_empty [OF assms(1) ne assms(5) this w]
  have cw: "cw_capacity cw = cw_capacity (sv_writers ?x w)" "cw_stream log cw = push_frame i ?hdr" using assms(4) by simp_all
  let ?conn = "(conn_stream_new (set_muxid i mux_new) False)\<lparr>cs_full := (n \<noteq> length ?hdr)\<rparr>"
  have "WriteSupervisor_open te peer write False st = (Some (sv_fresh ?x), st\<lparr>pt_outside := ?x\<lparr>sv_writers := (sv_writers ?x)(w := cw),
      sv_conns := (sv_conns ?x)(sv_fresh ?x := (w, ?conn)), sv_fresh := Suc (sv_fresh ?x), sv_peers := (sv_peers ?x)(peer := p)\<rparr>\<rparr>)"
    using assms(2,3) i w
    by (simp add: WriteSupervisor_open_def Let_def wire_simps conn_stream_new_def set_muxid_def mux_new_def)
  from that [OF this] show thesis
    using i cw by (simp add: conn_stream_new_def set_muxid_def mux_new_def)
qed

text \<open>
  What the connection holds after the stream has been opened and the entry copied to it: the request, pieces of the entry
  and, if the entry is complete and the buffer had room for it, an empty frame.
\<close>

lemma mirrored_stream:
  assumes "seekable_source (te_ro te) left rok whole" "tries_whole (te_sock te) log"
    "al_fromString (te_addr te) (pr_address (sv_peers (pt_outside st) peer)) = Some addr" "te_getWriter te addr = Some w"
    "cw_stream log (sv_writers (pt_outside st) w) = []" "cw_capacity (sv_writers (pt_outside st) w) < 65535"
    "length (write_header (te_mpack te) write) \<le> cw_capacity (sv_writers (pt_outside st) w)"
    "rs_reader rs = Some r" "rok r (sv_files (pt_outside st))" "left r (sv_files (pt_outside st)) = content"
    "whole r (sv_files (pt_outside st)) = content" "length content < 2 ^ 31" "wr_offset write = 0"
  obtains h st1 res rs' st2 cs ends where "WriteSupervisor_open te peer write False st = (Some h, st1)"
    "WriteSupervisor_store te h write rs False st1 = Some (res, rs', st2)"
    "packets (DataBuffer (cw_stream log (sv_writers (pt_outside st2) w)))
      = map (\<lambda>b. (fst (nextActionId (sv_peers (pt_outside st) peer)), DataBuffer b))
          ((package (of_nat Write_INTERNAL_ID) (te_mpack te (WriteReq (write_req.truncate write))) # cs) @ ends)"
    "\<forall>d \<in> set cs. d \<noteq> [] \<and> length d \<le> 0x10000" "concat cs = take (length (concat cs)) content" "res \<longrightarrow> concat cs = content"
    "ends = [] \<or> ends = [[]] \<and> res \<and> wi_isComplete write" "length (te_mpack te (WriteReq (write_req.truncate write))) \<le> 65535"
proof -
  let ?i = "fst (nextActionId (sv_peers (pt_outside st) peer))" and ?hdr = "write_header (te_mpack te) write"
  let ?m = "te_mpack te (WriteReq (write_req.truncate write))" and ?cap = "cw_capacity (sv_writers (pt_outside st) w)"
  obtain h st1 conn where op: "WriteSupervisor_open te peer write False st = (Some h, st1)"
    "sv_conns (pt_outside st1) h = (w, conn)" "\<not> cs_blocking conn" "\<not> cs_background conn" "mx_muxid (cs_writer conn) = ?i"
    "cw_stream log (sv_writers (pt_outside st1) w) = push_frame (mx_muxid (cs_writer conn)) ?hdr"
    "cw_capacity (sv_writers (pt_outside st1) w) = ?cap" "sv_files (pt_outside st1) = sv_files (pt_outside st)"
    by (rule open_idle [OF assms(2-5,7)])
  have cap: "0 < cw_capacity (sv_writers (pt_outside st1) w)" using assms(7) op(7) by (simp add: write_header_def)
  have start: "\<not> cs_background conn \<or> False" "rok r (sv_files (pt_outside st1))" "whole r (sv_files (pt_outside st1)) = content"
    "wr_offset write = of_nat 0" "0 \<le> length content" "0 = (0 :: nat) \<longrightarrow> left r (sv_files (pt_outside st1)) = content"
    using assms(9-11,13) op(4,8) by simp_all
  obtain res rs' st2 cs tail where s: "WriteSupervisor_store te h write rs False st1 = Some (res, rs', st2)"
      "\<forall>c \<in> set cs. c \<noteq> [] \<and> length c \<le> ?cap"
      "cw_stream log (sv_writers (pt_outside st2) w) = chunk_frames ?i (?hdr # cs) @ tail"
      "tail = [] \<or> tail = push_frame ?i [] \<and> res \<and> wi_isComplete write" "res \<longrightarrow> concat cs = content"
      "concat cs = take (length (concat cs)) content"
    using seekable_source.store_takes [OF assms(1,2) refl op(2,3) start(1) cap assms(8) start(2,3) assms(12) start(4-6)] op(5-7)
    by (auto split: if_splits)
  have hdr: "?hdr = package (of_nat Write_INTERNAL_ID) ?m" by (simp add: write_header_def)
  have len: "length ?m \<le> 65535" "\<forall>c \<in> set (?hdr # cs). length c \<le> 65535" "\<forall>d \<in> set cs. d \<noteq> [] \<and> length d \<le> 0x10000"
    using assms(6,7) s(2) hdr by fastforce+
  obtain ends where e: "ends = [] \<or> ends = [[]] \<and> res \<and> wi_isComplete write"
      "cw_stream log (sv_writers (pt_outside st2) w) = chunk_frames ?i ((?hdr # cs) @ ends)"
  proof (cases "tail = []")
    case True
    then show thesis using s(3) that [of "[]"] by simp
  next
    case False
    have "chunk_frames ?i (xs @ [[]]) = chunk_frames ?i xs @ push_frame ?i []" for xs
      by (simp add: chunk_frames_def frames_bytes_def)
    then show thesis using False s(3,4) that [of "[[]]"] by simp
  qed
  have "\<forall>c \<in> set ((?hdr # cs) @ ends). length c \<le> 65535" using len(2) e(1) by auto
  from packets_stream [OF this, of ?i]
  have "packets (DataBuffer (cw_stream log (sv_writers (pt_outside st2) w))) = map (\<lambda>b. (?i, DataBuffer b)) ((?hdr # cs) @ ends)"
    unfolding e(2) .
  then show thesis using that op(1) s(1,5,6) len(1,3) e(1) unfolding hdr by blast
qed

text \<open>A receiver that keeps the versioned store in memory, and whose table has no other commands.\<close>

definition store_cmd_env :: "(file_writer, file_reader, mem_fs) cmd_env" where
  "store_cmd_env = \<lparr>ce_hash = plain_env, ce_vl = ref_lib, ce_wall = se_wall mem_env,
     ce_ro = file_reader_ops mem_sys [], ce_wo = file_writer_ops mem_sys,
     ce_write = (\<lambda>name version copies offset. fs_write mem_env name version copies), ce_read = fs_read mem_env,
     ce_local = None, ce_mirror = None, ce_status0 = 0, ce_behind = (\<lambda>_. CHR ''x'')\<rparr>"

definition no_others :: "(unit, mem_fs) runner_ops" where
  "no_others = \<lparr>ro_command = (\<lambda>_ _. None), ro_setPeer = (\<lambda>_ c. c), ro_finished = (\<lambda>_. True), ro_run = (\<lambda>_ c f. Inr (c, f))\<rparr>"

end
