(* ===== verification/Delivery.thy ===== *)
theory Delivery
  imports Mirroring
begin

text \<open>
  Connections that hand over what they are given, with and without blocking: what is in the buffer after each write, and when
  the empty frame at the end of an entry gets into the stream (\<^verbatim>\<open>peer_server/BufferedConnectionWriter\<close>,
  \<^verbatim>\<open>peer_client/WriteSupervisor\<close>).
\<close>

section \<open>A connection that hands over what it is given\<close>

text \<open>
  A blocking send returns when everything has been handed to the connection (the writer does not try again when it was
  not), and an attempt to send takes the whole buffer; \<open>log\<close> reads off what has been handed over.
\<close>

definition sends_exactly :: "'s socket_ops \<Rightarrow> ('s \<Rightarrow> bytes) \<Rightarrow> bool" where
  "sends_exactly ops log \<longleftrightarrow>
     (\<forall>b s. (b \<noteq> [] \<longrightarrow> fst (sk_send ops b s) \<noteq> 0) \<and> log (snd (sk_send ops b s)) = log s @ b)"

definition takes_whole :: "'s socket_ops \<Rightarrow> ('s \<Rightarrow> bytes) \<Rightarrow> bool" where
  "takes_whole ops log \<longleftrightarrow>
     (\<forall>b s. fst (sk_try_send ops b s) = int (length b) \<and> log (snd (sk_try_send ops b s)) = log s @ b)"

definition hands_over :: "bool \<Rightarrow> 's socket_ops \<Rightarrow> ('s \<Rightarrow> bytes) \<Rightarrow> bool" where
  "hands_over blocking ops log \<longleftrightarrow> (if blocking then sends_exactly ops log else takes_whole ops log)"

text \<open>A step of a writer that nobody else uses: it keeps its capacity and puts \<open>t\<close> behind the stream.\<close>

definition puts :: "('s \<Rightarrow> bytes) \<Rightarrow> 's conn_writer \<Rightarrow> bytes \<Rightarrow> 's conn_writer \<Rightarrow> bool" where
  "puts log cw t cw' \<longleftrightarrow> cw_others cw' = [] \<and> cw_capacity cw' = cw_capacity cw \<and> cw_stream log cw' = cw_stream log cw @ t"

lemma puts_nothing: "cw_others cw = [] \<Longrightarrow> puts log cw [] cw"
  by (simp add: puts_def)

lemma puts_trans: "puts log a s b \<Longrightarrow> puts log b t c \<Longrightarrow> puts log a (s @ t) c"
  by (simp add: puts_def)

lemma puts_frame: "cw_others cw = [] \<Longrightarrow> puts log cw (push_frame i b) (pushBytes i b cw)"
  by (simp add: puts_def pushBytes_def cw_stream_def)

lemma length_pushBytes [simp]: "length (cw_buffer (pushBytes i b cw)) = length (cw_buffer cw) + length b + 3"
  by (simp add: pushBytes_def push_frame_package package_eq)

lemma flush_hands_over:
  assumes "hands_over blocking ops log" "cw_others cw = []" "flush_internal ops blocking cw = (good, cw')"
  shows "puts log cw [] cw'" "cw_buffer cw' = []" "cw_buffer cw \<noteq> [] \<longrightarrow> good"
proof -
  have "puts log cw [] cw' \<and> cw_buffer cw' = [] \<and> (cw_buffer cw \<noteq> [] \<longrightarrow> good)"
  proof (cases blocking)
    case True
    obtain n s' where r: "sk_send ops (cw_buffer cw) (cw_sock cw) = (n, s')" by fastforce
    have "sends_exactly ops log" using assms(1) True by (simp add: hands_over_def)
    from this [unfolded sends_exactly_def, THEN spec [where x = "cw_buffer cw"], THEN spec [where x = "cw_sock cw"]]
    have "cw_buffer cw \<noteq> [] \<longrightarrow> n \<noteq> 0" "log s' = log (cw_sock cw) @ cw_buffer cw" using r by simp_all
    then show ?thesis using assms(2,3) r True by (auto simp: flush_internal_def puts_def cw_stream_def)
  next
    case False
    obtain n s' where r: "sk_try_send ops (cw_buffer cw) (cw_sock cw) = (n, s')" by fastforce
    have "takes_whole ops log" using assms(1) False by (simp add: hands_over_def)
    from this [unfolded takes_whole_def, THEN spec [where x = "cw_buffer cw"], THEN spec [where x = "cw_sock cw"]]
    have "n = int (length (cw_buffer cw))" "log s' = log (cw_sock cw) @ cw_buffer cw" using r by simp_all
    then show ?thesis using assms(2,3) r False by (auto simp: flush_internal_def puts_def cw_stream_def)
  qed
  then show "puts log cw [] cw'" "cw_buffer cw' = []" "cw_buffer cw \<noteq> [] \<longrightarrow> good" by blast+
qed

section \<open>How full the buffer is\<close>

text \<open>
  What a buffer of capacity \<open>cap\<close> that holds \<open>n\<close> bytes holds after a piece of \<open>k\<close> bytes has been written, and after several.
\<close>

definition fill_piece :: "nat \<Rightarrow> nat \<Rightarrow> nat \<Rightarrow> nat" where
  "fill_piece cap n k =
     (let n = (if n > 0 \<and> n + k > cap then 0 else n) in if n + k \<ge> cap then 0 else n + k + 3)"

definition fill :: "nat \<Rightarrow> nat \<Rightarrow> nat list \<Rightarrow> nat" where
  "fill cap n ks = foldl (fill_piece cap) n ks"

lemma fill_simps [simp]: "fill cap n [] = n" "fill cap n (k # ks) = fill cap (fill_piece cap n k) ks"
  by (simp_all add: fill_def)

text \<open>A piece that fits is one frame.\<close>

lemma loop_sends:
  assumes "hands_over blocking ops log" "cw_others c = []" "b \<noteq> []" "length b \<le> cw_capacity c"
    "cw_buffer c = [] \<or> length (cw_buffer c) + length b \<le> cw_capacity c" "write_loop ops i blocking b (length b) c = (m, c')"
  shows "m = 0 \<and> puts log c (push_frame i b) c' \<and> length (cw_buffer c')
     = (if length (cw_buffer c) + length b \<ge> cw_capacity c then 0 else length (cw_buffer c) + length b + 3)"
proof (cases "length (cw_buffer c) + length b < cw_capacity c")
  case True
  then have "write_loop ops i blocking b (length b) c = (0, pushBytes i b c)"
    by (subst write_loop.simps) (simp add: write_round_def)
  then show ?thesis using True assms(2,6) puts_frame by fastforce
next
  case False
  have pos: "0 < length b" using assms(3) by simp
  have le: "length (cw_buffer c) + length b \<le> cw_capacity c" using assms(4,5) by auto
  obtain good c1 where f: "flush_internal ops blocking (pushBytes i b c) = (good, c1)" by fastforce
  have "cw_capacity c - length (cw_buffer c) = length b" "length (cw_buffer c) < cw_capacity c" using False le pos by linarith+
  then have "write_round ops i blocking b (length b) c = (good, length b, c1)" using False le f by (simp add: write_round_def)
  then have l: "write_loop ops i blocking b (length b) c = (0, c1)" by (subst write_loop.simps) simp
  have o: "cw_others (pushBytes i b c) = []" using assms(2) by (simp add: pushBytes_def)
  from puts_trans [OF puts_frame [OF assms(2)] flush_hands_over(1) [OF assms(1) o f]] flush_hands_over(2) [OF assms(1) o f] l assms(6) False
  show ?thesis by simp
qed

lemma write_sends:
  assumes "hands_over blocking ops log" "cw_others cw = []" "b \<noteq> []" "length b \<le> cw_capacity cw" "cw_write ops i b blocking cw = (n, cw')"
  shows "n = length b \<and> puts log cw (push_frame i b) cw'
    \<and> length (cw_buffer cw') = fill_piece (cw_capacity cw) (length (cw_buffer cw)) (length b)"
proof (cases "cw_buffer cw \<noteq> [] \<and> length (cw_buffer cw) + length b > cw_capacity cw")
  case True
  obtain good c1 where f: "flush_internal ops blocking cw = (good, c1)" by fastforce
  note c1 = flush_hands_over [OF assms(1,2) f]
  obtain m c2 where l: "write_loop ops i blocking b (length b) c1 = (m, c2)" by fastforce
  have k: "cw_others c1 = []" "length b \<le> cw_capacity c1" "good" "cw_capacity c1 = cw_capacity cw" using c1 True assms(4) by (simp_all add: puts_def)
  have two: "m = 0 \<and> puts log c1 (push_frame i b) c2 \<and> length (cw_buffer c2) = (if length b \<ge> cw_capacity cw then 0 else length b + 3)"
    using loop_sends [OF assms(1) k(1) assms(3) k(2) _ l] c1(2) k(4) by simp
  then have "puts log cw (push_frame i b) c2" using puts_trans [OF c1(1)] by fastforce
  then show ?thesis using True assms(5) f l k(3) two by (auto simp: cw_write_def fill_piece_def)
next
  case False
  obtain m c2 where l: "write_loop ops i blocking b (length b) cw = (m, c2)" by fastforce
  show ?thesis using False assms(5) l loop_sends [OF assms(1-4) _ l] by (auto simp: cw_write_def fill_piece_def Let_def)
qed

text \<open>The empty frame at the end of an entry is put behind the others, or lost if the buffer is full to the byte.\<close>

lemma write_end_sends:
  assumes "hands_over blocking ops log" "cw_others cw = []" "0 < cw_capacity cw" "cw_write ops i [] blocking cw = (n, cw')"
  shows "n = 0 \<and> puts log cw (if length (cw_buffer cw) = cw_capacity cw then [] else push_frame i []) cw'"
proof -
  have loop: "write_loop ops i blocking [] 0 c = (0, pushBytes i [] c)" if "length (cw_buffer c) < cw_capacity c" for c
    using that by (subst write_loop.simps) (simp add: write_round_def)
  consider "length (cw_buffer cw) > cw_capacity cw" | "length (cw_buffer cw) = cw_capacity cw" | "length (cw_buffer cw) < cw_capacity cw"
    by linarith
  then show ?thesis
  proof cases
    case 1
    obtain good c1 where f: "flush_internal ops blocking cw = (good, c1)" by fastforce
    note c1 = flush_hands_over [OF assms(1,2) f]
    have k: "cw_others c1 = []" "cw_buffer cw \<noteq> []" "length (cw_buffer c1) < cw_capacity c1"
      using c1(1,2) assms(3) 1 by (auto simp: puts_def)
    have "good" using c1(3) k(2) by blast
    then have "n = 0" "cw' = pushBytes i [] c1"
      using 1 k(2) assms(4) f loop [OF k(3)] by (auto simp: cw_write_def)
    then show ?thesis using 1 puts_trans [OF c1(1) puts_frame [OF k(1)], of i "[]"] by simp
  next
    case 2
    obtain good c1 where f: "flush_internal ops blocking cw = (good, c1)" by fastforce
    have "write_loop ops i blocking [] 0 cw = (0, c1)"
      using 2 f by (subst write_loop.simps) (simp add: write_round_def)
    then have "n = 0" "cw' = c1" using 2 assms(4) by (auto simp: cw_write_def)
    then show ?thesis using 2 flush_hands_over(1) [OF assms(1,2) f] by simp
  next
    case 3
    then have "n = 0" "cw' = pushBytes i [] cw" using assms(4) loop [OF 3] by (auto simp: cw_write_def)
    then show ?thesis using 3 puts_frame [OF assms(2), of log i "[]"] by simp
  qed
qed

section \<open>A whole entry\<close>

text \<open>The pieces of an entry, each as long as the connection takes, and a reader that gives them so, as regular files do.\<close>

function pieces :: "nat \<Rightarrow> bytes \<Rightarrow> bytes list" where
  "pieces n b = (if b = [] \<or> n = 0 then [] else take n b # pieces n (drop n b))"
  by pat_completeness auto
termination
  by (relation "measure (\<lambda>(n, b). length b)") auto

declare pieces.simps [simp del]

lemma pieces_facts: "0 < n \<Longrightarrow> concat (pieces n b) = b \<and> (\<forall>c \<in> set (pieces n b). c \<noteq> [] \<and> length c \<le> n)"
proof (induction n b rule: pieces.induct)
  case (1 n b)
  show ?case
  proof (cases "b = []")
    case True
    then show ?thesis by (simp add: pieces.simps [of n "[]"])
  next
    case False
    then show ?thesis using 1 by (simp add: pieces.simps [of n b])
  qed
qed

definition reads_full :: "('r, 'f) reader_ops \<Rightarrow> ('r \<Rightarrow> 'f \<Rightarrow> bytes) \<Rightarrow> ('r \<Rightarrow> 'f \<Rightarrow> bool) \<Rightarrow> bool" where
  "reads_full ro left ok \<longleftrightarrow>
     (\<forall>r f n. ok r f \<longrightarrow> left r f \<noteq> [] \<longrightarrow> 0 < n \<longrightarrow> fst (ir_chunk ro n r f) = Some (take n (left r f)))"

text \<open>
  Whether the empty frame at the end gets into an idle connection, for a request of \<open>h\<close> bytes and an entry of that content: not
  if what was written before has filled the buffer to exactly its capacity.
\<close>

definition end_arrives :: "nat \<Rightarrow> nat \<Rightarrow> bytes \<Rightarrow> bool" where
  "end_arrives cap h content \<longleftrightarrow> fill cap 0 (h # map length (pieces cap content)) \<noteq> cap"

context seekable_source
begin

lemma stream_conn_sends:
  assumes "hands_over (cs_blocking conn) (te_sock te) log" "reads_full ro left ok" "te_ro te = ro" "rs_reader rs = Some r" "ok r f"
    "\<not> cs_full conn" "cw_others cw = []" "0 < cw_capacity cw" "length (left r f) < 2 ^ 31"
  shows "\<exists>rs' cw' f'. stream_conn te k rs conn cw f = Some (k + of_nat (length (left r f)), rs', conn, cw', f')
     \<and> puts log cw (chunk_frames (mx_muxid (cs_writer conn)) (pieces (cw_capacity cw) (left r f))) cw'
     \<and> length (cw_buffer cw') = fill (cw_capacity cw) (length (cw_buffer cw)) (map length (pieces (cw_capacity cw) (left r f)))"
  using assms(4,5,7-9)
proof (induction "length (left r f)" arbitrary: k rs r f cw rule: less_induct)
  case less
  show ?case
  proof (cases "left r f = []")
    case True
    obtain r' f' where c: "ir_chunk ro (cw_capacity cw) r f = (None, r', f')" using exhausted [OF less.prems(2) True] by blast
    have "stream_conn te k rs conn cw f = Some (k, rs\<lparr>rs_reader := Some r'\<rparr>, conn, cw, f')"
      using less.prems(1) c assms(3) by (subst stream_conn.simps) (simp add: rs_stream_def wire_simps)
    then show ?thesis using True less.prems(3) by (simp add: puts_nothing pieces.simps)
  next
    case False
    obtain b r' f' where c: "ir_chunk ro (cw_capacity cw) r f = (Some b, r', f')" "b \<noteq> []" "left r f = b @ left r' f'" "ok r' f'"
      using piece [OF less.prems(2) False less.prems(4)] by blast
    have b: "b = take (cw_capacity cw) (left r f)"
      using assms(2) [unfolded reads_full_def, rule_format, OF less.prems(2) False less.prems(4)] c(1) by simp
    then have l: "left r' f' = drop (cw_capacity cw) (left r f)"
      using c(3) by (metis append_take_drop_id same_append_eq)
    let ?rs = "rs\<lparr>rs_reader := Some r'\<rparr>" and ?i = "mx_muxid (cs_writer conn)"
    obtain n cw' where w: "cw_write (te_sock te) ?i b (cs_blocking conn) cw = (n, cw')" by fastforce
    note wp = write_sends [OF assms(1) less.prems(3) c(2) piece_bound [OF less.prems(2) c(1)] w]
    have lb: "length b < 2 ^ 31" using less.prems(5) c(3) by simp
    have cs: "cs_write (te_sock te) b conn cw = (length b, conn, cw')"
      using w wp assms(6) by (cases conn) (auto simp: wire_simps)
    have go: "stream_conn te k rs conn cw f = stream_conn te (k + of_nat (length b)) ?rs conn cw' f'"
      using less.prems(1) c(1,2) cs assms(3) i32_of_nat(1) [OF lb]
      by (subst stream_conn.simps) (simp add: rs_stream_def cs_maxPacketLength_def mux_capacity_def)
    have lt: "length (left r' f') < length (left r f)" "length (left r' f') < 2 ^ 31" using c(2,3) less.prems(5) by simp_all
    have cap: "cw_capacity cw' = cw_capacity cw" using wp by (simp add: puts_def)
    have go_on: "rs_reader ?rs = Some r'" "cw_others cw' = []" "0 < cw_capacity cw'"
      using less.prems(4) wp by (simp_all add: puts_def)
    obtain rs2 cw2 f2 where
      IH: "stream_conn te (k + of_nat (length b)) ?rs conn cw' f' = Some (k + of_nat (length b) + of_nat (length (left r' f')), rs2, conn, cw2, f2)"
        "puts log cw' (chunk_frames ?i (pieces (cw_capacity cw) (left r' f'))) cw2"
        "length (cw_buffer cw2) = fill (cw_capacity cw) (length (cw_buffer cw')) (map length (pieces (cw_capacity cw) (left r' f')))"
      using less.hyps [OF lt(1) go_on(1) c(4) go_on(2,3) lt(2), of "k + of_nat (length b)"] unfolding cap by blast
    have p: "pieces (cw_capacity cw) (left r f) = b # pieces (cw_capacity cw) (left r' f')"
      using False less.prems(4) unfolding b l by (simp add: pieces.simps [of "cw_capacity cw" "left r f"])
    have "puts log cw (chunk_frames ?i (b # pieces (cw_capacity cw) (left r' f'))) cw2"
      using puts_trans [OF wp [THEN conjunct2, THEN conjunct1] IH(2)] by simp
    then show ?thesis
      using go IH(1,3) c(3) wp unfolding p by (intro exI [of _ rs2] exI [of _ cw2] exI [of _ f2]) (simp add: add.assoc)
  qed
qed

lemma store_sends:
  assumes "hands_over (cs_blocking conn) (te_sock te) log" "reads_full ro left ok" "te_ro te = ro" "sv_conns (pt_outside st) h = (w, conn)"
    "\<not> cs_background conn" "\<not> cs_full conn" "cw_others (sv_writers (pt_outside st) w) = []"
    "0 < cw_capacity (sv_writers (pt_outside st) w)" "rs_reader rs = Some r" "ok r (sv_files (pt_outside st))"
    "left r (sv_files (pt_outside st)) = content" "length content < 2 ^ 31" "wr_offset write = 0"
    and defs: "cs = pieces (cw_capacity (sv_writers (pt_outside st) w)) content"
      "room \<longleftrightarrow> fill (cw_capacity (sv_writers (pt_outside st) w)) (length (cw_buffer (sv_writers (pt_outside st) w))) (map length cs)
         \<noteq> cw_capacity (sv_writers (pt_outside st) w)"
  shows "\<exists>rs' st'. WriteSupervisor_store te h write rs False st = Some (True, rs', st')
     \<and> puts log (sv_writers (pt_outside st) w)
         (chunk_frames (mx_muxid (cs_writer conn)) (cs @ (if wi_isComplete write \<and> room then [[]] else []))) (sv_writers (pt_outside st') w)"
proof -
  let ?x = "pt_outside st"
  let ?cw = "sv_writers ?x w" and ?i = "mx_muxid (cs_writer conn)"
  obtain rs2 cw2 f2 where l: "stream_conn te 0 rs conn ?cw (sv_files ?x) = Some (0 + of_nat (length content), rs2, conn, cw2, f2)"
      "puts log ?cw (chunk_frames ?i cs) cw2" "length (cw_buffer cw2) = fill (cw_capacity ?cw) (length (cw_buffer ?cw)) (map length cs)"
    using stream_conn_sends [OF assms(1-3,9,10,6-8), of 0] assms(11,12) defs(1) by blast
  obtain n c3 where e: "cw_write (te_sock te) ?i [] (cs_blocking conn) cw2 = (n, c3)" by fastforce
  obtain good c4 where fl: "flush_internal (te_sock te) (cs_blocking conn) c3 = (good, c4)" by fastforce
  have o2: "cw_others cw2 = []" "cw_capacity cw2 = cw_capacity ?cw" "0 < cw_capacity cw2" using l(2) assms(8) by (simp_all add: puts_def)
  let ?t = "if room then push_frame ?i [] else []"
  have t: "n = 0" "puts log cw2 ?t c3" using write_end_sends [OF assms(1) o2(1,3) e] l(3) o2(2) defs(2) by (auto split: if_splits)
  have o3: "cw_others c3 = []" using t(2) by (simp add: puts_def)
  have t4: "puts log cw2 ?t c4" using puts_trans [OF t(2) flush_hands_over(1) [OF assms(1) o3 fl]] by simp
  have cs: "cs_write (te_sock te) [] conn cw2 = (0, conn, c3)"
    using e t(1) assms(6) by (cases conn) (auto simp: wire_simps)
  let ?st = "st\<lparr>pt_outside := ?x\<lparr>sv_writers := (sv_writers ?x)(w := if wi_isComplete write then c4 else cw2),
      sv_conns := (sv_conns ?x)(h := (w, conn)), sv_files := f2\<rparr>\<rparr>"
  have run: "WriteSupervisor_store te h write rs False st = Some (True, rs2, ?st)"
    using assms(4-6,13) l(1) cs fl by (simp add: WriteSupervisor_store_def Let_def cs_flush_def mux_flush_def cw_flush_def)
  have app: "chunk_frames ?i (cs @ (if wi_isComplete write \<and> room then [[]] else []))
      = chunk_frames ?i cs @ (if wi_isComplete write then ?t else [])"
    by (simp add: chunk_frames_def frames_bytes_def)
  have "puts log ?cw (chunk_frames ?i cs @ (if wi_isComplete write then ?t else [])) (sv_writers (pt_outside ?st) w)"
    using puts_trans [OF l(2) t4] l(2) by simp
  then show ?thesis using run unfolding app by blast
qed

end

text \<open>A stream that is opened on an idle connection has its request in front.\<close>

lemma open_hands_over:
  assumes "hands_over blocking (te_sock te) log"
    "al_fromString (te_addr te) (pr_address (sv_peers (pt_outside st) peer)) = Some addr" "te_getWriter te addr = Some w"
    "cw_stream log (sv_writers (pt_outside st) w) = []" "cw_others (sv_writers (pt_outside st) w) = []"
    "length (write_header (te_mpack te) write) \<le> cw_capacity (sv_writers (pt_outside st) w)"
  obtains h st' conn where "WriteSupervisor_open te peer write blocking st = (Some h, st')"
    "sv_conns (pt_outside st') h = (w, conn)" "cs_blocking conn = blocking" "\<not> cs_background conn" "\<not> cs_full conn"
    "mx_muxid (cs_writer conn) = fst (nextActionId (sv_peers (pt_outside st) peer))"
    "puts log (sv_writers (pt_outside st) w) (push_frame (mx_muxid (cs_writer conn)) (write_header (te_mpack te) write))
       (sv_writers (pt_outside st') w)"
    "length (cw_buffer (sv_writers (pt_outside st') w))
       = fill_piece (cw_capacity (sv_writers (pt_outside st) w)) 0 (length (write_header (te_mpack te) write))"
    "sv_files (pt_outside st') = sv_files (pt_outside st)"
proof -
  let ?x = "pt_outside st" and ?hdr = "write_header (te_mpack te) write"
  obtain i p where i: "nextActionId (sv_peers ?x peer) = (i, p)" by fastforce
  obtain n cw where w: "cw_write (te_sock te) i ?hdr blocking (sv_writers ?x w) = (n, cw)" by fastforce
  have ne: "?hdr \<noteq> []" by (simp add: write_header_def package_eq)
  note put = write_sends [OF assms(1,5) ne assms(6) w]
  let ?conn = "conn_stream_new (set_muxid i mux_new) blocking"
  have cs: "cs_write (te_sock te) ?hdr ?conn (sv_writers ?x w) = (n, ?conn, cw)"
    using w put by (cases blocking) (simp_all add: wire_simps conn_stream_new_def set_muxid_def mux_new_def)
  have "WriteSupervisor_open te peer write blocking st = (Some (sv_fresh ?x), st\<lparr>pt_outside := ?x\<lparr>sv_writers := (sv_writers ?x)(w := cw),
      sv_conns := (sv_conns ?x)(sv_fresh ?x := (w, ?conn)), sv_fresh := Suc (sv_fresh ?x), sv_peers := (sv_peers ?x)(peer := p)\<rparr>\<rparr>)"
    using assms(2,3) i cs by (simp add: WriteSupervisor_open_def Let_def)
  from that [OF this, of ?conn] show thesis
    using i put assms(4) by (simp add: conn_stream_new_def set_muxid_def mux_new_def cw_stream_def)
qed

text \<open>
  What a connection holds after a peer has been sent a whole entry: the request, the entry in pieces and, if it is complete and the
  end arrives, an empty frame.
\<close>

lemma sent_stream:
  assumes "seekable_source (te_ro te) left rok whole" "reads_full (te_ro te) left rok" "hands_over blocking (te_sock te) log"
    "al_fromString (te_addr te) (pr_address (sv_peers (pt_outside st) peer)) = Some addr" "te_getWriter te addr = Some w"
    "cw_stream log (sv_writers (pt_outside st) w) = []" "cw_others (sv_writers (pt_outside st) w) = []"
    "cap = cw_capacity (sv_writers (pt_outside st) w)" "cap < 65535" "length (write_header (te_mpack te) write) \<le> cap"
    "rs_reader rs = Some r" "rok r (sv_files (pt_outside st))" "left r (sv_files (pt_outside st)) = content"
    "length content < 2 ^ 31" "wr_offset write = 0"
  obtains h st1 rs' st' where "WriteSupervisor_open te peer write blocking st = (Some h, st1)"
    "WriteSupervisor_store te h write rs False st1 = Some (True, rs', st')"
    "packets (DataBuffer (cw_stream log (sv_writers (pt_outside st') w)))
      = map (\<lambda>b. (fst (nextActionId (sv_peers (pt_outside st) peer)), DataBuffer b))
          ((package (of_nat Write_INTERNAL_ID) (te_mpack te (WriteReq (write_req.truncate write))) # pieces cap content)
           @ (if wi_isComplete write \<and> end_arrives cap (length (write_header (te_mpack te) write)) content then [[]] else []))"
    "\<forall>d \<in> set (pieces cap content). d \<noteq> [] \<and> length d \<le> 0x10000" "concat (pieces cap content) = content"
    "length (te_mpack te (WriteReq (write_req.truncate write))) \<le> 65535"
proof -
  let ?i = "fst (nextActionId (sv_peers (pt_outside st) peer))" and ?hdr = "write_header (te_mpack te) write"
  let ?m = "te_mpack te (WriteReq (write_req.truncate write))" and ?room = "end_arrives cap (length ?hdr) content"
  let ?ends = "if wi_isComplete write \<and> ?room then [[]] else []"
  obtain h st1 conn where op: "WriteSupervisor_open te peer write blocking st = (Some h, st1)"
    "sv_conns (pt_outside st1) h = (w, conn)" "cs_blocking conn = blocking" "\<not> cs_background conn" "\<not> cs_full conn" "mx_muxid (cs_writer conn) = ?i"
    "puts log (sv_writers (pt_outside st) w) (push_frame (mx_muxid (cs_writer conn)) ?hdr) (sv_writers (pt_outside st1) w)"
    "length (cw_buffer (sv_writers (pt_outside st1) w)) = fill_piece cap 0 (length ?hdr)"
    "sv_files (pt_outside st1) = sv_files (pt_outside st)"
    using open_hands_over [OF assms(3-7) assms(10) [unfolded assms(8)]] assms(8) by blast
  have hdr: "?hdr = package (of_nat Write_INTERNAL_ID) ?m" by (simp add: write_header_def)
  have cap: "cw_others (sv_writers (pt_outside st1) w) = []" "0 < cw_capacity (sv_writers (pt_outside st1) w)"
    "cw_capacity (sv_writers (pt_outside st1) w) = cap" "0 < cap"
    using assms(8,10) op(7) hdr by (auto simp: puts_def)
  have start: "rok r (sv_files (pt_outside st1))" "left r (sv_files (pt_outside st1)) = content" using assms(12,13) op(9) by simp_all
  have room: "?room \<longleftrightarrow> fill (cw_capacity (sv_writers (pt_outside st1) w)) (length (cw_buffer (sv_writers (pt_outside st1) w)))
      (map length (pieces cap content)) \<noteq> cw_capacity (sv_writers (pt_outside st1) w)"
    by (simp add: end_arrives_def op(8) cap(3))
  have ho: "hands_over (cs_blocking conn) (te_sock te) log" using assms(3) op(3) by simp
  have pc: "pieces cap content = pieces (cw_capacity (sv_writers (pt_outside st1) w)) content" by (simp add: cap(3))
  obtain rs' st' where s: "WriteSupervisor_store te h write rs False st1 = Some (True, rs', st')"
     "puts log (sv_writers (pt_outside st1) w) (chunk_frames ?i (pieces cap content @ ?ends)) (sv_writers (pt_outside st') w)"
    using seekable_source.store_sends [OF assms(1) ho assms(2) refl op(2,4,5) cap(1,2) assms(11) start assms(14,15) pc room] op(6) by auto
  have st: "cw_stream log (sv_writers (pt_outside st') w) = chunk_frames ?i ((?hdr # pieces cap content) @ ?ends)"
    using puts_trans [OF op(7) s(2)] assms(6) op(6) by (simp add: puts_def chunk_frames_def)
  note p = pieces_facts [OF cap(4), of content]
  have len: "length ?m \<le> 65535" "\<forall>c \<in> set ((?hdr # pieces cap content) @ ?ends). length c \<le> 65535"
      "\<forall>d \<in> set (pieces cap content). d \<noteq> [] \<and> length d \<le> 0x10000"
    using assms(9,10) p hdr by fastforce+
  have "packets (DataBuffer (cw_stream log (sv_writers (pt_outside st') w))) = map (\<lambda>b. (?i, DataBuffer b)) ((?hdr # pieces cap content) @ ?ends)"
    unfolding st by (rule packets_stream [OF len(2)])
  then show thesis using that op(1) s(1) len(1,3) p unfolding hdr by blast
qed

section \<open>Readers of the files in memory\<close>

lemma reads_full_mem: "reads_full (file_reader_ops mem_sys beyond) mem_left mem_readable"
  by (auto simp: reads_full_def file_reader_ops_def fr_chunk_def mem_sys_def mem_left_def mem_readable_def Let_def case_prod_beta)

end
