(* ===== verification/Restart.thy ===== *)
theory Restart
  imports Startup
begin

text \<open>
  The digest trees before and after a restart: while the process runs, a tree is told of every
  completed write (\<^verbatim>\<open>digestAddFunct\<close>); after a start \<^verbatim>\<open>Turbopump::postStart\<close> fills the trees
  from what \<^verbatim>\<open>FileStore::enumerate\<close> finds on disk. Both lead to the same hashes.
\<close>

section \<open>The hash of a name in the tabulator\<close>

definition kt_hash :: "locator \<Rightarrow> 'mt merkle_lib \<Rightarrow> hash_env \<Rightarrow> string \<Rightarrow> u8 \<Rightarrow> 'mt key_tabulator \<Rightarrow> u64 option" where
  "kt_hash lo ml env name m kt =
     (case RBT.lookup kt m of
        None \<Rightarrow> None
      | Some (Universal t) \<Rightarrow> dt_hash ml t (keyhash env name)
      | Some (Sections di) \<Rightarrow> dt_hash ml (forest_at ml (lo_section lo name) (di_forest di)) (keyhash env name))"

lemma kt_hash_empty [simp]: "kt_hash lo ml env name m RBT.empty = None"
  by (simp add: kt_hash_def)

lemma dt_hash_null [simp]: "merkle_map ml \<Longrightarrow> dt_hash ml (dt_null ml) k = None"
  by (simp add: dt_hash_def dt_null_def merkle_mapD(1))

lemma dt_hash_setId [simp]: "dt_hash ml (setId i t) = dt_hash ml t"
  by (simp add: dt_hash_def setId_def)

lemma dt_hash_initTree:
  "initTree lo ml sect (t, di) = (t', di') \<Longrightarrow> dt_hash ml t' = dt_hash ml t \<and> di_forest di' = di_forest di"
  by (auto simp: initTree_def split: if_splits)

lemma di_update_forest:
  assumes "merkle_map ml"
  shows "\<exists>t. RBT.lookup (di_forest (di_update lo ml env key v di)) = (RBT.lookup (di_forest di))(lo_section lo key \<mapsto> t)
     \<and> dt_hash ml t = (dt_hash ml (forest_at ml (lo_section lo key) (di_forest di)))(keyhash env key \<mapsto>
         v XOR (case dt_hash ml (forest_at ml (lo_section lo key) (di_forest di)) (keyhash env key)
                of None \<Rightarrow> keyhash env key | Some old \<Rightarrow> old))"
proof -
  let ?s = "lo_section lo key"
  obtain t di' where i: "initTree lo ml ?s (forest_at ml ?s (di_forest di), di) = (t, di')" by fastforce
  note h = dt_hash_initTree [OF i]
  show ?thesis
    by (intro exI [of _ "dt_update ml env key v t"]) (simp add: di_update_def i h dt_hash_update [OF assms])
qed

text \<open>An update of a name changes its hash in the index of that number of copies, and no other name's.\<close>

lemma kt_hash_update:
  assumes "merkle_map ml"
  shows "kt_hash lo ml env key (ucast mirrors) (kt_update lo ml env key v mirrors kt)
     = Some (v XOR (case kt_hash lo ml env key (ucast mirrors) kt of None \<Rightarrow> keyhash env key | Some old \<Rightarrow> old))"
    and "keyhash env n \<noteq> keyhash env key \<Longrightarrow> kt_hash lo ml env n m (kt_update lo ml env key v mirrors kt) = kt_hash lo ml env n m kt"
proof -
  define ix where "ix = (case RBT.lookup kt (ucast mirrors) of Some ix \<Rightarrow> ix
      | None \<Rightarrow> if mirrors = 0 then Universal (UniversalDigestIndexer ml) else Sections (DigestIndexer mirrors))"
  have upd: "kt_update lo ml env key v mirrors kt = RBT.insert (ucast mirrors) (ix_call ml env lo (Update key v) ix) kt"
    by (simp add: kt_update_def ix_def split: option.split)
  have none: "RBT.lookup kt (ucast mirrors) = None \<Longrightarrow> kt_hash lo ml env n (ucast mirrors) (RBT.insert (ucast mirrors) ix kt) = None" for n
    using assms by (simp add: ix_def kt_hash_def UniversalDigestIndexer_def DigestIndexer_def forest_at_def)
  then have before: "kt_hash lo ml env n (ucast mirrors) kt = kt_hash lo ml env n (ucast mirrors) (RBT.insert (ucast mirrors) ix kt)" for n
    by (cases "RBT.lookup kt (ucast mirrors)") (simp_all add: kt_hash_def ix_def)
  show "kt_hash lo ml env key (ucast mirrors) (kt_update lo ml env key v mirrors kt)
     = Some (v XOR (case kt_hash lo ml env key (ucast mirrors) kt of None \<Rightarrow> keyhash env key | Some old \<Rightarrow> old))"
  proof (cases ix)
    case (Universal t)
    then show ?thesis unfolding before upd
      by (simp add: kt_hash_def ui_call_def ui_update_def dt_hash_update [OF assms])
  next
    case (Sections di)
    obtain t where "RBT.lookup (di_forest (di_update lo ml env key v di)) = (RBT.lookup (di_forest di))(lo_section lo key \<mapsto> t)"
      "dt_hash ml t = (dt_hash ml (forest_at ml (lo_section lo key) (di_forest di)))(keyhash env key \<mapsto>
         v XOR (case dt_hash ml (forest_at ml (lo_section lo key) (di_forest di)) (keyhash env key)
                of None \<Rightarrow> keyhash env key | Some old \<Rightarrow> old))"
      using di_update_forest [OF assms] by blast
    then show ?thesis unfolding before upd Sections by (simp add: kt_hash_def di_call_def forest_at_def)
  qed
  show "kt_hash lo ml env n m (kt_update lo ml env key v mirrors kt) = kt_hash lo ml env n m kt"
    if ne: "keyhash env n \<noteq> keyhash env key"
  proof (cases "m = ucast mirrors")
    case False
    then show ?thesis by (simp add: upd kt_hash_def)
  next
    case m: True
    show ?thesis
    proof (cases ix)
      case (Universal t)
      then show ?thesis unfolding m before upd
        using ne by (simp add: kt_hash_def ui_call_def ui_update_def dt_hash_update [OF assms])
    next
      case (Sections di)
      obtain t where "RBT.lookup (di_forest (di_update lo ml env key v di)) = (RBT.lookup (di_forest di))(lo_section lo key \<mapsto> t)"
        "dt_hash ml t = (dt_hash ml (forest_at ml (lo_section lo key) (di_forest di)))(keyhash env key \<mapsto>
           v XOR (case dt_hash ml (forest_at ml (lo_section lo key) (di_forest di)) (keyhash env key)
                  of None \<Rightarrow> keyhash env key | Some old \<Rightarrow> old))"
        using di_update_forest [OF assms] by blast
      then show ?thesis unfolding m before upd Sections using ne by (simp add: kt_hash_def di_call_def forest_at_def)
    qed
  qed
qed

text \<open>A tabulator that is told of one digest after the other.\<close>

lemma kt_hash_updates:
  assumes "merkle_map ml" "ds \<noteq> []"
  shows "kt_hash lo ml env key (ucast mirrors) (fold (\<lambda>d. kt_update lo ml env key d mirrors) ds kt)
     = Some (xor_sum id ds XOR (case kt_hash lo ml env key (ucast mirrors) kt of None \<Rightarrow> keyhash env key | Some old \<Rightarrow> old))"
  using assms(2)
proof (induction ds arbitrary: kt)
  case (Cons d ds)
  show ?case
  proof (cases "ds = []")
    case True
    then show ?thesis by (simp add: kt_hash_update(1) [OF assms(1)])
  next
    case False
    then show ?thesis
      by (simp add: Cons.IH kt_hash_update(1) [OF assms(1)] xor.assoc xor.left_commute)
  qed
qed simp

section \<open>The writes of one key\<close>

text \<open>
  The states that lie between the completed writes of a key, with the digests those have handed on, the first one
  first: nothing is stored at the beginning; the file system may change in any way that leaves the digest of the complete
  versions alone (other keys, transfers under way); a write of a new version is completed.
\<close>

inductive written :: "'f store_env \<Rightarrow> string \<Rightarrow> u64 list \<Rightarrow> 'f \<Rightarrow> bool" for e name where
  nothing: "fs_versions e name False f = [] \<Longrightarrow> written e name [] f"
| meanwhile: "written e name ds f \<Longrightarrow> key_digest e name g = key_digest e name f \<Longrightarrow> written e name ds g"
| complete: "written e name ds f \<Longrightarrow> \<forall>s \<in> set (fs_versions e name False f). canonical (se_vl e) s
    \<Longrightarrow> canonical (se_vl e) m \<Longrightarrow> version_name m \<Longrightarrow> m \<notin> set (fs_versions e name False f)
    \<Longrightarrow> km_version md = version_of (se_vl e) m
    \<Longrightarrow> km_digest md = ws_digest (se_hash e) m (fl_size (se_files e) (filepath e name (m @ ''~'')) f)
    \<Longrightarrow> fst (fl_rename (se_files e) (filepath e name (m @ ''~'')) (filepath e name m) f)
    \<Longrightarrow> fs_onWriteComplete e name md f = Inr (True, md', f') \<Longrightarrow> written e name (ds @ [km_digest md']) f'"

lemma written_digest:
  assumes "dir_laws (se_files e)" "compare_dual (se_vl e)" "traverses (se_order e)" "written e name ds f"
  shows "key_digest e name f = xor_sum id ds"
  using assms(4)
proof (induction rule: written.induct)
  case (nothing f)
  then show ?case by (simp add: key_digest_def)
next
  case (meanwhile ds f g)
  then show ?case by simp
next
  case (complete ds f m md md' f')
  obtain f1 where "fl_rename (se_files e) (filepath e name (m @ ''~'')) (filepath e name m) f = (True, f1)"
    using complete.hyps(8) by (cases "fl_rename (se_files e) (filepath e name (m @ ''~'')) (filepath e name m) f") auto
  from completion_digest [OF assms(1-3) complete.hyps(2-7) this] complete.hyps(9) complete.IH
  show ?case by simp
qed

section \<open>What enumeration finds\<close>

text \<open>The metadata that reading a file gives.\<close>

definition meta_at :: "'f file_lib \<Rightarrow> string \<Rightarrow> 'f \<Rightarrow> string option" where
  "meta_at fl p f = (let (rd, g) = FileReader (fl_sys fl) p 0 f
     in if fr_good rd then Some (fr_attribute (fl_sys fl) ''user.md'' rd g) else None)"

text \<open>Two states that enumeration cannot tell apart.\<close>

definition same_view :: "'f file_lib \<Rightarrow> 'f \<Rightarrow> 'f \<Rightarrow> bool" where
  "same_view fl f g \<longleftrightarrow> (\<forall>p. fl_size fl p g = fl_size fl p f \<and> fl_entries fl p g = fl_entries fl p f \<and> meta_at fl p g = meta_at fl p f)"

text \<open>Opening a file for reading and closing it changes nothing that can be seen.\<close>

definition reading_is_invisible :: "'f file_lib \<Rightarrow> bool" where
  "reading_is_invisible fl \<longleftrightarrow>
     (\<forall>p f. same_view fl f (let (rd, g) = FileReader (fl_sys fl) p 0 f in snd (fr_close (fl_sys fl) rd g)))"

lemma same_view_simps [simp]: "same_view fl f f"
  by (simp add: same_view_def)

lemma same_view_trans: "same_view fl f g \<Longrightarrow> same_view fl g h \<Longrightarrow> same_view fl f h"
  by (simp add: same_view_def)

text \<open>The entries of a directory: what is reported, as a function of what can be seen.\<close>

definition read_meta :: "string option \<Rightarrow> key_metadata \<Rightarrow> key_metadata" where
  "read_meta a md = (case a of None \<Rightarrow> md | Some s \<Rightarrow> snd (mdFromString s md))"

fun scan_view :: "'f store_env \<Rightarrow> (string \<times> bool) list \<Rightarrow> key_metadata \<Rightarrow> string list \<Rightarrow> 'f \<Rightarrow> key_metadata \<times> string list" where
  "scan_view e [] md report f = (md, report)"
| "scan_view e ((vpath, isdir) # es) md report f =
     (if isdir then scan_view e es md report f
      else
        (let fl = se_files e; vstr = fl_filename fl vpath; sz = fl_size fl vpath f;
             md = (if report = [] then read_meta (meta_at fl vpath f) md else md)
         in scan_view e es (md\<lparr>km_digest := km_digest md XOR ws_digest (se_hash e) vstr sz\<rparr>)
              (List.insert (show_dec (unat sz) @ '':'' @ vstr) report) f))"

lemma scan_view_cong: "same_view (se_files e) f g \<Longrightarrow> scan_view e es md report g = scan_view e es md report f"
proof (induction es arbitrary: md report)
  case (Cons x es)
  then have "fl_size (se_files e) p g = fl_size (se_files e) p f" "meta_at (se_files e) p g = meta_at (se_files e) p f" for p
    by (simp_all add: same_view_def)
  then show ?case using Cons by (cases x) (simp add: Let_def)
qed simp

lemma scan_entries_view:
  assumes "reading_is_invisible (se_files e)"
  shows "\<exists>g. scan_entries e es md report f = (fst (scan_view e es md report f), snd (scan_view e es md report f), g)
     \<and> same_view (se_files e) f g"
proof (induction es arbitrary: md report f)
  case Nil
  then show ?case by simp
next
  case (Cons x es)
  obtain vpath isdir where x: "x = (vpath, isdir)" by (cases x)
  show ?case
  proof (cases isdir)
    case True
    then show ?thesis using Cons x by simp
  next
    case False
    let ?fl = "se_files e"
    obtain rd g where rd: "FileReader (fl_sys ?fl) vpath 0 f = (rd, g)" by fastforce
    let ?g = "if report = [] then snd (fr_close (fl_sys ?fl) rd g) else f"
    let ?md = "if report = [] then read_meta (meta_at ?fl vpath f) md else md"
    let ?vstr = "fl_filename ?fl vpath" and ?sz = "fl_size ?fl vpath f"
    have v: "same_view ?fl f ?g"
      using assms [unfolded reading_is_invisible_def, THEN spec [where x = vpath], THEN spec [where x = f]] rd by simp
    have "fl_size ?fl vpath ?g = ?sz" using v by (simp add: same_view_def)
    then have step: "scan_entries e (x # es) md report f =
        scan_entries e es (?md\<lparr>km_digest := km_digest ?md XOR ws_digest (se_hash e) ?vstr ?sz\<rparr>)
          (List.insert (show_dec (unat ?sz) @ '':'' @ ?vstr) report) ?g"
      using x False rd by (auto simp: Let_def read_meta_def meta_at_def)
    have "\<exists>h. scan_entries e (x # es) md report f =
        (fst (scan_view e (x # es) md report f), snd (scan_view e (x # es) md report f), h) \<and> same_view ?fl ?g h"
      unfolding step using Cons [of "?md\<lparr>km_digest := km_digest ?md XOR ws_digest (se_hash e) ?vstr ?sz\<rparr>"
          "List.insert (show_dec (unat ?sz) @ '':'' @ ?vstr) report" ?g] x False scan_view_cong [OF v]
      by (simp add: Let_def)
    then show ?thesis using v by (blast intro: same_view_trans)
  qed
qed

abbreviation files_in :: "(string \<times> bool) list \<Rightarrow> string list" where
  "files_in es \<equiv> map fst (filter (\<lambda>(p, isdir). \<not> isdir) es)"

lemma read_meta_digest [simp]: "km_digest (read_meta a md) = km_digest md"
  by (auto simp: read_meta_def mdFromString_def split: option.split list.split)

lemma scan_view_result:
  "km_digest (fst (scan_view e es md report f)) = km_digest md XOR
     xor_sum (\<lambda>p. ws_digest (se_hash e) (fl_filename (se_files e) p) (fl_size (se_files e) p f)) (files_in es)"
  "snd (scan_view e es md report f) = [] \<longleftrightarrow> report = [] \<and> files_in es = []"
  "report \<noteq> [] \<Longrightarrow> km_totalCopies (fst (scan_view e es md report f)) = km_totalCopies md"
proof (induction es arbitrary: md report)
  case (Cons x es)
  { case 1 then show ?case using Cons(1) by (cases x) (simp add: Let_def ac_simps) }
  { case 2 then show ?case using Cons(2) by (cases x) (auto simp: Let_def List.insert_def) }
  { case 3 then show ?case using Cons(3) by (cases x) (simp add: Let_def List.insert_def) }
qed simp_all

lemma scan_view_copies:
  assumes "files_in es \<noteq> []"
  shows "km_totalCopies (fst (scan_view e es md [] f)) = km_totalCopies (read_meta (meta_at (se_files e) (hd (files_in es)) f) md)"
  using assms
proof (induction es)
  case (Cons x es)
  then show ?case by (cases x) (auto simp: Let_def scan_view_result(3))
qed simp

text \<open>What is done for one path of the walk.\<close>

definition report_dir :: "'f store_env \<Rightarrow> (string \<Rightarrow> key_metadata \<Rightarrow> string \<Rightarrow> 's \<Rightarrow> 's) \<Rightarrow> 'f \<Rightarrow> string \<times> bool \<Rightarrow> 's \<Rightarrow> 's" where
  "report_dir e cb f = (\<lambda>(pa, isdir) s.
     let (md, report) = scan_view e (fl_entries (se_files e) pa f) KeyMetadata [] f
     in if \<not> isdir \<or> report = [] then s
        else cb (drop (length (se_home e) + 1) pa) md (se_join e (sort report)) s)"

lemma contains_home: "contains_str h (h @ r)"
  by (auto simp: contains_str_def has_prefix_def list_ex_iff intro!: bexI [of _ 0])

lemma report_dir_cong: "same_view (se_files e) f g \<Longrightarrow> report_dir e cb g x s = report_dir e cb f x s"
  using scan_view_cong [of e f g] by (simp add: report_dir_def same_view_def case_prod_beta)

lemma enum_dirs_fold:
  assumes "reading_is_invisible (se_files e)" "\<forall>(pa, isdir) \<in> set ps. isdir \<longrightarrow> (\<exists>n. pa = dirpath e n)"
    "unat i + length ps < unat limit"
  shows "\<exists>g. enum_dirs e cb limit ps i f s = Inr (g, fold (report_dir e cb f) ps s) \<and> same_view (se_files e) f g"
  using assms(2,3)
proof (induction ps arbitrary: i f s)
  case Nil
  then show ?case by simp
next
  case (Cons x ps)
  obtain pa isdir where x: "x = (pa, isdir)" by (cases x)
  have rest: "\<forall>(pa, isdir) \<in> set ps. isdir \<longrightarrow> (\<exists>n. pa = dirpath e n)" using Cons.prems(1) by simp
  have small: "unat i + length ps < unat limit" using Cons.prems(2) by simp
  have "unat limit < 2 ^ LENGTH(64)" by (rule unsigned_less)
  moreover have "(2 :: nat) ^ LENGTH(64) = 2 ^ 64" "Suc (unat i) < unat limit" using Cons.prems(2) by simp_all
  ultimately have "Suc (unat i) < 2 ^ 64" by linarith
  then have i1: "unat (i + 1) = Suc (unat i)" by (simp add: unat_add_lem [THEN iffD1])
  then have nxt: "unat (i + 1) + length ps < unat limit" "\<not> i + 1 \<ge> limit" using Cons.prems(2) by (simp_all add: word_le_nat_alt)
  obtain g where g: "scan_entries e (fl_entries (se_files e) pa f) KeyMetadata [] f
      = (fst (scan_view e (fl_entries (se_files e) pa f) KeyMetadata [] f),
         snd (scan_view e (fl_entries (se_files e) pa f) KeyMetadata [] f), g)" "same_view (se_files e) f g"
    using scan_entries_view [OF assms(1)] by blast
  have same: "fold (report_dir e cb g) ps t = fold (report_dir e cb f) ps t" for t
    using report_dir_cong [OF g(2), of cb] by (induction ps arbitrary: t) simp_all
  show ?case
  proof (cases "isdir \<and> snd (scan_view e (fl_entries (se_files e) pa f) KeyMetadata [] f) \<noteq> []")
    case True
    then obtain n where n: "pa = dirpath e n" using Cons.prems(1) x by auto
    have "contains_str (se_home e) pa" "substr_from (length (se_home e) + 1) pa = Inr (drop (length (se_home e) + 1) pa)"
      using contains_home by (simp_all add: n dirpath_def substr_from_def)
    then have "enum_dirs e cb limit (x # ps) i f s = enum_dirs e cb limit ps (i + 1) g (report_dir e cb f x s)"
      using True x g(1) nxt(2) by (simp add: report_dir_def Let_def case_prod_beta)
    then show ?thesis using Cons.IH [OF rest nxt(1), of g "report_dir e cb f x s"] same g(2) by (auto intro: same_view_trans)
  next
    case False
    show ?thesis
    proof (cases isdir)
      case True
      then have "enum_dirs e cb limit (x # ps) i f s = enum_dirs e cb limit ps i g s" "report_dir e cb f x s = s"
        using False x g(1) by (simp_all add: report_dir_def case_prod_beta)
      then show ?thesis using Cons.IH [OF rest small, of g s] same g(2) by (auto intro: same_view_trans)
    next
      case n: False
      then have "enum_dirs e cb limit (x # ps) i f s = enum_dirs e cb limit ps i f s" "report_dir e cb f x s = s"
        using x by (simp_all add: report_dir_def case_prod_beta)
      then show ?thesis using Cons.IH [OF rest small, of f s] by simp
    qed
  qed
qed

section \<open>The trees after a start\<close>

text \<open>A directory of complete versions that all carry the same metadata, and the other keys on disk.\<close>

definition key_at_rest :: "'f store_env \<Rightarrow> string \<Rightarrow> u16 \<Rightarrow> 'f \<Rightarrow> bool" where
  "key_at_rest e name copies f \<longleftrightarrow>
     (let fl = se_files e; es = files_in (fl_entries fl (dirpath e name) f)
      in es \<noteq> [] \<and> distinct es \<and> set es = filepath e name ` set (fs_versions e name False f)
       \<and> (\<forall>s \<in> set (fs_versions e name False f). fl_filename fl (filepath e name s) = s)
       \<and> (\<forall>p \<in> set es. \<exists>md. meta_at fl p f = Some (mdToString md) \<and> km_totalCopies md = copies))"

definition walks_keys :: "'f store_env \<Rightarrow> hash_env \<Rightarrow> string \<Rightarrow> 'f \<Rightarrow> bool" where
  "walks_keys e env name f \<longleftrightarrow>
     (let ps = fl_walk (se_files e) (fl_append (se_files e) (se_home e) []) f
      in distinct ps \<and> length ps < 2 ^ 64 - 1 \<and> (dirpath e name, True) \<in> set ps
       \<and> (\<forall>(pa, isdir) \<in> set ps. isdir \<longrightarrow> (\<exists>n. pa = dirpath e n \<and> (n = name \<or> keyhash env n \<noteq> keyhash env name))))"

definition tree_callback :: "locator \<Rightarrow> 'mt merkle_lib \<Rightarrow> hash_env
    \<Rightarrow> string \<Rightarrow> key_metadata \<Rightarrow> string \<Rightarrow> 'mt key_tabulator \<Rightarrow> 'mt key_tabulator" where
  "tree_callback lo ml env = (\<lambda>name md _ kt. kt_update lo ml env name (km_digest md) (ucast (km_totalCopies md)) kt)"

lemma drop_dirpath [simp]: "drop (Suc (length (se_home e))) (dirpath e n) = n"
  by (simp add: dirpath_def)

lemma dirpath_inj [simp]: "dirpath e a = dirpath e b \<longleftrightarrow> a = b"
  by (simp add: dirpath_def)

lemma other_dirs_keep_hash:
  assumes "merkle_map ml"
    "\<forall>(pa, isdir) \<in> set ps. isdir \<longrightarrow> (\<exists>n. pa = dirpath e n \<and> keyhash env n \<noteq> keyhash env name)"
  shows "kt_hash lo ml env name m (fold (report_dir e (tree_callback lo ml env) f) ps kt) = kt_hash lo ml env name m kt"
  using assms(2)
proof (induction ps arbitrary: kt)
  case (Cons x ps)
  obtain pa isdir where x: "x = (pa, isdir)" by (cases x)
  have "kt_hash lo ml env name m (report_dir e (tree_callback lo ml env) f x kt) = kt_hash lo ml env name m kt"
  proof (cases isdir)
    case True
    then obtain n where "pa = dirpath e n" "keyhash env name \<noteq> keyhash env n" using Cons.prems x by auto
    then show ?thesis
      using kt_hash_update(2) [OF assms(1)] x by (simp add: report_dir_def tree_callback_def case_prod_beta)
  qed (simp add: report_dir_def x case_prod_beta)
  then show ?case using Cons by simp
qed simp

lemma xor_sum_map: "xor_sum g (map h xs) = xor_sum (\<lambda>x. g (h x)) xs"
  by (induction xs) simp_all

lemma ucast_mod_256: "(ucast (of_nat (unat c mod 256) :: u16) :: u8) = ucast (c :: u16)"
proof (rule word_unat_eq_iff [THEN iffD2])
  have "unat (of_nat (unat c mod 256) :: u16) = unat c mod 256"
    by (intro of_nat_inverse less_trans [OF mod_less_divisor]) simp_all
  then show "unat (ucast (of_nat (unat c mod 256) :: u16) :: u8) = unat (ucast c :: u8)"
    by (simp add: unsigned_ucast_eq take_bit_eq_mod)
qed

lemma ucast_via_32: "(ucast (ucast (c :: u16) :: u32) :: u8) = ucast c"
  by transfer simp

lemma key_at_rest_report:
  assumes "key_at_rest e name copies f" "dir_laws (se_files e)"
  defines "v \<equiv> scan_view e (fl_entries (se_files e) (dirpath e name) f) KeyMetadata [] f"
  shows "snd v \<noteq> []" "km_digest (fst v) = key_digest e name f" "(ucast (km_totalCopies (fst v)) :: u8) = ucast copies"
proof -
  let ?es = "files_in (fl_entries (se_files e) (dirpath e name) f)" and ?V = "fs_versions e name False f"
  let ?g = "\<lambda>p. ws_digest (se_hash e) (fl_filename (se_files e) p) (fl_size (se_files e) p f)"
  have rest: "?es \<noteq> []" "distinct ?es" "set ?es = filepath e name ` set ?V"
    "\<forall>s \<in> set ?V. fl_filename (se_files e) (filepath e name s) = s"
    "\<forall>p \<in> set ?es. \<exists>md. meta_at (se_files e) p f = Some (mdToString md) \<and> km_totalCopies md = copies"
    using assms(1) unfolding key_at_rest_def Let_def by blast+
  show "snd v \<noteq> []" using rest(1) by (simp add: v_def scan_view_result(2))
  have "distinct (map (filepath e name) ?V)"
    using fs_versions_distinct [OF assms(2)] by (simp add: distinct_map filepath_def inj_on_def)
  then have "xor_sum ?g ?es = xor_sum ?g (map (filepath e name) ?V)"
    using rest(2,3) by (intro xor_sum_set) auto
  also have "\<dots> = key_digest e name f"
    unfolding key_digest_def xor_sum_map using rest(4) by (intro xor_sum_cong) (simp add: version_digest_def)
  finally show "km_digest (fst v) = key_digest e name f"
    by (simp add: v_def scan_view_result(1) KeyMetadata_def)
  obtain md where "meta_at (se_files e) (hd ?es) f = Some (mdToString md)" "km_totalCopies md = copies"
    using rest(1,5) hd_in_set by blast
  then have "km_totalCopies (fst v) = of_nat (unat copies mod 256)"
    using rest(1) by (simp add: v_def scan_view_copies read_meta_def metadata_text_roundtrip)
  then show "(ucast (km_totalCopies (fst v)) :: u8) = ucast copies" by (simp only: ucast_mod_256)
qed

lemma enumerate_hash:
  assumes "merkle_map ml" "dir_laws (se_files e)" "reading_is_invisible (se_files e)"
    "key_at_rest e name copies f" "walks_keys e env name f"
  shows "\<exists>f' kt'. fs_enumerate e (tree_callback lo ml env) (NOT 0) [] f RBT.empty = Inr (f', kt')
     \<and> kt_hash lo ml env name (ucast copies) kt' = Some (key_digest e name f XOR keyhash env name)"
proof -
  let ?ps = "fl_walk (se_files e) (fl_append (se_files e) (se_home e) []) f" and ?cb = "tree_callback lo ml env"
  have ps: "distinct ?ps" "length ?ps < 2 ^ 64 - 1" "(dirpath e name, True) \<in> set ?ps"
    "\<forall>(pa, isdir) \<in> set ?ps. isdir \<longrightarrow> (\<exists>n. pa = dirpath e n \<and> (n = name \<or> keyhash env n \<noteq> keyhash env name))"
    using assms(5) by (simp_all add: walks_keys_def Let_def)
  obtain as bs where split: "?ps = as @ (dirpath e name, True) # bs" using ps(3) by (auto simp: in_set_conv_decomp)
  have others: "\<forall>(pa, isdir) \<in> set as \<union> set bs. isdir \<longrightarrow> (\<exists>n. pa = dirpath e n \<and> keyhash env n \<noteq> keyhash env name)"
  proof (rule ballI, clarsimp)
    fix pa
    assume "(pa, True) \<in> set as \<or> (pa, True) \<in> set bs"
    then have x: "(pa, True) \<in> set as \<union> set bs" by blast
    then have "pa \<noteq> dirpath e name" using ps(1) unfolding split by auto
    moreover have "(pa, True) \<in> set ?ps" using x unfolding split by auto
    from bspec [OF ps(4) this] obtain n where "pa = dirpath e n" "n = name \<or> keyhash env n \<noteq> keyhash env name" by auto
    ultimately show "\<exists>n. pa = dirpath e n \<and> keyhash env n \<noteq> keyhash env name" by auto
  qed
  have "unat (NOT 0 :: u64) = 2 ^ 64 - 1" by (simp add: unsigned_minus_1_eq_mask mask_eq_exp_minus_1)
  then have room: "unat (0 :: u64) + length ?ps < unat (NOT 0 :: u64)" using ps(2) by simp
  have dirs: "\<forall>(pa, isdir) \<in> set ?ps. isdir \<longrightarrow> (\<exists>n. pa = dirpath e n)"
  proof (rule ballI, clarsimp)
    fix pa
    assume "(pa, True) \<in> set ?ps"
    from bspec [OF ps(4) this] show "\<exists>n. pa = dirpath e n" by auto
  qed
  obtain g where g: "fs_enumerate e ?cb (NOT 0) [] f RBT.empty = Inr (g, fold (report_dir e ?cb f) ?ps RBT.empty)"
    using enum_dirs_fold [OF assms(3) dirs room, where cb = ?cb and s = RBT.empty and f = f] by (auto simp: fs_enumerate_def)
  let ?v = "scan_view e (fl_entries (se_files e) (dirpath e name) f) KeyMetadata [] f"
  let ?kt = "fold (report_dir e ?cb f) as RBT.empty"
  note rep = key_at_rest_report [OF assms(4,2)]
  have before: "kt_hash lo ml env name m ?kt = None" for m
    using other_dirs_keep_hash [OF assms(1), of as e env name] others by (simp add: ball_Un)
  have mine: "report_dir e ?cb f (dirpath e name, True) ?kt
      = kt_update lo ml env name (key_digest e name f) (ucast (km_totalCopies (fst ?v))) ?kt"
    using rep(1,2) by (simp add: report_dir_def tree_callback_def case_prod_beta)
  have m: "(ucast copies :: u8) = ucast (ucast (km_totalCopies (fst ?v)) :: u32)"
    using rep(3) by (simp only: ucast_via_32)
  have "kt_hash lo ml env name (ucast copies) (fold (report_dir e ?cb f) ?ps RBT.empty)
      = kt_hash lo ml env name (ucast copies) (report_dir e ?cb f (dirpath e name, True) ?kt)"
    unfolding split using other_dirs_keep_hash [OF assms(1), of bs e env name] others by (simp add: ball_Un)
  also have "\<dots> = Some (key_digest e name f XOR keyhash env name)"
    unfolding mine m kt_hash_update(1) [OF assms(1)] before by simp
  finally show ?thesis using g by blast
qed

section \<open>An instance\<close>

lemma meta_at_mem:
  "meta_at mem_lib p s = (if ms_has p s
     then Some (case map_of (mf_attr (ms_file p s)) ''user.md'' of None \<Rightarrow> [] | Some v \<Rightarrow> v) else None)"
proof -
  have "ms_at (int (length (ms_open s))) (snd (ms_fd p s)) = (p, 0)" by (simp add: ms_at_def ms_fd_def)
  then show ?thesis
    by (simp add: meta_at_def FileReader_def fr_open_def mem_lib_def mem_sys_def fr_good_def fr_attribute_def Let_def case_prod_beta)
qed

lemma reading_is_invisible_mem: "reading_is_invisible mem_lib"
proof -
  have "same_view mem_lib f (snd (ms_fd p f))" for p f
    unfolding same_view_def meta_at_mem by (simp add: mem_lib_def mem_list_def mem_below_def ms_fd_def ms_has_def ms_file_def)
  then show ?thesis
    by (simp add: reading_is_invisible_def FileReader_def fr_open_def fr_close_def Let_def case_prod_beta)
      (simp add: mem_lib_def mem_sys_def)
qed

text \<open>One version of \<open>k\<close>, before and after the end of its transfer.\<close>

definition k_file :: mem_file where
  "k_file = \<lparr>mf_data = ''three'', mf_time = 5, mf_attr = [(''user.md'', mdToString (KeyMetadata\<lparr>km_totalCopies := 3\<rparr>))]\<rparr>"

definition k_arriving :: mem_fs where
  "k_arriving = \<lparr>ms_files = [(''/h/k/'' @ name_of ''a'' 2 @ ''~'', k_file)], ms_open = [], ms_now = 7\<rparr>"

definition k_stored :: mem_fs where
  "k_stored = \<lparr>ms_files = [(''/h/k/'' @ name_of ''a'' 2, k_file)], ms_open = [], ms_now = 7\<rparr>"

lemma k_name:
  "version_name (name_of ''a'' 2)" "canonical ref_lib (name_of ''a'' 2)" "CHR ''/'' \<notin> set (name_of ''a'' 2)"
  "\<not> older ref_lib (name_of ''a'' 2) (name_of ''a'' 2)" "CHR '','' \<in> set (name_of ''a'' 2)" "last (name_of ''a'' 2) \<noteq> CHR ''~''"
  using version_name_name_of [of "''a''" 2] name_of_clock [of "''a''" 2] older_name_of [of "''a''" "''a''" 2 2]
  by (simp_all add: is_space_def version_name_def plain_name_def)

lemma k_paths:
  "dirpath mem_env ''k'' = ''/h/k''" "filepath mem_env ''k'' s = ''/h/k/'' @ s" "in_dir ''/h/k'' s = ''/h/k/'' @ s"
  by (simp_all add: filepath_def dirpath_def mem_env_def in_dir_def)

lemma k_versions:
  "fs_versions mem_env ''k'' False k_arriving = []" "fs_versions mem_env ''k'' False k_stored = [name_of ''a'' 2]"
  "mem_list ''/h/k'' k_stored = [name_of ''a'' 2]"
proof -
  have p: "plain_name (name_of ''a'' 2)" "plain_name (name_of ''a'' 2 @ ''~'')"
    using k_name(1) by (auto simp: version_name_def plain_name_def)
  show l: "mem_list ''/h/k'' k_stored = [name_of ''a'' 2]"
    using p by (simp add: mem_list_def mem_below_def k_stored_def has_prefix_def)
  have "mem_list ''/h/k'' k_arriving = [name_of ''a'' 2 @ ''~'']"
    using p by (simp add: mem_list_def mem_below_def k_arriving_def has_prefix_def)
  then show "fs_versions mem_env ''k'' False k_arriving = []"
    by (simp add: fs_versions_def keep_complete k_paths) (simp add: mem_lib_def)
  show "fs_versions mem_env ''k'' False k_stored = [name_of ''a'' 2]"
    using l k_name(5,6) by (simp add: fs_versions_def keep_complete k_paths) (simp add: mem_lib_def)
qed

lemma k_written: "written mem_env ''k'' [ws_digest plain_env (name_of ''a'' 2) 5] k_stored"
proof -
  let ?m = "name_of ''a'' 2" and ?d = "ws_digest plain_env (name_of ''a'' 2) 5"
  let ?md = "KeyMetadata\<lparr>km_version := version_of ref_lib ?m, km_digest := ?d\<rparr>"
  have ren: "fl_rename mem_lib (''/h/k/'' @ ?m @ ''~'') (''/h/k/'' @ ?m) k_arriving = (True, k_stored)"
    by (simp add: mem_lib_def k_arriving_def k_stored_def ms_has_def ms_put_def ms_del_def ms_file_def)
  have v: "vc_fromString ref_lib ?m [] = Inr (True, version_of ref_lib ?m)" "vc_toString ref_lib (version_of ref_lib ?m) = ?m"
    using k_name(2) by (simp_all add: canonical_def)
  have "vl_compare ref_lib (version_of ref_lib ?m) (version_of ref_lib ?m) = EQUAL"
    by (auto simp: ref_lib_def ref_compare_def vclock_le_def clock_le_def)
  then have "purge_marks ref_lib (version_of ref_lib ?m) [?m] [] = Inr []" using v(1) by simp
  then have fin: "fs_onWriteComplete mem_env ''k'' ?md k_arriving = Inr (True, ?md, k_stored)"
    using ren v by (simp add: fs_onWriteComplete_def purgeObsolete_def k_paths k_versions)
  have sz: "fl_size mem_lib (''/h/k/'' @ ?m @ ''~'') k_arriving = 5"
    by (simp add: mem_lib_def k_arriving_def ms_file_def k_file_def)
  have "written mem_env ''k'' ([] @ [km_digest ?md]) k_stored"
    by (rule written.complete [where f = k_arriving and m = ?m and md = ?md])
      (use k_name k_versions fin ren sz in \<open>simp_all add: written.nothing k_paths\<close>)
  then show ?thesis by simp
qed

lemma k_at_rest: "key_at_rest mem_env ''k'' 3 k_stored"
proof -
  let ?m = "name_of ''a'' 2"
  have "\<forall>c \<in> set (rev ?m). c \<noteq> CHR ''/''" using k_name(3) by auto
  then have "takeWhile (\<lambda>c. c \<noteq> CHR ''/'') (rev ?m @ ''/k/h/'') = rev ?m" by (simp add: takeWhile_append)
  then have f: "mem_filename (''/h/k/'' @ ?m) = ?m" by (simp add: mem_filename_def)
  have "meta_at mem_lib (''/h/k/'' @ ?m) k_stored = Some (mdToString (KeyMetadata\<lparr>km_totalCopies := 3\<rparr>))"
    by (simp add: meta_at_mem k_stored_def ms_has_def ms_file_def k_file_def)
  moreover have "fl_entries mem_lib ''/h/k'' k_stored = [(''/h/k/'' @ ?m, False)]" "fl_filename mem_lib = mem_filename"
    using k_versions(3) k_paths(3) by (simp_all add: mem_lib_def)
  ultimately show ?thesis
    using f by (auto simp: key_at_rest_def k_paths k_versions Let_def intro!: exI [of _ "KeyMetadata\<lparr>km_totalCopies := 3\<rparr>"])
qed

lemma k_walk: "walks_keys mem_env plain_env ''k'' k_stored"
proof -
  let ?m = "name_of ''a'' 2"
  have none: "filter (\<lambda>i. (''/h/k/'' @ ?m) ! i = CHR ''/'') [5..<5 + length ?m] = []"
    using k_name(3) by (auto simp: filter_empty_conv nth_append in_set_conv_nth)
  have "[3..<5] = [3, 4 :: nat]" by (simp add: upt_conv_Cons)
  then have range: "[3..<5 + length ?m] = [3, 4] @ [5..<5 + length ?m]"
    using upt_add_eq_append [of 3 5 "length ?m"] by simp
  have ends: "Suc (length ''/h'') = 3" "length (''/h/k/'' @ ?m) = 5 + length ?m" by simp_all
  have "mem_dirs ''/h'' (''/h/k/'' @ ?m) = map (\<lambda>i. take i (''/h/k/'' @ ?m)) (filter (\<lambda>i. (''/h/k/'' @ ?m) ! i = CHR ''/'') [3, 4])"
    unfolding mem_dirs_def ends range filter_append none by simp
  then have "mem_dirs ''/h'' (''/h/k/'' @ ?m) = [''/h/k'']" by simp
  then have "fl_walk mem_lib ''/h'' k_stored = [(''/h/k'', True), (''/h/k/'' @ ?m, False)]"
    by (simp add: mem_lib_def mem_below_def k_stored_def has_prefix_def)
  moreover have "fl_append mem_lib (se_home mem_env) [] = ''/h''" by (simp add: mem_lib_def mem_env_def)
  ultimately show ?thesis by (auto simp: walks_keys_def k_paths intro!: exI [of _ "''k''"])
qed

section \<open>Property\<close>

text \<open>
  C6. A restart brings the trees back: for a key whose writes have been completed one after the other since its
  directory was empty, and none of whose files is a transfer under way, the tabulator that \<^verbatim>\<open>postStart\<close> fills from an
  enumeration of the store holds for the key the very hash that the tabulator of the running process holds after it was
  told of every completed write, so peers compare equal before and after. This spans the completion of writes with what
  it deletes, the enumeration, the metadata kept with the files and the index of that number of copies.
\<close>

theorem restart_rebuilds_hashes:
  assumes "merkle_map ml" "dir_laws (se_files e)" "compare_dual (se_vl e)" "traverses (se_order e)"
    "reading_is_invisible (se_files e)" "written e name ds f" "ds \<noteq> []" "key_at_rest e name copies f"
    "walks_keys e env name f" "op_active_sync opts" "(ucast mirrors :: u8) = ucast copies"
  shows "\<exists>f' kt'. Turbopump_postStart lo ml env (fs_enumerate e) opts f RBT.empty = Inr (f', kt')
     \<and> kt_hash lo ml env name (ucast copies) kt'
         = kt_hash lo ml env name (ucast copies) (fold (\<lambda>d. kt_update lo ml env name d mirrors) ds RBT.empty)"
proof -
  obtain f' kt' where "fs_enumerate e (tree_callback lo ml env) (NOT 0) [] f RBT.empty = Inr (f', kt')"
      "kt_hash lo ml env name (ucast copies) kt' = Some (key_digest e name f XOR keyhash env name)"
    using enumerate_hash [OF assms(1,2,5,8,9)] by blast
  moreover have "kt_hash lo ml env name (ucast copies) (fold (\<lambda>d. kt_update lo ml env name d mirrors) ds RBT.empty)
      = Some (key_digest e name f XOR keyhash env name)"
    unfolding assms(11) [symmetric] kt_hash_updates [OF assms(1,7)] written_digest [OF assms(2-4,6)] by simp
  ultimately show ?thesis using assms(10) by (auto simp: Turbopump_postStart_def tree_callback_def)
qed

theorem restart_rebuilds_hashes_witness:
  "\<exists>f' kt'. Turbopump_postStart low_loc rbt_merkle plain_env (fs_enumerate mem_env) (Options :: unit options) k_stored RBT.empty = Inr (f', kt')
     \<and> kt_hash low_loc rbt_merkle plain_env ''k'' (ucast (3 :: u16)) kt'
         = kt_hash low_loc rbt_merkle plain_env ''k'' (ucast (3 :: u16))
             (fold (\<lambda>d. kt_update low_loc rbt_merkle plain_env ''k'' d 3) [ws_digest plain_env (name_of ''a'' 2) 5] RBT.empty)"
  by (rule restart_rebuilds_hashes)
    (simp_all add: merkle_map_rbt_merkle dir_laws_mem_lib compare_dual_ref_lib traverses_id reading_is_invisible_mem k_written
      k_at_rest k_walk Options_def)

end
