(* ===== verification/Exchange.thy ===== *)
theory Exchange
  imports Restart Server
begin

text \<open>
  The exchange between two peers that repairs a difference: one offers what it has in a range of keys
  (\<^verbatim>\<open>deskew/SkewCorrector\<close>), the other demands what it lacks (\<^verbatim>\<open>api/OfferWriteCommand\<close>), the first sends what is demanded
  (\<^verbatim>\<open>api/DemandWriteCommand\<close>), all through the messages of \<^verbatim>\<open>peer_client/MessageSender\<close> and the table of commands.
\<close>

section \<open>FileStore as the store of the corrector\<close>

text \<open>
  What \<^verbatim>\<open>SkewCorrector\<close> and the commands between peers read of a \<^verbatim>\<open>FileStore\<close>. The file that a read opens is closed when
  the stream is gone, so a read is no change here; an exception for the text of a version counts as not there.
\<close>

definition fs_stored :: "'f store_env \<Rightarrow> string \<Rightarrow> string \<Rightarrow> 'f \<Rightarrow> stored option" where
  "fs_stored e name version f =
     (let sy = fl_sys (se_files e); ro = file_reader_ops sy []
      in case fs_read e name version False f of
           Inl _ \<Rightarrow> None
         | Inr (reader, f) \<Rightarrow>
             (if rs_good ro reader
              then Some \<lparr>sd_size = (case rs_reader reader of None \<Rightarrow> 0 | Some r \<Rightarrow> fr_size sy r f),
                         sd_mirrors = km_totalCopies (rs_md reader)\<rparr>
              else None))"

definition fs_store_ops :: "'f store_env \<Rightarrow> 'f store_ops" where
  "fs_store_ops e =
     \<lparr>so_read = fs_stored e, so_exists = fs_exists e, so_versions = (\<lambda>name. fs_versions e name True),
      so_isExpired = (\<lambda>version f. case fs_isExpired e version of Inl _ \<Rightarrow> False | Inr b \<Rightarrow> b),
      so_remove = fs_remove e\<rparr>"

section \<open>Messages and their commands\<close>

text \<open>What the first frame of a message asks for.\<close>

definition received :: "(command_kind \<Rightarrow> bytes \<Rightarrow> request option) \<Rightarrow> bytes \<Rightarrow> (command_kind \<times> request) option" where
  "received unpack b = (case snd (getNext (DataBuffer b)) of
     None \<Rightarrow> None | Some (cid, m) \<Rightarrow> center_command unpack cid (db_bytes m))"

text \<open>The commands of a peer \<open>origin\<close> that concern the store.\<close>

definition run_message :: "('s, 'c, 'mt) skew_env \<Rightarrow> (command_kind \<Rightarrow> bytes \<Rightarrow> request option) \<Rightarrow> (string \<Rightarrow> nat \<Rightarrow> bool)
    \<Rightarrow> peer \<Rightarrow> bytes \<Rightarrow> ('s, 'c) world \<Rightarrow> ('s, 'c) world" where
  "run_message ev unpack mine origin b w =
     (case received unpack b of
        Some (OfferWriteCommand, OfferReq r) \<Rightarrow> snd (OfferWriteCommand_run ev origin r w)
      | Some (DemandWriteCommand, DemandReq r) \<Rightarrow> snd (DemandWriteCommand_run ev origin r w)
      | Some (KeyRequestCommand, KeyReq r) \<Rightarrow> snd (KeyRequestCommand_run ev origin r w)
      | Some (AckWriteCommand, AckReq r) \<Rightarrow> snd (AckWriteCommand_run ev mine r w)
      | _ \<Rightarrow> w)"

text \<open>The messages of some calls, run one after the other by their receiver.\<close>

definition run_calls :: "('s, 'c, 'mt) skew_env \<Rightarrow> (request \<Rightarrow> bytes) \<Rightarrow> (command_kind \<Rightarrow> bytes \<Rightarrow> request option)
    \<Rightarrow> (string \<Rightarrow> nat \<Rightarrow> bool) \<Rightarrow> peer \<Rightarrow> sender_call list \<Rightarrow> ('s, 'c) world \<Rightarrow> ('s, 'c) world" where
  "run_calls ev mpack unpack mine origin calls =
     fold (\<lambda>c. run_message ev unpack mine origin (fst (snd (message_of mpack c)))) calls"

text \<open>What is sent by a step.\<close>

definition sent_by :: "('s, 'c) world \<Rightarrow> ('s, 'c) world \<Rightarrow> sender_call list" where
  "sent_by w w' = drop (length (wo_sent w)) (wo_sent w')"

text \<open>msgpack gives back what it packed, and the requests fit into a frame.\<close>

definition packs :: "(request \<Rightarrow> bytes) \<Rightarrow> (command_kind \<Rightarrow> bytes \<Rightarrow> request option) \<Rightarrow> request \<Rightarrow> bool" where
  "packs mpack unpack req \<longleftrightarrow> length (mpack req) \<le> 65535
     \<and> (\<forall>kind. api_command_impl (request_id req) = Some kind \<longrightarrow> unpack kind (mpack req) = Some req)"

lemma received_header:
  assumes "packs mpack unpack req" "api_command_impl (request_id req) = Some kind" "request_id req < 256"
  shows "received unpack (reqHeader mpack req) = Some (kind, req)"
proof -
  have "unat (of_nat (request_id req) :: u8) = request_id req" using assms(3) by (simp add: unat_of_nat)
  moreover have "length (mpack req) \<le> 65535" "unpack kind (mpack req) = Some req" using assms by (simp_all add: packs_def)
  moreover have "getNext (DataBuffer (package (of_nat (request_id req)) (mpack req)))
      = (DataBuffer [], Some (of_nat (request_id req), DataBuffer (mpack req)))"
    using getNext_package [of "mpack req" _ "[]"] assms by (simp add: packs_def)
  ultimately show ?thesis
    using assms(2) by (simp add: received_def reqHeader_def center_command_def api_command_def)
qed

section \<open>Offers and demands\<close>

abbreviation offer_of :: "string \<Rightarrow> string \<times> string \<Rightarrow> offer_req" where
  "offer_of source nv \<equiv> \<lparr>of_name = fst nv, of_version = snd nv, of_source = source\<rparr>"

text \<open>The versions of some files, in order.\<close>

definition versions_of :: "('s, 'c, 'mt) skew_env \<Rightarrow> 's \<Rightarrow> string list \<Rightarrow> (string \<times> string) list" where
  "versions_of ev st files = concat (map (\<lambda>n. map (Pair n) (so_versions (sk_ops ev) n st)) files)"

text \<open>\<open>expired_only\<close>: all there is of an entry is one version that has expired.\<close>

definition expired_only :: "('s, 'c, 'mt) skew_env \<Rightarrow> 's \<Rightarrow> string \<Rightarrow> bool" where
  "expired_only ev st n \<longleftrightarrow> length (so_versions (sk_ops ev) n st) = 1
     \<and> so_isExpired (sk_ops ev) (hd (so_versions (sk_ops ev) n st)) st"

lemma push_files:
  assumes "\<forall>n \<in> set files. \<not> expired_only ev (wo_store w) n"
  shows "fold (push_file ev peer source) files w
     = w\<lparr>wo_sent := wo_sent w @ map (\<lambda>nv. OfferWrite peer (fst nv) (snd nv) source) (versions_of ev (wo_store w) files)\<rparr>"
  using assms
proof (induction files arbitrary: w)
  case Nil
  then show ?case by (simp add: versions_of_def)
next
  case (Cons n files)
  let ?w = "w\<lparr>wo_sent := wo_sent w @ map (\<lambda>v. OfferWrite peer n v source) (so_versions (sk_ops ev) n (wo_store w))\<rparr>"
  have "push_file ev peer source n w = ?w"
    using Cons.prems by (auto simp: push_file_def Let_def expired_only_def fold_post)
  then show ?case using Cons by (simp add: versions_of_def comp_def)
qed

lemma push_range:
  assumes "\<forall>n \<in> set files. \<not> expired_only ev (wo_store w) n" "files = dt_enumerate (sk_merkle ev) a b 50 (sk_find_tree ev treeid)"
  shows "pushKeyRange ev peer treeid a b source w
     = w\<lparr>wo_sent := wo_sent w @ map (\<lambda>nv. OfferWrite peer (fst nv) (snd nv) source) (versions_of ev (wo_store w) files)\<rparr>"
  using push_files [OF assms(1)] assms(2) by (auto simp: pushKeyRange_def Let_def versions_of_def)

text \<open>\<^verbatim>\<open>enumerate\<close> stops after as many keys as its limit says.\<close>

lemma collect_files_take:
  "length files < limit \<Longrightarrow> collect_files limit files es = files @ take (limit - length files) (map (snd \<circ> snd) es)"
proof (induction es arbitrary: files)
  case (Cons x es)
  obtain k h f where x: "x = (k, h, f)" by (cases x)
  show ?case
  proof (cases "Suc (length files) < limit")
    case True
    then show ?thesis using Cons.IH [of "files @ [f]"] x by (simp add: Let_def Suc_diff_Suc take_Suc_conv_app_nth flip: Suc_diff_Suc)
  next
    case False
    then have "limit - length files = Suc 0" using Cons.prems by simp
    then show ?thesis using False x by (simp add: Let_def)
  qed
qed simp

lemma enumerate_take: "dt_enumerate ml first final 50 t = take 50 (map (snd \<circ> snd) (dt_forEachInRange ml first final t))"
  by (simp add: dt_enumerate_def collect_files_take)

lemma offer_answered:
  assumes "packs mpack unpack (OfferReq (offer_of source nv))"
  shows "run_message ev unpack mine origin (fst (snd (message_of mpack (OfferWrite peer (fst nv) (snd nv) source)))) w
    = (if so_exists (sk_ops ev) (fst nv) (snd nv) (wo_store w) then w else post (DemandWrite origin (fst nv) (snd nv) source) w)"
  using received_header [OF assms, of OfferWriteCommand]
  by (simp add: run_message_def api_command_impl_def Write_INTERNAL_ID_def OfferWriteCommand_run_def)

lemma offers_answered:
  assumes "\<forall>nv \<in> set nvs. packs mpack unpack (OfferReq (offer_of source nv))"
  shows "run_calls ev mpack unpack mine origin (map (\<lambda>nv. OfferWrite peer (fst nv) (snd nv) source) nvs) w
    = w\<lparr>wo_sent := wo_sent w @ map (\<lambda>nv. DemandWrite origin (fst nv) (snd nv) source)
          (filter (\<lambda>nv. \<not> so_exists (sk_ops ev) (fst nv) (snd nv) (wo_store w)) nvs)\<rparr>"
  using assms
proof (induction nvs arbitrary: w)
  case Nil
  then show ?case by (simp add: run_calls_def)
next
  case (Cons nv nvs)
  then show ?case
    using offer_answered [of mpack unpack nv source ev mine origin peer w]
    by (simp add: run_calls_def post_def)
qed

text \<open>What \<^verbatim>\<open>sendKey\<close> does for one version: the whole of it is given to the supervisor.\<close>

definition send_version :: "('s, 'c, 'mt) skew_env \<Rightarrow> peer \<Rightarrow> string \<Rightarrow> 's \<Rightarrow> string \<times> string \<Rightarrow> 'c \<Rightarrow> 'c" where
  "send_version ev peer source st nv c = (case so_read (sk_ops ev) (fst nv) (snd nv) st of
     None \<Rightarrow> c
   | Some rd \<Rightarrow> snd (sk_supervise ev peer
       (WriteInstructions\<lparr>wr_name := fst nv, wr_copies := sd_mirrors rd, wr_mirror := sd_mirrors rd, wr_version := snd nv,
          wr_source := source, wi_isComplete := True\<rparr>) st c))"

lemma demand_answered:
  assumes "packs mpack unpack (DemandReq (offer_of source nv))" "fst nv \<noteq> []"
  shows "run_message ev unpack mine origin (fst (snd (message_of mpack (DemandWrite peer (fst nv) (snd nv) source)))) w
    = w\<lparr>wo_ctx := send_version ev origin source (wo_store w) nv (wo_ctx w)\<rparr>"
proof -
  have "run_message ev unpack mine origin (fst (snd (message_of mpack (DemandWrite peer (fst nv) (snd nv) source)))) w
      = snd (sendKey ev origin (fst nv) (snd nv) source w)"
    using received_header [OF assms(1), of DemandWriteCommand] assms(2)
    by (simp add: run_message_def api_command_impl_def Write_INTERNAL_ID_def DemandWriteCommand_run_def)
  then show ?thesis
    by (auto simp: sendKey_def send_version_def Let_def split: option.split prod.split)
qed

lemma demands_answered:
  assumes "\<forall>nv \<in> set nvs. packs mpack unpack (DemandReq (offer_of source nv)) \<and> fst nv \<noteq> []"
  shows "run_calls ev mpack unpack mine origin (map (\<lambda>nv. DemandWrite peer (fst nv) (snd nv) source) nvs) w
    = w\<lparr>wo_ctx := fold (send_version ev origin source (wo_store w)) nvs (wo_ctx w)\<rparr>"
  using assms
proof (induction nvs arbitrary: w)
  case Nil
  then show ?case by (simp add: run_calls_def)
next
  case (Cons nv nvs)
  then show ?case
    using demand_answered [of mpack unpack nv source ev mine origin peer w] by (simp add: run_calls_def)
qed

section \<open>Two stores in memory\<close>

text \<open>A peer with one version of \<open>k\<close>, whose supervisor keeps what it is given; and a peer with nothing.\<close>

abbreviation k_version :: string where
  "k_version \<equiv> name_of ''a'' 2"

definition k_tree :: "(u64, u64 \<times> string) rbt digest_tree" where
  "k_tree = dt_add rbt_merkle plain_env ''k'' 1 (dt_null rbt_merkle)"

definition mem_skew :: "(mem_fs, (string \<times> string) list, (u64, u64 \<times> string) rbt) skew_env" where
  "mem_skew = \<lparr>sk_ops = fs_store_ops mem_env, sk_merkle = rbt_merkle, sk_find_tree = (\<lambda>_. k_tree), sk_on_drop = None,
     sk_supervise = (\<lambda>_ write _ c. (True, c @ [(wr_name write, wr_version write)]))\<rparr>"

definition at_rest :: "mem_fs \<Rightarrow> (mem_fs, (string \<times> string) list) world" where
  "at_rest f = \<lparr>wo_store = f, wo_sent = [], wo_ctx = []\<rparr>"

text \<open>A msgpack for the requests of this exchange.\<close>

definition k_range :: request where
  "k_range = KeyReq \<lparr>kq_tree = TreeId_default, kq_first = 0, kq_last = NOT 0\<rparr>"

definition k_unpack :: "command_kind \<Rightarrow> bytes \<Rightarrow> request option" where
  "k_unpack kind b = (case kind of
     KeyRequestCommand \<Rightarrow> Some k_range
   | OfferWriteCommand \<Rightarrow> Some (OfferReq (offer_of [] (''k'', k_version)))
   | DemandWriteCommand \<Rightarrow> Some (DemandReq (offer_of [] (''k'', k_version)))
   | _ \<Rightarrow> None)"

lemma k_packs:
  "packs (\<lambda>_. []) k_unpack k_range"
  "packs (\<lambda>_. []) k_unpack (OfferReq (offer_of [] (''k'', k_version)))"
  "packs (\<lambda>_. []) k_unpack (DemandReq (offer_of [] (''k'', k_version)))"
  by (simp_all add: packs_def k_unpack_def k_range_def api_command_impl_def Write_INTERNAL_ID_def)

lemma k_keys: "map (snd \<circ> snd) (dt_forEachInRange rbt_merkle 0 (NOT 0) k_tree) = [''k'']"
  by (simp add: dt_forEachInRange_def k_tree_def dt_add_def dt_null_def rbt_merkle_def in_range_def
      RBT.entries.rep_eq RBT.insert.rep_eq RBT.empty.rep_eq rbt_insert_def rbt_insert_with_key_def)

lemma k_all_versions: "fs_versions mem_env ''k'' True k_stored = [k_version]" "fs_versions mem_env ''k'' True no_files = []"
proof -
  show "fs_versions mem_env ''k'' True k_stored = [k_version]"
    using k_versions(3) k_name(5,6) by (simp add: fs_versions_def k_paths find_char_None_iff) (simp add: mem_lib_def find_char_None_iff)
  show "fs_versions mem_env ''k'' True no_files = []"
    by (simp add: fs_versions_def mem_lib_def mem_list_def mem_below_def no_files_def)
qed

lemma k_not_expired: "so_isExpired (fs_store_ops mem_env) k_version f = False"
proof -
  have v: "vc_fromString ref_lib k_version [] = Inr (True, version_of ref_lib k_version)"
    using k_name(2) by (simp add: canonical_def)
  have "version_of ref_lib k_version = [\<lparr>ck_key = ''a'', ck_time = 2, ck_count = 0\<rparr>]"
    using name_of_clock(1) [of "''a''" 2] by (simp add: is_space_def)
  then show ?thesis by (simp add: fs_store_ops_def fs_isExpired_def v isExpired_def isDeleted_def)
qed

lemma k_is_stored: "fs_stored mem_env ''k'' k_version k_stored \<noteq> None"
proof -
  have v: "vc_fromString ref_lib k_version [] = Inr (True, version_of ref_lib k_version)"
      "vc_toString ref_lib (version_of ref_lib k_version) = k_version"
    using k_name(2) by (simp_all add: canonical_def)
  have n: "version_of ref_lib k_version \<noteq> []"
    using name_of_clock(1) [of "''a''" 2] by (simp add: is_space_def)
  show ?thesis
    by (simp add: fs_stored_def fs_read_def v n k_paths fr_open_def fr_good_def Let_def rs_good_def file_reader_ops_def case_prod_beta)
      (simp add: mem_lib_def mem_sys_def k_stored_def ms_has_def ms_fd_def)
qed

text \<open>
  The corrector reads an entry without naming a version, which reads the merge of its versions. Of two
  versions that do not succeed each other the merge is stored nowhere, so such an entry is never dropped: not when a peer has
  acknowledged it and it does not belong here.
\<close>

definition two_versions :: mem_fs where
  "two_versions = \<lparr>ms_files = [(''/h/k/'' @ name_of ''a'' 1, mem_text ''one''), (''/h/k/'' @ name_of ''b'' 1, mem_text ''two'')],
     ms_open = [], ms_now = 7\<rparr>"

lemma two_versions_listed: "fs_versions mem_env ''k'' False two_versions = [name_of ''a'' 1, name_of ''b'' 1]"
proof -
  have p: "version_name (name_of ''a'' 1)" "version_name (name_of ''b'' 1)" by (simp_all add: version_name_name_of)
  then have "mem_list ''/h/k'' two_versions = [name_of ''a'' 1, name_of ''b'' 1]"
    using name_of_inj [of "''a''" "''b''" 1 1]
    by (simp add: mem_list_def mem_below_def two_versions_def has_prefix_def version_name_def is_space_def)
  then show ?thesis
    using p by (simp add: fs_versions_def keep_complete k_paths) (simp add: mem_lib_def version_name_def)
qed

lemma two_versions_merged:
  "\<exists>m. fs_mergedVersion mem_env ''k'' False two_versions = Inr m \<and> \<not> ms_has (''/h/k/'' @ vc_toString ref_lib m) two_versions"
proof -
  have v: "version_of ref_lib (name_of ''a'' 1) = [\<lparr>ck_key = ''a'', ck_time = 1, ck_count = 0\<rparr>]"
    "version_of ref_lib (name_of ''b'' 1) = [\<lparr>ck_key = ''b'', ck_time = 1, ck_count = 0\<rparr>]"
    "canonical ref_lib (name_of ''a'' 1)" "canonical ref_lib (name_of ''b'' 1)"
    using name_of_clock [of "''a''" 1] name_of_clock [of "''b''" 1] by (simp_all add: is_space_def)
  define m :: vclock where "m = [\<lparr>ck_key = ''a'', ck_time = 1, ck_count = 0\<rparr>, \<lparr>ck_key = ''b'', ck_time = 1, ck_count = 0\<rparr>]"
  have "merge_versions ref_lib [] [name_of ''a'' 1, name_of ''b'' 1] = Inr m"
    using v unfolding canonical_def by (simp add: ref_lib_def m_def ref_merge_def clock_le_def)
  then have "fs_mergedVersion mem_env ''k'' False two_versions = Inr m"
    by (simp add: fs_mergedVersion_def two_versions_listed)
  moreover have "version_of ref_lib (vc_toString ref_lib m) = m"
    by (rule canonical_toString(1) [OF time_codec_ref_lib]) (simp_all add: m_def printable_clock_def ref_lib_def is_space_def)
  then have "vc_toString ref_lib m \<noteq> name_of ''a'' 1" "vc_toString ref_lib m \<noteq> name_of ''b'' 1"
    using v(1,2) by (auto simp: m_def)
  then have "\<not> ms_has (''/h/k/'' @ vc_toString ref_lib m) two_versions"
    by (simp add: ms_has_def two_versions_def)
  ultimately show ?thesis by blast
qed

lemma concurrent_versions_are_never_dropped:
  "dropKey mem_skew ''k'' (at_rest two_versions) = (False, at_rest two_versions)"
  "ak_name ack = ''k'' \<Longrightarrow> snd (AckWriteCommand_run mem_skew mine ack (at_rest two_versions)) = at_rest two_versions"
proof -
  obtain m where m: "fs_mergedVersion mem_env ''k'' False two_versions = Inr m"
      "\<not> ms_has (''/h/k/'' @ vc_toString ref_lib m) two_versions"
    using two_versions_merged by blast
  have "vc_fromString ref_lib [] [] = Inr (False, [])"
    by (simp add: vc_fromString_def commas_to_spaces_def istream_of_def read_clock_list_def read_unsigned_def skip_ws_def Let_def)
  then have "fs_stored mem_env ''k'' [] two_versions = None"
    using m(2)
    by (simp add: fs_stored_def fs_read_def m(1) k_paths fr_open_def fr_good_def Let_def rs_good_def file_reader_ops_def case_prod_beta)
      (simp add: mem_lib_def mem_sys_def)
  then show d: "dropKey mem_skew ''k'' (at_rest two_versions) = (False, at_rest two_versions)"
    by (simp add: dropKey_def mem_skew_def at_rest_def fs_store_ops_def)
  show "ak_name ack = ''k'' \<Longrightarrow> snd (AckWriteCommand_run mem_skew mine ack (at_rest two_versions)) = at_rest two_versions"
    by (simp add: AckWriteCommand_run_def d split: option.split)
qed

section \<open>Property\<close>

text \<open>
  C7. An exchange sends exactly what is missing of the first 50 keys of a range: a peer that is asked for a range of keys
  offers every version of the entries of those keys (of all keys of the range, if there are no more), the other peer demands the
  versions that it does not have, and the first peer hands to
  the supervisor of writes exactly those, in order, each whole, with the copies it is stored with and marked complete. Neither
  changes its store or sends anything else on the way, and the first peer would answer the same request with the same offers
  again: what lies beyond the first 50 keys is not reached by asking once more. This spans the request for the range, the messages, the
  parser, the table of commands, the commands of both sides and the corrector, given that msgpack gives back what it
  packed and that no entry of those keys has expired.
\<close>

theorem exchange_sends_what_is_missing:
  assumes "keys = map (snd \<circ> snd) (dt_forEachInRange (sk_merkle ea) first final (sk_find_tree ea tree))"
    "nvs = versions_of ea (wo_store wa) (take 50 keys)"
    "missing = filter (\<lambda>nv. \<not> so_exists (sk_ops eb) (fst nv) (snd nv) (wo_store wb)) nvs"
    "\<forall>n \<in> set (take 50 keys). n \<noteq> [] \<and> \<not> expired_only ea (wo_store wa) n"
    "req = KeyReq \<lparr>kq_tree = tree, kq_first = first, kq_last = final\<rparr>" "packs mpack unpack req"
    "\<forall>nv \<in> set nvs. packs mpack unpack (OfferReq (offer_of [] nv)) \<and> packs mpack unpack (DemandReq (offer_of [] nv))"
    "wa1 = run_message ea unpack minea b (reqHeader mpack req) wa"
    "wb1 = run_calls eb mpack unpack mineb a (sent_by wa wa1) wb"
    "wa2 = run_calls ea mpack unpack minea b (sent_by wb wb1) wa1"
  shows "sent_by wa wa1 = map (\<lambda>nv. OfferWrite b (fst nv) (snd nv) []) nvs
    \<and> sent_by wb wb1 = map (\<lambda>nv. DemandWrite a (fst nv) (snd nv) []) missing
    \<and> wo_store wa2 = wo_store wa \<and> wo_store wb1 = wo_store wb \<and> wo_ctx wb1 = wo_ctx wb \<and> wo_sent wa2 = wo_sent wa1
    \<and> sent_by wa2 (run_message ea unpack minea b (reqHeader mpack req) wa2) = sent_by wa wa1
    \<and> wo_ctx wa2 = fold (send_version ea b [] (wo_store wa)) missing (wo_ctx wa)"
proof -
  have asked: "run_message ea unpack minea b (reqHeader mpack req) w
      = w\<lparr>wo_sent := wo_sent w @ map (\<lambda>nv. OfferWrite b (fst nv) (snd nv) []) nvs\<rparr>" if "wo_store w = wo_store wa" for w
  proof -
    have "run_message ea unpack minea b (reqHeader mpack req) w = pushKeyRange ea b tree first final [] w"
      using received_header [OF assms(6), of KeyRequestCommand] assms(5)
      by (simp add: run_message_def api_command_impl_def Write_INTERNAL_ID_def KeyRequestCommand_run_def)
    moreover have "take 50 keys = dt_enumerate (sk_merkle ea) first final 50 (sk_find_tree ea tree)"
      unfolding assms(1) enumerate_take ..
    moreover have "\<forall>n \<in> set (take 50 keys). \<not> expired_only ea (wo_store w) n" using assms(4) that by simp
    ultimately show ?thesis using push_range [of "take 50 keys" ea w] assms(2) that by simp
  qed
  have wa1: "wa1 = wa\<lparr>wo_sent := wo_sent wa @ map (\<lambda>nv. OfferWrite b (fst nv) (snd nv) []) nvs\<rparr>"
    unfolding assms(8) by (rule asked) (rule refl)
  then have s1: "sent_by wa wa1 = map (\<lambda>nv. OfferWrite b (fst nv) (snd nv) []) nvs" by (simp add: sent_by_def)
  have wb1: "wb1 = wb\<lparr>wo_sent := wo_sent wb @ map (\<lambda>nv. DemandWrite a (fst nv) (snd nv) []) missing\<rparr>"
    unfolding assms(9) s1 assms(3) by (rule offers_answered) (use assms(7) in blast)
  then have s2: "sent_by wb wb1 = map (\<lambda>nv. DemandWrite a (fst nv) (snd nv) []) missing" by (simp add: sent_by_def)
  have names: "\<forall>nv \<in> set missing. packs mpack unpack (DemandReq (offer_of [] nv)) \<and> fst nv \<noteq> []"
    using assms(2,3,4,7) by (auto simp: versions_of_def)
  have wa2: "wa2 = wa1\<lparr>wo_ctx := fold (send_version ea b [] (wo_store wa1)) missing (wo_ctx wa1)\<rparr>"
    unfolding assms(10) s2 by (rule demands_answered [OF names])
  then have "sent_by wa2 (run_message ea unpack minea b (reqHeader mpack req) wa2) = sent_by wa wa1"
    using asked [of wa2] wa1 s1 by (simp add: sent_by_def)
  then show ?thesis using s1 s2 wa1 wb1 wa2 by simp
qed

theorem exchange_sends_what_is_missing_witness:
  "let ask = run_message mem_skew k_unpack (\<lambda>_ _. True) (Peer ''you'' []) (reqHeader (\<lambda>_. []) k_range) (at_rest k_stored);
       answer = run_calls mem_skew (\<lambda>_. []) k_unpack (\<lambda>_ _. True) (Peer ''me'' []) (sent_by (at_rest k_stored) ask) (at_rest no_files);
       send = run_calls mem_skew (\<lambda>_. []) k_unpack (\<lambda>_ _. True) (Peer ''you'' []) (sent_by (at_rest no_files) answer) ask
   in wo_ctx send = [(''k'', k_version)]"
proof -
  have nvs: "versions_of mem_skew (wo_store (at_rest k_stored)) [''k''] = [(''k'', k_version)]"
    by (simp add: versions_of_def mem_skew_def at_rest_def fs_store_ops_def k_all_versions)
  have missing: "filter (\<lambda>nv. \<not> so_exists (sk_ops mem_skew) (fst nv) (snd nv) (wo_store (at_rest no_files))) [(''k'', k_version)]
      = [(''k'', k_version)]"
    by (simp add: mem_skew_def at_rest_def fs_store_ops_def fs_exists_def k_all_versions)
  have fresh: "\<not> expired_only mem_skew (wo_store (at_rest k_stored)) ''k''"
    using k_not_expired [of k_stored]
    by (simp add: expired_only_def mem_skew_def at_rest_def) (simp add: fs_store_ops_def k_all_versions)
  have sent: "send_version mem_skew peer [] k_stored (''k'', k_version) [] = [(''k'', k_version)]" for peer
    using k_is_stored by (auto simp: send_version_def mem_skew_def fs_store_ops_def WriteInstructions_def)
  have keys: "map (snd \<circ> snd) (dt_forEachInRange (sk_merkle mem_skew) 0 (NOT 0) (sk_find_tree mem_skew TreeId_default)) = [''k'']"
    using k_keys by (simp add: mem_skew_def)
  show ?thesis
    unfolding Let_def
    using exchange_sends_what_is_missing [OF keys [symmetric] _ missing [symmetric] _ k_range_def k_packs(1) _ refl refl refl,
        where minea = "\<lambda>_ _. True" and b = "Peer ''you'' []" and mineb = "\<lambda>_ _. True" and a = "Peer ''me'' []", THEN conjunct2, THEN conjunct2, THEN conjunct2,
        THEN conjunct2, THEN conjunct2, THEN conjunct2, THEN conjunct2] nvs fresh k_packs(2,3) sent
    by (simp add: at_rest_def)
qed

end
