(* ===== verification/Gossip.thy ===== *)
theory Gossip
  imports Exchange
begin

text \<open>
  From a ping to the exchange: the message with a point of a tree (\<^verbatim>\<open>Synchronizer::pingRandomPeer\<close>), the \<^verbatim>\<open>SyncCommand\<close> that
  compares it, and the requests, offers and demands that follow, until both peers have handed to their supervisors of writes
  what the other one lacks.
\<close>

section \<open>Messages with a payload behind the request\<close>

text \<open>What is left of a packet behind its request is what the command is run with; \<^verbatim>\<open>SyncCommand\<close> alone reads it.\<close>

definition run_ping :: "('s, 'c, 'mt) skew_env \<Rightarrow> (command_kind \<Rightarrow> bytes \<Rightarrow> request option) \<Rightarrow> str_lib \<Rightarrow> nat \<Rightarrow> merkle_point
    \<Rightarrow> peer \<Rightarrow> bytes \<Rightarrow> ('s, 'c) world \<Rightarrow> ('s, 'c) world" where
  "run_ping ev unpack sl kw blank origin b w =
     (case getNext (DataBuffer b) of
        (buff, Some (cid, m)) \<Rightarrow>
          (case center_command unpack cid (db_bytes m) of
             Some (SyncCommand, SyncReq r) \<Rightarrow> snd (SyncCommand_run ev sl kw blank origin r (db_bytes buff) w)
           | _ \<Rightarrow> w)
      | _ \<Rightarrow> w)"

lemma ping_is_compared:
  assumes "packs mpack unpack (SyncReq treeid)" "splits_joins sl" "mp_keybits point < 2 ^ kw"
  shows "run_ping ev unpack sl kw blank origin (fst (snd (message_of mpack (DigestPing peer treeid point)))) w
    = compare ev origin treeid point False w"
proof -
  have "length (mpack (SyncReq treeid)) \<le> 65535" "unpack SyncCommand (mpack (SyncReq treeid)) = Some (SyncReq treeid)"
    using assms(1) by (simp_all add: packs_def api_command_impl_def Write_INTERNAL_ID_def)
  moreover have "SyncCommand_run ev sl kw blank origin treeid (mp_toString point) w = (True, compare ev origin treeid point False w)"
    using split_digest_text [OF assms(2), of "[point]"] sync_points_printed [of "[point]" kw ev blank origin treeid 0 w] assms(3)
      mp_toString_word(1) [of point]
    by (simp add: SyncCommand_run_def)
  ultimately show ?thesis
    using getNext_package [of "mpack (SyncReq treeid)" _ "mp_toString point"]
    by (simp add: run_ping_def reqHeader_def center_command_def api_command_def api_command_impl_def Write_INTERNAL_ID_def)
qed

section \<open>What the calls of both sides lead to\<close>

lemma run_calls_append:
  "run_calls ev mpack unpack mine origin (cs @ ds) w = run_calls ev mpack unpack mine origin ds (run_calls ev mpack unpack mine origin cs w)"
  by (simp add: run_calls_def)

lemma key_request_answered:
  assumes "packs mpack unpack (KeyReq \<lparr>kq_tree = tree, kq_first = key, kq_last = key\<rparr>)"
    "files = dt_enumerate (sk_merkle ev) key key 50 (sk_find_tree ev tree)" "\<forall>n \<in> set files. \<not> expired_only ev (wo_store w) n"
  shows "run_calls ev mpack unpack mine origin [RequestKey peer tree key] w
    = w\<lparr>wo_sent := wo_sent w @ map (\<lambda>nv. OfferWrite origin (fst nv) (snd nv) []) (versions_of ev (wo_store w) files)\<rparr>"
  using received_header [OF assms(1), of KeyRequestCommand] push_range [OF assms(3,2), of origin "[]"]
  by (simp add: run_calls_def run_message_def api_command_impl_def Write_INTERNAL_ID_def KeyRequestCommand_run_def)

lemma leaf_compared:
  assumes "point \<noteq> mk_null (sk_merkle ev)" "dt_diff (sk_merkle ev) point (sk_find_tree ev tree) = d"
    "\<not> dr_no_difference d" "\<not> dr_traverse d" "\<not> dr_need_range d" "\<not> dr_need_partial_range d" "dr_need_exchange d"
    "key = mp_key (hd (dr_points d))" "files = dt_enumerate (sk_merkle ev) key key 50 (sk_find_tree ev tree)"
    "\<forall>n \<in> set files. \<not> expired_only ev (wo_store w) n"
  shows "compare ev peer tree point resp w = w\<lparr>wo_sent := wo_sent w @ RequestKey peer tree key
      # map (\<lambda>nv. OfferWrite peer (fst nv) (snd nv) []) (versions_of ev (wo_store w) files)\<rparr>"
proof -
  let ?w = "post (RequestKey peer tree key) w"
  have "\<forall>n \<in> set files. \<not> expired_only ev (wo_store ?w) n" using assms(10) by (simp add: post_def)
  from push_range [OF this assms(9), of peer "[]"]
  show ?thesis using assms(1-8) by (simp add: compare_def Let_def pushKey_def) (simp add: post_def)
qed

text \<open>Requests for keys, offers and demands, for each version there is to offer.\<close>

abbreviation packs_offers :: "(request \<Rightarrow> bytes) \<Rightarrow> (command_kind \<Rightarrow> bytes \<Rightarrow> request option) \<Rightarrow> (string \<times> string) list \<Rightarrow> bool" where
  "packs_offers mpack unpack nvs \<equiv>
     \<forall>nv \<in> set nvs. packs mpack unpack (OfferReq (offer_of [] nv)) \<and> packs mpack unpack (DemandReq (offer_of [] nv)) \<and> fst nv \<noteq> []"

text \<open>The versions of one store that another one does not have.\<close>

definition missing_at :: "('s, 'c, 'mt) skew_env \<Rightarrow> 's \<Rightarrow> (string \<times> string) list \<Rightarrow> (string \<times> string) list" where
  "missing_at ev st nvs = filter (\<lambda>nv. \<not> so_exists (sk_ops ev) (fst nv) (snd nv) st) nvs"

abbreviation offers_to :: "peer \<Rightarrow> (string \<times> string) list \<Rightarrow> sender_call list" where
  "offers_to peer nvs \<equiv> map (\<lambda>nv. OfferWrite peer (fst nv) (snd nv) []) nvs"

abbreviation demands_to :: "peer \<Rightarrow> (string \<times> string) list \<Rightarrow> sender_call list" where
  "demands_to peer nvs \<equiv> map (\<lambda>nv. DemandWrite peer (fst nv) (snd nv) []) nvs"

lemma offers_demanded:
  assumes "packs_offers mpack unpack nvs"
  shows "run_calls ev mpack unpack mine origin (offers_to peer nvs) w
    = w\<lparr>wo_sent := wo_sent w @ demands_to origin (missing_at ev (wo_store w) nvs)\<rparr>"
  unfolding missing_at_def by (rule offers_answered) (use assms in blast)

lemma demands_sent:
  assumes "packs_offers mpack unpack nvs"
  shows "run_calls ev mpack unpack mine origin (demands_to peer (missing_at ev' st nvs)) w
    = w\<lparr>wo_ctx := fold (send_version ev origin [] (wo_store w)) (missing_at ev' st nvs) (wo_ctx w)\<rparr>"
  by (rule demands_answered) (use assms in \<open>auto simp: missing_at_def\<close>)

section \<open>Two stores in memory with a version each\<close>

abbreviation other_version :: string where
  "other_version \<equiv> name_of ''b'' 1"

definition other_stored :: mem_fs where
  "other_stored = \<lparr>ms_files = [(''/h/k/'' @ other_version, k_file)], ms_open = [], ms_now = 7\<rparr>"

lemma other_name:
  "version_name other_version" "canonical ref_lib other_version" "CHR '','' \<in> set other_version" "last other_version \<noteq> CHR ''~''"
  using version_name_name_of [of "''b''" 1] name_of_clock [of "''b''" 1]
  by (simp_all add: is_space_def version_name_def plain_name_def)

lemma other_versions: "fs_versions mem_env ''k'' True other_stored = [other_version]"
proof -
  have "mem_list ''/h/k'' other_stored = [other_version]"
    using other_name(1) by (simp add: mem_list_def mem_below_def other_stored_def has_prefix_def version_name_def plain_name_def)
  then show ?thesis
    using other_name(3,4) by (simp add: fs_versions_def k_paths find_char_None_iff) (simp add: mem_lib_def find_char_None_iff)
qed

lemma other_not_expired: "so_isExpired (fs_store_ops mem_env) other_version f = False"
proof -
  have v: "vc_fromString ref_lib other_version [] = Inr (True, version_of ref_lib other_version)"
    using other_name(2) by (simp add: canonical_def)
  have "version_of ref_lib other_version = [\<lparr>ck_key = ''b'', ck_time = 1, ck_count = 0\<rparr>]"
    using name_of_clock(1) [of "''b''" 1] by (simp add: is_space_def)
  then show ?thesis by (simp add: fs_store_ops_def fs_isExpired_def v isExpired_def isDeleted_def)
qed

lemma other_is_stored: "fs_stored mem_env ''k'' other_version other_stored \<noteq> None"
proof -
  have v: "vc_fromString ref_lib other_version [] = Inr (True, version_of ref_lib other_version)"
      "vc_toString ref_lib (version_of ref_lib other_version) = other_version"
    using other_name(2) by (simp_all add: canonical_def)
  have n: "version_of ref_lib other_version \<noteq> []"
    using name_of_clock(1) [of "''b''" 1] by (simp add: is_space_def)
  show ?thesis
    by (simp add: fs_stored_def fs_read_def v n k_paths fr_open_def fr_good_def Let_def rs_good_def file_reader_ops_def case_prod_beta)
      (simp add: mem_lib_def mem_sys_def other_stored_def ms_has_def ms_fd_def)
qed

text \<open>Trees in which \<open>k\<close> is the leaf that differs, and a msgpack for the requests about it.\<close>

abbreviation k_key :: u64 where
  "k_key \<equiv> keyhash plain_env ''k''"

abbreviation leaf_point :: merkle_point where
  "leaf_point \<equiv> \<lparr>mp_key = k_key, mp_keybits = 64, mp_hash = 2\<rparr>"

definition leaf_diff :: diff_result where
  "leaf_diff = \<lparr>dr_points = [\<lparr>mp_key = k_key, mp_keybits = 64, mp_hash = 1\<rparr>], dr_no_difference = False,
     dr_traverse = False, dr_need_range = False, dr_need_partial_range = False, dr_need_exchange = True\<rparr>"

definition leaf_merkle :: "(u64, u64 \<times> string) rbt merkle_lib" where
  "leaf_merkle = rbt_merkle\<lparr>mk_diff := (\<lambda>_ _. leaf_diff)\<rparr>"

definition leaf_skew :: "(mem_fs, (string \<times> string) list, (u64, u64 \<times> string) rbt) skew_env" where
  "leaf_skew = mem_skew\<lparr>sk_merkle := leaf_merkle\<rparr>"

definition leaf_pack :: "request \<Rightarrow> bytes" where
  "leaf_pack r = (case r of OfferReq q \<Rightarrow> of_version q | DemandReq q \<Rightarrow> of_version q | _ \<Rightarrow> [])"

definition leaf_request :: request where
  "leaf_request = KeyReq \<lparr>kq_tree = TreeId_default, kq_first = k_key, kq_last = k_key\<rparr>"

definition leaf_unpack :: "command_kind \<Rightarrow> bytes \<Rightarrow> request option" where
  "leaf_unpack kind b = (case kind of
     SyncCommand \<Rightarrow> Some (SyncReq TreeId_default)
   | KeyRequestCommand \<Rightarrow> Some leaf_request
   | OfferWriteCommand \<Rightarrow> Some (OfferReq (offer_of [] (''k'', b)))
   | DemandWriteCommand \<Rightarrow> Some (DemandReq (offer_of [] (''k'', b)))
   | _ \<Rightarrow> None)"

lemma leaf_packs:
  "packs leaf_pack leaf_unpack (SyncReq TreeId_default)" "packs leaf_pack leaf_unpack leaf_request"
  "length v \<le> 65535 \<Longrightarrow> packs_offers leaf_pack leaf_unpack [(''k'', v)]"
  by (simp_all add: packs_def leaf_unpack_def leaf_pack_def leaf_request_def api_command_impl_def Write_INTERNAL_ID_def)

lemma leaf_files: "dt_enumerate leaf_merkle k_key k_key 50 k_tree = [''k'']"
  by (simp add: dt_enumerate_def dt_forEachInRange_def k_tree_def dt_add_def dt_null_def leaf_merkle_def rbt_merkle_def in_range_def
      RBT.entries.rep_eq RBT.insert.rep_eq RBT.empty.rep_eq rbt_insert_def rbt_insert_with_key_def)

lemma leaf_skew_simps:
  "sk_ops leaf_skew = fs_store_ops mem_env" "sk_merkle leaf_skew = leaf_merkle" "sk_find_tree leaf_skew tree = k_tree"
  "sk_supervise leaf_skew = (\<lambda>_ write _ c. (True, c @ [(wr_name write, wr_version write)]))"
  "mk_null leaf_merkle = \<lparr>mp_key = 0, mp_keybits = 0, mp_hash = 0\<rparr>"
  "dt_diff leaf_merkle p t = leaf_diff"
  by (simp_all add: leaf_skew_def mem_skew_def leaf_merkle_def rbt_merkle_def dt_diff_def)

lemma leaf_store:
  "versions_of leaf_skew k_stored [''k''] = [(''k'', k_version)]" "versions_of leaf_skew other_stored [''k''] = [(''k'', other_version)]"
  "\<not> expired_only leaf_skew k_stored ''k''" "\<not> expired_only leaf_skew other_stored ''k''"
  "missing_at leaf_skew other_stored [(''k'', k_version)] = [(''k'', k_version)]"
  "missing_at leaf_skew k_stored [(''k'', other_version)] = [(''k'', other_version)]"
  "send_version leaf_skew peer [] k_stored (''k'', k_version) [] = [(''k'', k_version)]"
  "send_version leaf_skew peer [] other_stored (''k'', other_version) [] = [(''k'', other_version)]"
proof -
  have v: "so_versions (fs_store_ops mem_env) ''k'' k_stored = [k_version]"
      "so_versions (fs_store_ops mem_env) ''k'' other_stored = [other_version]"
    by (simp_all add: fs_store_ops_def k_all_versions other_versions)
  show "versions_of leaf_skew k_stored [''k''] = [(''k'', k_version)]" "versions_of leaf_skew other_stored [''k''] = [(''k'', other_version)]"
    by (simp_all add: versions_of_def leaf_skew_simps v)
  show "\<not> expired_only leaf_skew k_stored ''k''" "\<not> expired_only leaf_skew other_stored ''k''"
    by (simp_all add: expired_only_def leaf_skew_simps v k_not_expired other_not_expired)
  have "k_version \<noteq> other_version" using name_of_inj [of "''a''" "''b''" 2 1] by (simp add: is_space_def)
  then show "missing_at leaf_skew other_stored [(''k'', k_version)] = [(''k'', k_version)]"
    "missing_at leaf_skew k_stored [(''k'', other_version)] = [(''k'', other_version)]"
    by (auto simp: missing_at_def leaf_skew_simps) (simp_all add: fs_store_ops_def fs_exists_def k_all_versions other_versions)
  show "send_version leaf_skew peer [] k_stored (''k'', k_version) [] = [(''k'', k_version)]"
    using k_is_stored by (auto simp: send_version_def leaf_skew_simps fs_store_ops_def WriteInstructions_def)
  show "send_version leaf_skew peer [] other_stored (''k'', other_version) [] = [(''k'', other_version)]"
    using other_is_stored by (auto simp: send_version_def leaf_skew_simps fs_store_ops_def WriteInstructions_def)
qed

lemma leaf_lengths: "length k_version \<le> 65535" "length other_version \<le> 65535"
  by (simp_all add: name_of_text length_nibbles) (simp_all add: show_dec.simps)

section \<open>Property\<close>

text \<open>
  C8. A difference in one key is repaired in both directions by one ping: when the point of a ping leads the receiver to a
  leaf that differs, it asks for that key and offers its own versions of it; the first peer offers its versions and demands
  what it lacks, the receiver demands what it lacks, and each hands to its supervisor of writes exactly the versions that the
  other lacks, in order. After that nothing is sent any more: four rounds of messages are enough, and neither store was changed on the
  way. This spans the sync message with its payload, the comparison, the key request, and the offers and demands of both
  sides, given that msgpack gives back what it packed and that no entry under the key has expired.
\<close>

theorem one_ping_repairs_both_peers:
  assumes ping: "packs mpack unpack (SyncReq tree)" "splits_joins sl" "mp_keybits point < 2 ^ kw" "point \<noteq> mk_null (sk_merkle eb)"
    and diff: "dt_diff (sk_merkle eb) point (sk_find_tree eb tree) = d" "\<not> dr_no_difference d" "\<not> dr_traverse d"
      "\<not> dr_need_range d" "\<not> dr_need_partial_range d" "dr_need_exchange d" "key = mp_key (hd (dr_points d))"
    and key: "packs mpack unpack (KeyReq \<lparr>kq_tree = tree, kq_first = key, kq_last = key\<rparr>)"
    and files: "fa = dt_enumerate (sk_merkle ea) key key 50 (sk_find_tree ea tree)" "\<forall>n \<in> set fa. \<not> expired_only ea (wo_store wa) n"
      "fb = dt_enumerate (sk_merkle eb) key key 50 (sk_find_tree eb tree)" "\<forall>n \<in> set fb. \<not> expired_only eb (wo_store wb) n"
    and offers: "va = versions_of ea (wo_store wa) fa" "vb = versions_of eb (wo_store wb) fb"
      "packs_offers mpack unpack va" "packs_offers mpack unpack vb"
    and steps: "wb1 = run_ping eb unpack sl kw blank a (fst (snd (message_of mpack (DigestPing b tree point)))) wb"
      "wa1 = run_calls ea mpack unpack mine_a b (sent_by wb wb1) wa"
      "wb2 = run_calls eb mpack unpack mine_b a (sent_by wa wa1) wb1"
      "wa2 = run_calls ea mpack unpack mine_a b (sent_by wb1 wb2) wa1"
  shows "wo_store wa2 = wo_store wa \<and> wo_store wb2 = wo_store wb
    \<and> wo_ctx wa2 = fold (send_version ea b [] (wo_store wa)) (missing_at eb (wo_store wb) va) (wo_ctx wa)
    \<and> wo_ctx wb2 = fold (send_version eb a [] (wo_store wb)) (missing_at ea (wo_store wa) vb) (wo_ctx wb)
    \<and> wo_sent wa2 = wo_sent wa1 \<and> sent_by wb1 wb2 = demands_to a (missing_at eb (wo_store wb) va)"
proof -
  have "wb1 = compare eb a tree point False wb" unfolding steps(1) by (rule ping_is_compared [OF ping(1-3)])
  also have "\<dots> = wb\<lparr>wo_sent := wo_sent wb @ RequestKey a tree key # offers_to a vb\<rparr>"
    unfolding offers(2) by (rule leaf_compared [OF ping(4) diff files(3,4)])
  finally have b1: "wb1 = wb\<lparr>wo_sent := wo_sent wb @ RequestKey a tree key # offers_to a vb\<rparr>" .
  then have "sent_by wb wb1 = [RequestKey a tree key] @ offers_to a vb" by (simp add: sent_by_def)
  then have a1: "wa1 = wa\<lparr>wo_sent := wo_sent wa @ offers_to b va @ demands_to b (missing_at ea (wo_store wa) vb)\<rparr>"
    unfolding steps(2) offers(1) by (simp add: run_calls_append key_request_answered [OF key files(1,2)] offers_demanded offers(4)
        del: append.simps)
  then have "sent_by wa wa1 = offers_to b va @ demands_to b (missing_at ea (wo_store wa) vb)" by (simp add: sent_by_def)
  then have b2: "wb2 = wb1\<lparr>wo_sent := wo_sent wb1 @ demands_to a (missing_at eb (wo_store wb1) va),
      wo_ctx := fold (send_version eb a [] (wo_store wb1)) (missing_at ea (wo_store wa) vb) (wo_ctx wb1)\<rparr>"
    unfolding steps(3) by (simp add: run_calls_append offers_demanded [OF offers(3)] demands_sent [OF offers(4)])
  then have s: "sent_by wb1 wb2 = demands_to a (missing_at eb (wo_store wb) va)" using b1 by (simp add: sent_by_def)
  then have "wa2 = wa1\<lparr>wo_ctx := fold (send_version ea b [] (wo_store wa1)) (missing_at eb (wo_store wb) va) (wo_ctx wa1)\<rparr>"
    unfolding steps(4) by (simp add: demands_sent [OF offers(3)])
  then show ?thesis using a1 b1 b2 s by simp
qed

theorem one_ping_repairs_both_peers_witness:
  "let wa = at_rest k_stored; wb = at_rest other_stored; point = leaf_point;
       wb1 = run_ping leaf_skew leaf_unpack list_str 16 point (Peer ''me'' [])
         (fst (snd (message_of leaf_pack (DigestPing (Peer ''you'' []) TreeId_default point)))) wb;
       wa1 = run_calls leaf_skew leaf_pack leaf_unpack (\<lambda>_ _. True) (Peer ''you'' []) (sent_by wb wb1) wa;
       wb2 = run_calls leaf_skew leaf_pack leaf_unpack (\<lambda>_ _. True) (Peer ''me'' []) (sent_by wa wa1) wb1;
       wa2 = run_calls leaf_skew leaf_pack leaf_unpack (\<lambda>_ _. True) (Peer ''you'' []) (sent_by wb1 wb2) wa1
   in wo_ctx wa2 = [(''k'', k_version)] \<and> wo_ctx wb2 = [(''k'', other_version)]"
proof -
  have files: "[''k''] = dt_enumerate (sk_merkle leaf_skew) k_key k_key 50 (sk_find_tree leaf_skew TreeId_default)"
    using leaf_files by (simp add: leaf_skew_simps)
  have fresh: "\<forall>n \<in> set [''k'']. \<not> expired_only leaf_skew (wo_store (at_rest k_stored)) n"
      "\<forall>n \<in> set [''k'']. \<not> expired_only leaf_skew (wo_store (at_rest other_stored)) n"
    using leaf_store(3,4) by (simp_all add: at_rest_def)
  have offered: "[(''k'', k_version)] = versions_of leaf_skew (wo_store (at_rest k_stored)) [''k'']"
      "[(''k'', other_version)] = versions_of leaf_skew (wo_store (at_rest other_stored)) [''k'']"
    using leaf_store(1,2) by (simp_all add: at_rest_def)
  have point: "mp_keybits leaf_point < 2 ^ 16" "leaf_point \<noteq> mk_null (sk_merkle leaf_skew)"
      "dt_diff (sk_merkle leaf_skew) leaf_point (sk_find_tree leaf_skew TreeId_default) = leaf_diff" "\<not> dr_no_difference leaf_diff"
      "\<not> dr_traverse leaf_diff" "\<not> dr_need_range leaf_diff" "\<not> dr_need_partial_range leaf_diff" "dr_need_exchange leaf_diff"
      "k_key = mp_key (hd (dr_points leaf_diff))"
    by (simp_all add: leaf_skew_simps) (simp_all add: leaf_diff_def)
  have kept: "fold (send_version leaf_skew (Peer ''you'' []) [] (wo_store (at_rest k_stored)))
        (missing_at leaf_skew (wo_store (at_rest other_stored)) [(''k'', k_version)]) (wo_ctx (at_rest k_stored)) = [(''k'', k_version)]"
      "fold (send_version leaf_skew (Peer ''me'' []) [] (wo_store (at_rest other_stored)))
        (missing_at leaf_skew (wo_store (at_rest k_stored)) [(''k'', other_version)]) (wo_ctx (at_rest other_stored)) = [(''k'', other_version)]"
    by (simp_all add: at_rest_def leaf_store)
  note ping = one_ping_repairs_both_peers [where blank = leaf_point and a = "Peer ''me'' []" and b = "Peer ''you'' []"
      and mine_a = "\<lambda>_ _. True" and mine_b = "\<lambda>_ _. True",
      OF leaf_packs(1) splits_joins_list_str point leaf_packs(2) [unfolded leaf_request_def] files fresh(1) files fresh(2) offered
      leaf_packs(3) [OF leaf_lengths(1)] leaf_packs(3) [OF leaf_lengths(2)] refl refl refl refl]
  show ?thesis
    unfolding Let_def using ping unfolding kept by blast
qed

end
