(* ===== verification/Layout.thy ===== *)
theory Layout
  imports Exchange
begin

text \<open>
  What goes into a request and in which order: the \<^verbatim>\<open>SERIALIZE\<close> lines of the classes of \<^verbatim>\<open>api/\<close>, from which
  \<^verbatim>\<open>MSGPACK_DEFINE\<close> packs the members as an array and finds them again. What msgpack makes of such an array is
  a parameter.
\<close>

section \<open>The members\<close>

datatype member = Text string | Num int | Flag bool

text \<open>The \<^verbatim>\<open>SERIALIZE\<close> line of each class. A subclass lists the members of its base again, before its own.\<close>

definition Write_members :: "'a write_req_scheme \<Rightarrow> member list" where
  "Write_members r = [Text (wr_name r), Text (wr_version r), Num (sint (wr_mirror r)), Num (sint (wr_copies r)), Num (uint (wr_offset r)),
     Text (wr_source r)]"

definition Copy_members :: "copy_req \<Rightarrow> member list" where
  "Copy_members r = [Text (wr_name r), Text (wr_version r), Num (sint (wr_mirror r)), Num (sint (wr_copies r)), Num (uint (wr_offset r)),
     Text (wr_source r), Text (cp_path r)]"

definition Read_members :: "named_req \<Rightarrow> member list" where
  "Read_members r = [Text (nr_name r), Text (nr_version r)]"

definition Delete_members :: "named_req \<Rightarrow> member list" where
  "Delete_members r = [Text (nr_name r), Text (nr_version r)]"

definition Wait_members :: "named_req \<Rightarrow> member list" where
  "Wait_members r = [Text (nr_name r), Text (nr_version r)]"

definition Drop_members :: "drop_req \<Rightarrow> member list" where
  "Drop_members r = [Text (dq_name r), Num (sint (dq_copies r))]"

definition ListKeys_members :: "list_keys_req \<Rightarrow> member list" where
  "ListKeys_members r = [Flag (lk_all r), Flag (lk_deleted r), Num (uint (lk_limit r)), Text (lk_prefix r)]"

definition AddPeer_members :: "add_peer_req \<Rightarrow> member list" where
  "AddPeer_members r = [Text (ap_uid r), Text (ap_ip r)]"

definition RemovePeer_members :: "string \<Rightarrow> member list" where
  "RemovePeer_members uid = [Text uid]"

definition Status_members :: "string \<Rightarrow> member list" where
  "Status_members view = [Text view]"

definition Sync_members :: "tree_id \<Rightarrow> member list" where
  "Sync_members t = [Text (ti_id t), Num (uint (ti_mirrors t))]"

definition KeyRequest_members :: "key_req \<Rightarrow> member list" where
  "KeyRequest_members r = [Text (ti_id (kq_tree r)), Num (uint (ti_mirrors (kq_tree r))), Num (uint (kq_first r)), Num (uint (kq_last r))]"

definition OfferWrite_members :: "offer_req \<Rightarrow> member list" where
  "OfferWrite_members r = [Text (of_name r), Text (of_version r), Text (of_source r)]"

definition DemandWrite_members :: "offer_req \<Rightarrow> member list" where
  "DemandWrite_members r = [Text (of_name r), Text (of_version r), Text (of_source r)]"

definition AckWrite_members :: "ack_req \<Rightarrow> member list" where
  "AckWrite_members r = [Text (ak_name r), Text (ak_version r), Num (uint (ak_size r))]"

lemmas members_defs = Write_members_def Copy_members_def Read_members_def Delete_members_def Wait_members_def Drop_members_def
  ListKeys_members_def AddPeer_members_def RemovePeer_members_def Status_members_def Sync_members_def KeyRequest_members_def
  OfferWrite_members_def DemandWrite_members_def AckWrite_members_def

fun members :: "request \<Rightarrow> member list" where
  "members (WriteReq r) = Write_members r"
| "members (CopyReq r) = Copy_members r"
| "members (ReadReq r) = Read_members r"
| "members (DeleteReq r) = Delete_members r"
| "members (WaitReq r) = Wait_members r"
| "members (DropReq r) = Drop_members r"
| "members (ListKeysReq r) = ListKeys_members r"
| "members (AddPeerReq r) = AddPeer_members r"
| "members (RemovePeerReq uid) = RemovePeer_members uid"
| "members (StatusReq view) = Status_members view"
| "members (SyncReq t) = Sync_members t"
| "members (KeyReq r) = KeyRequest_members r"
| "members (OfferReq r) = OfferWrite_members r"
| "members (DemandReq r) = DemandWrite_members r"
| "members (AckReq r) = AckWrite_members r"

text \<open>Members of the same shape.\<close>

fun text1 :: "(string \<Rightarrow> request) \<Rightarrow> member list \<Rightarrow> request option" where
  "text1 g [Text a] = Some (g a)"
| "text1 g _ = None"

fun text2 :: "(string \<Rightarrow> string \<Rightarrow> request) \<Rightarrow> member list \<Rightarrow> request option" where
  "text2 g [Text a, Text b] = Some (g a b)"
| "text2 g _ = None"

fun text3 :: "(string \<Rightarrow> string \<Rightarrow> string \<Rightarrow> request) \<Rightarrow> member list \<Rightarrow> request option" where
  "text3 g [Text a, Text b, Text c] = Some (g a b c)"
| "text3 g _ = None"

fun text_num :: "(string \<Rightarrow> int \<Rightarrow> request) \<Rightarrow> member list \<Rightarrow> request option" where
  "text_num g [Text a, Num n] = Some (g a n)"
| "text_num g _ = None"

fun write_of :: "member list \<Rightarrow> (write_req \<times> member list) option" where
  "write_of (Text n # Text v # Num m # Num c # Num off # Text s # vs) =
     Some (\<lparr>wr_name = n, wr_version = v, wr_mirror = of_int m, wr_copies = of_int c, wr_offset = of_int off, wr_source = s\<rparr>, vs)"
| "write_of _ = None"

fun list_keys_of :: "member list \<Rightarrow> request option" where
  "list_keys_of [Flag a, Flag d, Num l, Text p] = Some (ListKeysReq \<lparr>lk_all = a, lk_deleted = d, lk_limit = of_int l, lk_prefix = p\<rparr>)"
| "list_keys_of _ = None"

fun key_req_of :: "member list \<Rightarrow> request option" where
  "key_req_of [Text i, Num m, Num a, Num b] =
     Some (KeyReq \<lparr>kq_tree = \<lparr>ti_id = i, ti_mirrors = of_int m\<rparr>, kq_first = of_int a, kq_last = of_int b\<rparr>)"
| "key_req_of _ = None"

fun ack_of :: "member list \<Rightarrow> request option" where
  "ack_of [Text n, Text v, Num len] = Some (AckReq \<lparr>ak_name = n, ak_version = v, ak_size = of_int len\<rparr>)"
| "ack_of _ = None"

text \<open>The request of a command, with the members that were found. Arrays of another shape are left out.\<close>

fun request_of :: "command_kind \<Rightarrow> member list \<Rightarrow> request option" where
  "request_of (WriteCommand _) vs = (case write_of vs of Some (r, []) \<Rightarrow> Some (WriteReq r) | _ \<Rightarrow> None)"
| "request_of (CopyCommand _) vs = (case write_of vs of
      Some (r, [Text p]) \<Rightarrow> Some (CopyReq (write_req.extend r (copy_req.fields p))) | _ \<Rightarrow> None)"
| "request_of ReadCommand vs = text2 (\<lambda>n v. ReadReq \<lparr>nr_name = n, nr_version = v\<rparr>) vs"
| "request_of DeleteCommand vs = text2 (\<lambda>n v. DeleteReq \<lparr>nr_name = n, nr_version = v\<rparr>) vs"
| "request_of WaitCommand vs = text2 (\<lambda>n v. WaitReq \<lparr>nr_name = n, nr_version = v\<rparr>) vs"
| "request_of DropCommand vs = text_num (\<lambda>n c. DropReq \<lparr>dq_name = n, dq_copies = of_int c\<rparr>) vs"
| "request_of ListKeysCommand vs = list_keys_of vs"
| "request_of AddPeerCommand vs = text2 (\<lambda>u ip. AddPeerReq \<lparr>ap_uid = u, ap_ip = ip\<rparr>) vs"
| "request_of RemovePeerCommand vs = text1 RemovePeerReq vs"
| "request_of (StatusCommand _) vs = text1 StatusReq vs"
| "request_of SyncCommand vs = text_num (\<lambda>i m. SyncReq \<lparr>ti_id = i, ti_mirrors = of_int m\<rparr>) vs"
| "request_of KeyRequestCommand vs = key_req_of vs"
| "request_of OfferWriteCommand vs = text3 (\<lambda>n v s. OfferReq \<lparr>of_name = n, of_version = v, of_source = s\<rparr>) vs"
| "request_of DemandWriteCommand vs = text3 (\<lambda>n v s. DemandReq \<lparr>of_name = n, of_version = v, of_source = s\<rparr>) vs"
| "request_of AckWriteCommand vs = ack_of vs"

definition pack_request :: "(member list \<Rightarrow> bytes) \<Rightarrow> request \<Rightarrow> bytes" where
  "pack_request mp req = mp (members req)"

definition unpack_request :: "(bytes \<Rightarrow> member list option) \<Rightarrow> command_kind \<Rightarrow> bytes \<Rightarrow> request option" where
  "unpack_request mu kind b = Option.bind (mu b) (request_of kind)"

lemma request_of_members:
  assumes "api_command_impl (request_id req) = Some kind"
  shows "request_of kind (members req) = Some req"
  using assms
  by (cases req) (auto simp: api_command_impl_def Write_INTERNAL_ID_def members_defs write_req.extend_def copy_req.fields_def)

lemma mirror_request_of_members: "request_of (WriteCommand h) (members (WriteReq req)) = Some (WriteReq req)"
  by (simp add: members_defs)

lemma every_request_has_a_command: "\<exists>kind. api_command_impl (request_id req) = Some kind" "request_id req < 256"
  by (cases req; simp add: api_command_impl_def Write_INTERNAL_ID_def)+

lemma layout_packs:
  assumes "mu (mp (members req)) = Some (members req)" "length (mp (members req)) \<le> 65535"
  shows "packs (pack_request mp) (unpack_request mu) req"
  using assms request_of_members by (simp add: packs_def pack_request_def unpack_request_def)

section \<open>Property\<close>

text \<open>
  C40. A request arrives as it was sent: packed with the members of its class in their order and put into a frame under the id of
  its class, it is found by the command that the table has for this id, with every member as it was; and the same write under
  its internal id is found by the command for writes of peers. (Given that msgpack gives back the array that it packed,
  and that the request fits into a frame.)
\<close>

theorem requests_arrive_as_sent:
  assumes "mu (mp (members req)) = Some (members req)" "length (mp (members req)) \<le> 65535"
  shows "\<exists>kind. api_command_impl (request_id req) = Some kind
     \<and> received (unpack_request mu) (reqHeader (pack_request mp) req) = Some (kind, req)
     \<and> (\<forall>r. req = WriteReq r \<longrightarrow> received (unpack_request mu) (package (of_nat Write_INTERNAL_ID) (pack_request mp req))
          = Some (WriteCommand WhenMirrorWriteFinishes, req))"
proof -
  obtain kind where kind: "api_command_impl (request_id req) = Some kind" using every_request_has_a_command(1) by blast
  have "received (unpack_request mu) (reqHeader (pack_request mp) req) = Some (kind, req)"
    by (rule received_header [OF layout_packs [of mu mp req, OF assms] kind every_request_has_a_command(2)])
  moreover have "received (unpack_request mu) (package (of_nat Write_INTERNAL_ID) (pack_request mp req))
      = Some (WriteCommand WhenMirrorWriteFinishes, req)" if "req = WriteReq r" for r
  proof -
    have "getNext (DataBuffer (package (of_nat Write_INTERNAL_ID) (pack_request mp req)))
        = (DataBuffer [], Some (of_nat Write_INTERNAL_ID, DataBuffer (pack_request mp req)))"
      using getNext_package [of "pack_request mp req" _ "[]"] assms(2) by (simp add: pack_request_def)
    moreover have "api_command_impl (unat (of_nat Write_INTERNAL_ID :: u8)) = Some (WriteCommand WhenMirrorWriteFinishes)"
      by (simp add: Write_INTERNAL_ID_def api_command_impl_def)
    ultimately show ?thesis
      using assms(1) mirror_request_of_members that
      by (simp add: received_def center_command_def api_command_def unpack_request_def pack_request_def)
  qed
  ultimately show ?thesis using kind by blast
qed

definition a_write :: request where
  "a_write = WriteReq (Write\<lparr>wr_name := ''k'', wr_offset := 7\<rparr>)"

theorem requests_arrive_as_sent_witness:
  "received (unpack_request (\<lambda>_. Some (members a_write))) (package (of_nat Write_INTERNAL_ID) (pack_request (\<lambda>vs. ''12'') a_write))
     = Some (WriteCommand WhenMirrorWriteFinishes, a_write)"
  using requests_arrive_as_sent [of "\<lambda>_. Some (members a_write)" "\<lambda>vs. ''12''" a_write]
  by (auto simp: a_write_def)

end
