(* ===== verification/Multiplexing.thy ===== *)
theory Multiplexing
  imports Mirroring
begin

text \<open>
  Several streams on one connection: writers on the other side cut their data into frames under different ids,
  \<^verbatim>\<open>peer_server/BufferedConnectionWriter\<close> puts the frames into the connection in any order, and the \<^verbatim>\<open>PeerCommandRunner\<close>
  leads each to the command of its id.
\<close>

section \<open>Sinks that do not touch each other\<close>

text \<open>\<open>dest\<close> says which file a writer is for; writers of different files leave each other alone.\<close>

locale separate_sinks = byte_sink wo ro content ok
  for wo :: "('w, 'r, 'f) writer_ops" and ro :: "('r, 'f) reader_ops" and content :: "'w \<Rightarrow> 'f \<Rightarrow> bytes" and ok :: "'w \<Rightarrow> 'f \<Rightarrow> bool" +
  fixes dest :: "'w \<Rightarrow> 'n"
  assumes same_file: "iw_write wo b w f = (w', f') \<Longrightarrow> dest w' = dest w" "iw_flush wo w f = (r, w', f') \<Longrightarrow> dest w' = dest w"
    and write_apart: "ok w f \<Longrightarrow> ok v f \<Longrightarrow> dest v \<noteq> dest w \<Longrightarrow> iw_write wo b w f = (w', f')
      \<Longrightarrow> ok v f' \<and> content v f' = content v f"
    and flush_apart: "ok w f \<Longrightarrow> ok v f \<Longrightarrow> dest v \<noteq> dest w \<Longrightarrow> iw_flush wo w f = (r, w', f')
      \<Longrightarrow> ok v f' \<and> content v f' = content v f"
    and reader_apart: "ok w f \<Longrightarrow> ok v f \<Longrightarrow> dest v \<noteq> dest w \<Longrightarrow> iw_reader wo w f = (rd, f')
      \<Longrightarrow> ok v f' \<and> content v f' = content v f"
begin

text \<open>A writer, with the others as they are.\<close>

definition among :: "'n \<Rightarrow> 'i set \<Rightarrow> ('i \<Rightarrow> 'w) \<Rightarrow> ('i \<Rightarrow> bytes) \<Rightarrow> 'w \<Rightarrow> 'f \<Rightarrow> bool" where
  "among n J v c w f \<longleftrightarrow> ok w f \<and> dest w = n \<and> (\<forall>j \<in> J. ok (v j) f \<and> dest (v j) \<noteq> n \<and> content (v j) f = c j)"

lemma sink_among: "byte_sink wo ro content (among n J v c)"
proof
  fix w f b w' f' r rd
  assume ok: "among n J v c w f"
  {
    assume "iw_write wo b w f = (w', f')"
    then show "among n J v c w' f' \<and> content w' f' = content w f @ b"
      using ok write_appends same_file(1) write_apart unfolding among_def by metis
  next
    assume "iw_flush wo w f = (r, w', f')"
    then show "r \<and> among n J v c w' f' \<and> content w' f' = content w f"
      using ok flush_keeps same_file(2) flush_apart unfolding among_def by metis
  next
    assume "iw_reader wo w f = (rd, f')"
    then show "ir_good ro rd \<and> among n J v c w f' \<and> content w f' = content w f"
      using ok reader_keeps reader_apart unfolding among_def by metis
  }
qed

lemma quiet_among: "quiet content ok h \<Longrightarrow> quiet content (among n J v c) h"
  unfolding quiet_def among_def by (auto split: option.splits; metis)

end

section \<open>Streams of one connection\<close>

text \<open>The streams \<open>I\<close> are being written: \<open>c i\<close> is what the file \<open>p i\<close> of stream \<open>i\<close> holds so far.\<close>

definition streams_at :: "('w \<Rightarrow> 'f \<Rightarrow> bytes) \<Rightarrow> ('w \<Rightarrow> 'f \<Rightarrow> bool) \<Rightarrow> ('w \<Rightarrow> 'n) \<Rightarrow> (u8 \<Rightarrow> 'n) \<Rightarrow> hook \<Rightarrow> u8 set
    \<Rightarrow> (u8 \<rightharpoonup> ('w, 'f) write_command + 'o) \<Rightarrow> 'f \<Rightarrow> (u8 \<Rightarrow> bytes) \<Rightarrow> bool" where
  "streams_at content ok dest p h I commands f c \<longleftrightarrow> inj_on p I \<and>
     (\<forall>i \<in> I. \<exists>cmd. commands i = Some (Inl cmd) \<and> wm_onCommit cmd = h \<and> wm_bytes cmd \<le> 0x10000
        \<and> writing content (\<lambda>w f. ok w f \<and> dest w = p i) cmd f (c i))"

context separate_sinks
begin

lemma packet_of_stream:
  assumes "ce_wo ce = wo" "ce_ro ce = ro" "quiet content ok (hook_of ce h)" "streams_at content ok dest p h I commands f c"
    "i \<in> I" "d \<noteq> []" "length d \<le> 0x10000"
  obtains cmd f' where "run_packet (mirror_ops ce unpack others) peer (i, DataBuffer d) (commands, f) = Inr (commands(i \<mapsto> Inl cmd), f')"
    "streams_at content ok dest p h I (commands(i \<mapsto> Inl cmd)) f' (c(i := c i @ d))"
proof -
  have inj: "inj_on p I" using assms(4) by (simp add: streams_at_def)
  have all: "\<forall>j \<in> I. \<exists>cmd w. commands j = Some (Inl cmd) \<and> wm_onCommit cmd = h \<and> wm_bytes cmd \<le> 0x10000
      \<and> wm_started cmd \<and> \<not> wm_finished cmd \<and> \<not> wi_isComplete (wm_instructions cmd)
      \<and> ws_writer (wm_writer cmd) = Some w \<and> ok w f \<and> dest w = p j \<and> content w f = c j"
    using assms(4) unfolding streams_at_def writing_def by blast
  then obtain cm v where cm: "\<forall>j \<in> I. commands j = Some (Inl (cm j)) \<and> wm_onCommit (cm j) = h \<and> wm_bytes (cm j) \<le> 0x10000
      \<and> wm_started (cm j) \<and> \<not> wm_finished (cm j) \<and> \<not> wi_isComplete (wm_instructions (cm j))
      \<and> ws_writer (wm_writer (cm j)) = Some (v j) \<and> ok (v j) f \<and> dest (v j) = p j \<and> content (v j) f = c j"
    by metis
  let ?J = "I - {i}"
  let ?ok = "among (p i) ?J v c"
  have "\<forall>j \<in> ?J. p j \<noteq> p i" using inj assms(5) by (auto dest: inj_onD)
  then have "?ok (v i) f" using cm assms(5) unfolding among_def by auto
  then have w: "writing content ?ok (cm i) f (c i)" using cm assms(5) by (auto simp: writing_def)
  have q: "quiet content ?ok (hook_of ce (wm_onCommit (cm i)))" using quiet_among [OF assms(3)] cm assms(5) by simp
  have b: "wm_bytes (cm i) \<le> 0x10000" using cm assms(5) by simp
  obtain cmd f' where r: "WriteCommand_run ce d (cm i) f = Inr (True, cmd, f')" "writing content ?ok cmd f' (c i @ d)"
      "wm_bytes cmd \<le> 0x10000" "wm_onCommit cmd = wm_onCommit (cm i)"
    using byte_sink.chunk_appends [OF sink_among assms(1,2) w q b assms(6,7)] by blast
  have run: "run_packet (mirror_ops ce unpack others) peer (i, DataBuffer d) (commands, f) = Inr (commands(i \<mapsto> Inl cmd), f')"
    using r(1) cm assms(5) by (simp add: run_packet_def mirror_ops_def)
  have "\<forall>j \<in> ?J. ok (v j) f' \<and> content (v j) f' = c j" using r(2) by (auto simp: writing_def among_def)
  then have "\<forall>j \<in> ?J. writing content (\<lambda>w f. ok w f \<and> dest w = p j) (cm j) f' (c j)" using cm by (auto simp: writing_def)
  moreover have "writing content (\<lambda>w f. ok w f \<and> dest w = p i) cmd f' (c i @ d)" using r(2) by (auto simp: writing_def among_def)
  ultimately have "streams_at content ok dest p h I (commands(i \<mapsto> Inl cmd)) f' (c(i := c i @ d))"
    unfolding streams_at_def using inj cm r(3,4) assms(5) by auto
  then show thesis using that run by blast
qed

lemma packets_of_streams:
  assumes "ce_wo ce = wo" "ce_ro ce = ro" "quiet content ok (hook_of ce h)" "streams_at content ok dest p h I commands f c"
    "\<forall>(i, d) \<in> set ps. i \<in> I \<and> d \<noteq> [] \<and> length d \<le> 0x10000"
  shows "\<exists>commands' f'. run_packets (mirror_ops ce unpack others) peer (map (\<lambda>(i, d). (i, DataBuffer d)) ps) (commands, f) = Inr (commands', f')
     \<and> streams_at content ok dest p h I commands' f' (\<lambda>i. c i @ concat (map snd (filter (\<lambda>x. fst x = i) ps)))
     \<and> (\<forall>i. i \<notin> I \<longrightarrow> commands' i = commands i)"
  using assms(4,5)
proof (induction ps arbitrary: commands f c)
  case Nil
  then show ?case by simp
next
  case (Cons x ps)
  obtain i d where x: "x = (i, d)" by fastforce
  have i: "i \<in> I" "d \<noteq> []" "length d \<le> 0x10000" using Cons.prems(2) x by auto
  obtain cmd f1 where s: "run_packet (mirror_ops ce unpack others) peer (i, DataBuffer d) (commands, f) = Inr (commands(i \<mapsto> Inl cmd), f1)"
    "streams_at content ok dest p h I (commands(i \<mapsto> Inl cmd)) f1 (c(i := c i @ d))"
    by (rule packet_of_stream [OF assms(1-3) Cons.prems(1) i])
  have "\<forall>(i, d) \<in> set ps. i \<in> I \<and> d \<noteq> [] \<and> length d \<le> 0x10000" using Cons.prems(2) by simp
  then obtain commands' f' where r: "run_packets (mirror_ops ce unpack others) peer (map (\<lambda>(i, d). (i, DataBuffer d)) ps) (commands(i \<mapsto> Inl cmd), f1)
       = Inr (commands', f')"
     "streams_at content ok dest p h I commands' f' (\<lambda>j. (c(i := c i @ d)) j @ concat (map snd (filter (\<lambda>x. fst x = j) ps)))"
     "\<forall>j. j \<notin> I \<longrightarrow> commands' j = (commands(i \<mapsto> Inl cmd)) j"
    using Cons.IH [OF s(2)] by blast
  have "(\<lambda>j. (c(i := c i @ d)) j @ concat (map snd (filter (\<lambda>x. fst x = j) ps)))
      = (\<lambda>j. c j @ concat (map snd (filter (\<lambda>y. fst y = j) (x # ps))))"
    using x by auto
  then show ?case using s(1) r i(1) x by (intro exI [of _ commands'] exI [of _ f']) auto
qed

end

section \<open>The files in memory\<close>

lemma ms_at_elsewhere: "0 \<le> fd \<Longrightarrow> 0 \<le> fd' \<Longrightarrow> fd' \<noteq> fd \<Longrightarrow> ms_at fd' (ms_move fd pos s) = ms_at fd' s"
  by (simp add: ms_at_def ms_move_def nth_list_update)

interpretation mem_files: separate_sinks "file_writer_ops mem_sys" "file_reader_ops mem_sys []" mem_content mem_ok fw_filename
proof
  fix w v w' :: file_writer and f f' :: mem_fs and r :: bool and rd :: file_reader and b :: bytes
  show "iw_write (file_writer_ops mem_sys) b w f = (w', f') \<Longrightarrow> fw_filename w' = fw_filename w"
    "iw_flush (file_writer_ops mem_sys) w f = (r, w', f') \<Longrightarrow> fw_filename w' = fw_filename w"
    by (simp_all add: file_writer_ops_def fw_write_def fw_flush_def)
  assume ok: "mem_ok w f" "mem_ok v f" "fw_filename v \<noteq> fw_filename w"
  {
    assume "iw_write (file_writer_ops mem_sys) b w f = (w', f')"
    then have "f' = ms_move (fw_fd w) (length (mem_content w f) + length b)
        (ms_put (fw_filename w) ((ms_file (fw_filename w) f)\<lparr>mf_data := mem_content w f @ b, mf_time := ms_now f\<rparr>) f)"
      using ok by (auto simp: file_writer_ops_def fw_write_def mem_sys_def mem_ok_def mem_content_def Let_def)
    moreover have "fw_fd v \<noteq> fw_fd w" using ok by (auto simp: mem_ok_def)
    ultimately show "mem_ok v f' \<and> mem_content v f' = mem_content v f"
      using ok by (simp add: mem_ok_def mem_content_def ms_at_elsewhere ms_at_move(2))
  next
    assume "iw_flush (file_writer_ops mem_sys) w f = (r, w', f')"
    then show "mem_ok v f' \<and> mem_content v f' = mem_content v f" using ok by (simp add: file_writer_ops_def fw_flush_def)
  next
    assume "iw_reader (file_writer_ops mem_sys) w f = (rd, f')"
    then show "mem_ok v f' \<and> mem_content v f' = mem_content v f"
      using ok mem_file_sink.reader_keeps by (auto simp: file_writer_ops_def fw_reader_def FileReader_open mem_sys_def mem_ok_def mem_content_def ms_at_fd split: if_splits)
  }
qed

section \<open>Property\<close>

text \<open>
  C11. Streams of one connection do not mix: however the frames of the entries that are being written are interleaved
  in the bytes that arrive, the file of each stream ends up with what it held and then the payloads under its id, in their order, and
  nothing else; every command goes on, and those under other ids are not touched. (Writers of different files leave each other
  alone, and no frame is empty.)
\<close>

theorem streams_do_not_mix:
  assumes "separate_sinks (ce_wo ce) (ce_ro ce) content ok dest" "quiet content ok (hook_of ce h)"
    "streams_at content ok dest p h I commands f c" "\<forall>(i, d) \<in> set ps. i \<in> I \<and> d \<noteq> [] \<and> length d \<le> 65535"
  shows "\<exists>commands' f'. parseAndRun (mirror_ops ce unpack others) peer (frames_bytes ps) (commands, f) = Inr (commands', f')
     \<and> streams_at content ok dest p h I commands' f' (\<lambda>i. c i @ concat (map snd (filter (\<lambda>x. fst x = i) ps)))
     \<and> (\<forall>i. i \<notin> I \<longrightarrow> commands' i = commands i)"
proof -
  have "packets (DataBuffer (concat (map (\<lambda>(i, p). push_frame i p) ps) @ [])) = map (\<lambda>(i, p). (i, DataBuffer p)) ps @ packets (DataBuffer [])"
    by (rule buffered.packets_concat) (use assms(4) in auto)
  then have "packets (DataBuffer (frames_bytes ps)) = map (\<lambda>(i, d). (i, DataBuffer d)) ps"
    by (simp add: frames_bytes_def packets.simps [of "DataBuffer []"])
  moreover have "\<forall>(i, d) \<in> set ps. i \<in> I \<and> d \<noteq> [] \<and> length d \<le> 0x10000" using assms(4) by auto
  ultimately show ?thesis
    using separate_sinks.packets_of_streams [OF assms(1) refl refl assms(2,3)] unfolding parseAndRun_def by auto
qed

text \<open>Two streams, for the files \<open>a~\<close> and \<open>b~\<close>.\<close>

definition two_files :: mem_fs where
  "two_files = \<lparr>ms_files = [(''a~'', \<lparr>mf_data = [], mf_time = 1, mf_attr = []\<rparr>), (''b~'', \<lparr>mf_data = ''x'', mf_time = 1, mf_attr = []\<rparr>)],
     ms_open = [(''a~'', 0), (''b~'', 1)], ms_now = 1\<rparr>"

definition begun :: "int \<Rightarrow> string \<Rightarrow> (file_writer, mem_fs) write_command" where
  "begun fd name = (WriteCommand_new store_cmd_env WhenMirrorWriteFinishes)\<lparr>wm_started := True,
     wm_writer := \<lparr>ws_writer = Some \<lparr>fw_fd = fd, fw_filename = name\<rparr>, ws_md = KeyMetadata, ws_onClose = None\<rparr>\<rparr>"

definition two_commands :: "u8 \<rightharpoonup> (file_writer, mem_fs) write_command + unit" where
  "two_commands = [1 \<mapsto> Inl (begun 0 ''a~''), 2 \<mapsto> Inl (begun 1 ''b~'')]"

theorem streams_do_not_mix_witness:
  "\<exists>commands' f' cmd w. parseAndRun (mirror_ops store_cmd_env (\<lambda>_ _. None) no_others) 0
         (frames_bytes [(1, ''he''), (2, ''yz''), (1, ''llo'')]) (two_commands, two_files) = Inr (commands', f')
     \<and> commands' 1 = Some (Inl cmd) \<and> ws_writer (wm_writer cmd) = Some w \<and> mem_content w f' = ''hello''"
proof -
  let ?p = "\<lambda>i :: u8. if i = 1 then ''a~'' else ''b~''" and ?c = "\<lambda>i :: u8. if i = 1 then [] else ''x''"
  have env: "separate_sinks (ce_wo store_cmd_env) (ce_ro store_cmd_env) mem_content mem_ok fw_filename"
      "quiet mem_content mem_ok (hook_of store_cmd_env WhenMirrorWriteFinishes)"
    using mem_files.separate_sinks_axioms by (simp_all add: store_cmd_env_def quiet_def hook_of_def)
  have w: "writing mem_content (\<lambda>w f. mem_ok w f \<and> fw_filename w = ''a~'') (begun 0 ''a~'') two_files []"
    "writing mem_content (\<lambda>w f. mem_ok w f \<and> fw_filename w = ''b~'') (begun 1 ''b~'') two_files ''x''"
    by (simp_all add: writing_def begun_def WriteCommand_new_def WriteInstructions_def mem_ok_def mem_content_def two_files_def ms_at_def ms_has_def ms_file_def)
  have "wm_onCommit (begun fd n) = WhenMirrorWriteFinishes \<and> wm_bytes (begun fd n) \<le> 0x10000" for fd n
    by (simp add: begun_def WriteCommand_new_def)
  then have at: "streams_at mem_content mem_ok fw_filename ?p WhenMirrorWriteFinishes {1, 2} two_commands two_files ?c"
    using w by (simp add: streams_at_def two_commands_def inj_on_def)
  have ps: "\<forall>(i, d) \<in> set [(1 :: u8, ''he''), (2, ''yz''), (1, ''llo'')]. i \<in> {1, 2} \<and> d \<noteq> [] \<and> length d \<le> 65535" by simp
  from streams_do_not_mix [OF env at ps, of "\<lambda>_ _. None" no_others 0] show ?thesis
    by (auto simp: streams_at_def writing_def)
qed

end
