(* ===== verification/Repair.thy ===== *)
theory Repair
  imports Exchange Delivery
begin

text \<open>
  The repair of a difference, to its end: what \<^verbatim>\<open>SkewCorrector::sendKey\<close> hands to \<^verbatim>\<open>WriteSupervisor::store\<close>
  goes out on a blocking stream (its bytes are those of theory \<open>Delivery\<close>), and the peer that demanded it parses the
  connection and stores the entry. And what is left when a transfer is broken off.
\<close>

section \<open>The supervisor of the corrector\<close>

text \<open>
  \<^verbatim>\<open>SkewCorrector::sendKey\<close> reads the version from its store and gives the reader to the supervisor, as \<open>ref_of\<close> finds
  the peer. That the supervisor does not come back is the same here as that it fails.
\<close>

definition supervise_store :: "'f store_env \<Rightarrow> ('a, 's, file_reader, 'f) transfer_env \<Rightarrow> (peer \<Rightarrow> ref) \<Rightarrow> peer \<Rightarrow> write_instructions
    \<Rightarrow> 'f \<Rightarrow> ('s, 'f) supervisor_state \<Rightarrow> bool \<times> ('s, 'f) supervisor_state" where
  "supervise_store e te ref_of peer write f st =
     (case fs_read e (wr_name write) (wr_version write) False f of
        Inl _ \<Rightarrow> (False, st)
      | Inr (contents, f) \<Rightarrow>
          (case WriteSupervisor_store_peer te (ref_of peer) write contents (st\<lparr>pt_outside := (pt_outside st)\<lparr>sv_files := f\<rparr>\<rparr>) of
             None \<Rightarrow> (False, st)
           | Some (res, _, st) \<Rightarrow> (res, st)))"

text \<open>What is sent for a version that is stored.\<close>

definition version_write :: "string \<Rightarrow> string \<times> string \<Rightarrow> stored \<Rightarrow> write_instructions" where
  "version_write source nv rd = WriteInstructions\<lparr>wr_name := fst nv, wr_copies := sd_mirrors rd, wr_mirror := sd_mirrors rd,
     wr_version := snd nv, wr_source := source, wi_isComplete := True\<rparr>"

context posix_files
begin

lemma stored_is_opened:
  assumes "se_files e = fl" "canonical (se_vl e) m" "version_of (se_vl e) m \<noteq> []" "data (filepath e name m) f = Some b"
  obtains rd md f' where "fs_read e name m False f = Inr (\<lparr>rs_reader = Some rd, rs_md = md\<rparr>, f')" "rok rd f'" "left rd f' = b"
    "fs_stored e name m f \<noteq> None"
proof -
  let ?p = "filepath e name m"
  obtain rd f1 where rd: "FileReader (fl_sys fl) ?p 0 f = (rd, f1)" by fastforce
  have k: "fr_good rd" "rok rd f1" "left rd f1 = b" using open_there(1,4,5) [OF assms(4)] rd by simp_all
  have v: "vc_fromString (se_vl e) m [] = Inr (True, version_of (se_vl e) m)" "vc_toString (se_vl e) (version_of (se_vl e) m) = m"
    using assms(2) by (simp_all add: canonical_def)
  have o: "fr_open (fl_sys fl) ?p 0 \<lparr>fr_fd = -1\<rparr> f = (fr_good rd, rd, f1)"
    using rd by (auto simp: FileReader_def fr_open_def Let_def case_prod_beta)
  obtain md where r: "fs_read e name m False f = Inr (\<lparr>rs_reader = Some rd, rs_md = md\<rparr>, f1)"
    using o k(1) assms(1,3) by (simp add: fs_read_def v Let_def fr_good_def)
  then have "fs_stored e name m f \<noteq> None"
    using k(1) by (simp add: fs_stored_def Let_def rs_good_def file_reader_ops_def)
  then show thesis using that r k(2,3) by blast
qed

text \<open>What goes out for a demand.\<close>

lemma demand_streams:
  assumes "se_files e = fl" "seekable_source (file_reader_ops (fl_sys fl) beyond) left rok whole"
    and full: "reads_full (file_reader_ops (fl_sys fl) beyond) left rok"
    and ev: "sk_ops ev = fs_store_ops e" "sk_supervise ev = supervise_store e te ref_of" "te_ro te = file_reader_ops (fl_sys fl) beyond"
    and m: "canonical (se_vl e) m" "version_of (se_vl e) m \<noteq> []" "data (filepath e n m) f = Some content" "length content < 2 ^ 31"
      "fs_stored e n m f = Some rd"
    and conn: "sends_exactly (te_sock te) log"
      "al_fromString (te_addr te) (pr_address (sv_peers (pt_outside st) (ref_of peer))) = Some addr" "te_getWriter te addr = Some w"
      "cw_stream log (sv_writers (pt_outside st) w) = []" "cw_others (sv_writers (pt_outside st) w) = []"
      "cap = cw_capacity (sv_writers (pt_outside st) w)" "cap < 65535"
      "length (write_header (te_mpack te) (version_write source (n, m) rd)) \<le> cap"
  shows "packets (DataBuffer (cw_stream log (sv_writers (pt_outside (send_version ev peer source f (n, m) st)) w)))
      = map (\<lambda>b. (fst (nextActionId (sv_peers (pt_outside st) (ref_of peer))), DataBuffer b))
          ((package (of_nat Write_INTERNAL_ID) (te_mpack te (WriteReq (write_req.truncate (version_write source (n, m) rd)))) # pieces cap content)
           @ (if end_arrives cap (length (write_header (te_mpack te) (version_write source (n, m) rd))) content then [[]] else []))"
    "\<forall>d \<in> set (pieces cap content). d \<noteq> [] \<and> length d \<le> 0x10000" "concat (pieces cap content) = content"
    "length (te_mpack te (WriteReq (write_req.truncate (version_write source (n, m) rd)))) \<le> 65535"
proof -
  let ?wr = "version_write source (n, m) rd"
  obtain r md f' where r: "fs_read e n m False f = Inr (\<lparr>rs_reader = Some r, rs_md = md\<rparr>, f')" "rok r f'" "left r f' = content"
    by (rule stored_is_opened [OF assms(1) m(1-3)])
  let ?st = "st\<lparr>pt_outside := (pt_outside st)\<lparr>sv_files := f'\<rparr>\<rparr>"
  have c: "seekable_source (te_ro te) left rok whole" "reads_full (te_ro te) left rok" "hands_over True (te_sock te) log"
    using assms(2) full ev(3) conn(1) by (simp_all add: hands_over_def)
  have k: "al_fromString (te_addr te) (pr_address (sv_peers (pt_outside ?st) (ref_of peer))) = Some addr"
    "cw_stream log (sv_writers (pt_outside ?st) w) = []" "cw_others (sv_writers (pt_outside ?st) w) = []"
    "cap = cw_capacity (sv_writers (pt_outside ?st) w)"
    "rs_reader \<lparr>rs_reader = Some r, rs_md = md\<rparr> = Some r"
    "rok r (sv_files (pt_outside ?st))" "left r (sv_files (pt_outside ?st)) = content" "wr_offset ?wr = 0" "wi_isComplete ?wr"
    using conn r(2,3) by (simp_all add: version_write_def WriteInstructions_def)
  obtain h st1 rs' st' where s: "WriteSupervisor_open te (ref_of peer) ?wr True ?st = (Some h, st1)"
    "WriteSupervisor_store te h ?wr \<lparr>rs_reader = Some r, rs_md = md\<rparr> False st1 = Some (True, rs', st')"
    "packets (DataBuffer (cw_stream log (sv_writers (pt_outside st') w)))
      = map (\<lambda>b. (fst (nextActionId (sv_peers (pt_outside ?st) (ref_of peer))), DataBuffer b))
          ((package (of_nat Write_INTERNAL_ID) (te_mpack te (WriteReq (write_req.truncate ?wr))) # pieces cap content)
           @ (if wi_isComplete ?wr \<and> end_arrives cap (length (write_header (te_mpack te) ?wr)) content then [[]] else []))"
    "\<forall>d \<in> set (pieces cap content). d \<noteq> [] \<and> length d \<le> 0x10000" "concat (pieces cap content) = content"
    "length (te_mpack te (WriteReq (write_req.truncate ?wr))) \<le> 65535"
    by (rule sent_stream [OF c k(1) conn(3) k(2-4) conn(7,8) k(5-7) m(4) k(8)])
  have "send_version ev peer source f (n, m) st = st'"
    using m(5) ev r(1) s(1,2)
    by (simp add: send_version_def fs_store_ops_def supervise_store_def version_write_def WriteSupervisor_store_peer_def)
  then show "packets (DataBuffer (cw_stream log (sv_writers (pt_outside (send_version ev peer source f (n, m) st)) w)))
      = map (\<lambda>b. (fst (nextActionId (sv_peers (pt_outside st) (ref_of peer))), DataBuffer b))
          ((package (of_nat Write_INTERNAL_ID) (te_mpack te (WriteReq (write_req.truncate ?wr))) # pieces cap content)
           @ (if end_arrives cap (length (write_header (te_mpack te) ?wr)) content then [[]] else []))"
    "\<forall>d \<in> set (pieces cap content). d \<noteq> [] \<and> length d \<le> 0x10000" "concat (pieces cap content) = content"
    "length (te_mpack te (WriteReq (write_req.truncate ?wr))) \<le> 65535"
    using s(3-6) k(9) by simp_all
qed

end

section \<open>Digests of two stores\<close>





section \<open>A transfer that is broken off\<close>

text \<open>A version whose transfer has begun is refused to every other write.\<close>

lemma begun_version_is_refused:
  assumes "over_store ce e beyond" "canonical (se_vl e) m" "version_of (se_vl e) m \<noteq> []" "fs_exists e (wr_name req) m g"
    "wr_name req \<noteq> []" "wr_version req = m"
  shows "\<exists>cmd. WriteCommand_run ce [] (set_request req (WriteCommand_new ce h)) g = Inr (False, cmd, g) \<and> wm_status cmd = 500"
proof -
  have "fs_write e (wr_name req) m (wr_copies req) g = Inr (writestream_none, g)"
    using assms(2-4) by (simp add: fs_write_def fs_open_version_def canonical_def)
  then show ?thesis
    using assms(1,5,6)
    by (simp add: WriteCommand_run_def wm_start_def WriteCommand_new_def set_request_def over_store_def ws_good_def writestream_none_def
        setStatus_def WriteInstructions_def)
qed

lemma file_in_progress_exists:
  assumes "posix_files (se_files e) beyond left rok data wok" "version_name m" "data (filepath e n (m @ ''~'')) g \<noteq> None"
  shows "fs_exists e n m g"
proof -
  have "plain_name (m @ ''~'')" "CHR '','' \<in> set m" using assms(2) by (auto simp: version_name_def plain_name_def)
  then show ?thesis
    using assms(3) posix_files.listed [OF assms(1)] by (simp add: version_exists_iff_file filepath_in_dir)
qed

section \<open>One version that is missing\<close>



section \<open>Properties\<close>








text \<open>
  C10. A transfer that is broken off leaves everything else as it was, and is final: however many buffers of a version
  have been written when the end does not come, every other file is untouched and the complete versions are the ones of before,
  but the temporary file stays, and while it does, no write of that version is accepted (each ends with status 500,
  from users and from peers alike) and an offer of it is not demanded: the difference is not repaired.
\<close>

theorem broken_transfer_is_final:
  assumes "posix_files (se_files e) beyond left rok data wok" "over_store ce e beyond" "leaves_files data wok (hook_of ce h)"
    "canonical (se_vl e) m" "version_name m" "version_of (se_vl e) m \<noteq> []" "\<not> fs_exists e (wr_name req) m f"
    "\<not> isExpired (se_wall e) EXPIRY_TIMEOUT_SECONDS (version_of (se_vl e) m)"
    "wr_name req \<noteq> []" "wr_version req = m" "\<forall>d \<in> set bs. d \<noteq> [] \<and> length d \<le> 0x10000"
    "sk_ops v = fs_store_ops e" "packs mpack unpack (OfferReq (offer_of source (wr_name req, m)))"
  shows "\<exists>cmd g. run_buffers ce ([] # bs) (set_request req (WriteCommand_new ce h)) f = Inr (True, cmd, g)
     \<and> (\<forall>p. p \<noteq> filepath e (wr_name req) (m @ ''~'') \<longrightarrow> data p g = data p f)
     \<and> set (fs_versions e (wr_name req) False g) = set (fs_versions e (wr_name req) False f)
     \<and> data (filepath e (wr_name req) (m @ ''~'')) g = Some (concat bs)
     \<and> (\<forall>req' h'. wr_name req' = wr_name req \<longrightarrow> wr_version req' = m \<longrightarrow> (\<exists>cmd'.
          WriteCommand_run ce [] (set_request req' (WriteCommand_new ce h')) g = Inr (False, cmd', g) \<and> wm_status cmd' = 500))
     \<and> (\<forall>w. run_calls v mpack unpack mine a [OfferWrite b (wr_name req) m source] (w\<lparr>wo_store := g\<rparr>) = w\<lparr>wo_store := g\<rparr>)"
proof -
  let ?t = "filepath e (wr_name req) (m @ ''~'')"
  obtain cmd g where r: "run_buffers ce ([] # bs) (set_request req (WriteCommand_new ce h)) f = Inr (True, cmd, g)"
    "writing (content_of data) (only_writes data wok ?t f) cmd g (concat bs)"
    by (rule posix_files.buffers_fill_temporary [OF assms(1,2) refl assms(4-8,3,9-11)])
  obtain wr where wr: "only_writes data wok ?t f wr g" "content_of data wr g = concat bs"
    using r(2) by (auto simp: writing_def)
  have rest: "\<forall>p. p \<noteq> ?t \<longrightarrow> data p g = data p f" using wr(1) by (simp add: only_writes_def)
  have tmp: "data ?t g = Some (concat bs)"
    using wr posix_files.there [OF assms(1), of wr g] by (auto simp: only_writes_def content_of_def)
  have ex: "fs_exists e (wr_name req) m g" by (rule file_in_progress_exists [OF assms(1,5)]) (simp add: tmp)
  have "run_calls v mpack unpack mine a [OfferWrite b (wr_name req) m source] (w\<lparr>wo_store := g\<rparr>) = w\<lparr>wo_store := g\<rparr>" for w
    using offers_answered [of "[(wr_name req, m)]" mpack unpack source v mine a b "w\<lparr>wo_store := g\<rparr>"] assms(12,13) ex
    by (simp add: fs_store_ops_def)
  moreover have "set (fs_versions e (wr_name req) False g) = set (fs_versions e (wr_name req) False f)"
    by (rule posix_files.versions_data [OF assms(1) refl rest])
  moreover have "\<exists>cmd'. WriteCommand_run ce [] (set_request req' (WriteCommand_new ce h')) g = Inr (False, cmd', g) \<and> wm_status cmd' = 500"
    if "wr_name req' = wr_name req" "wr_version req' = m" for req' h'
    using begun_version_is_refused [OF assms(2,4,6), of req' g h'] ex assms(9) that by simp
  ultimately show ?thesis using r(1) rest tmp by blast
qed

theorem broken_transfer_is_final_witness:
  "\<exists>cmd g. run_buffers store_cmd_env ([] # [''one'', ''two'']) (set_request (Write\<lparr>wr_name := ''k'', wr_version := k_version\<rparr>)
        (WriteCommand_new store_cmd_env WhenMirrorWriteFinishes)) no_files = Inr (True, cmd, g)
     \<and> mem_data (filepath mem_env ''k'' (k_version @ ''~'')) g = Some ''onetwo''
     \<and> (\<forall>w. run_calls mem_skew (\<lambda>_. []) k_unpack (\<lambda>_ _. True) (Peer ''you'' []) [OfferWrite (Peer ''me'' []) ''k'' k_version []]
          (w\<lparr>wo_store := g\<rparr>) = w\<lparr>wo_store := g\<rparr>)"
proof -
  let ?req = "Write\<lparr>wr_name := ''k'', wr_version := k_version\<rparr>"
  have posix: "posix_files (se_files mem_env) [] mem_left mem_readable mem_data mem_ok"
    by (simp add: mem_posix.posix_files_axioms mem_env_def)
  have b: "over_store store_cmd_env mem_env []" "leaves_files mem_data mem_ok (hook_of store_cmd_env WhenMirrorWriteFinishes)"
    "canonical (se_vl mem_env) k_version" "version_name k_version" "version_of (se_vl mem_env) k_version \<noteq> []"
    "\<not> fs_exists mem_env (wr_name ?req) k_version no_files"
    "\<not> isExpired (se_wall mem_env) EXPIRY_TIMEOUT_SECONDS (version_of (se_vl mem_env) k_version)"
    "wr_name ?req \<noteq> []" "wr_version ?req = k_version" "\<forall>d \<in> set [''one'', ''two'']. d \<noteq> [] \<and> length d \<le> 0x10000"
    "sk_ops mem_skew = fs_store_ops mem_env" "packs (\<lambda>_. []) k_unpack (OfferReq (offer_of [] (wr_name ?req, k_version)))"
    using k_name(1,2) name_of_clock(1) [of "''a''" 2] k_all_versions(2) k_packs(2)
    by (simp_all add: over_store_def store_cmd_env_def leaves_files_def hook_of_def mem_skew_def mem_env_def
        fs_exists_def is_space_def isExpired_def isDeleted_def mem_lib_def)
  from broken_transfer_is_final [OF posix b, of "\<lambda>_ _. True" "Peer ''you'' []" "Peer ''me'' []"] show ?thesis by auto
qed

end
