(* ===== verification/Waiting.thy ===== *)
theory Waiting
  imports Callbacks
begin

text \<open>
  A client that waits for an entry (\<^verbatim>\<open>api/WaitCommand\<close>) among the others that work on the node: writers that
  store the entry and then have the watches notified, the scheduler that runs the notifications, and other
  clients that wait. The command is constructed with \<^verbatim>\<open>Watches\<close> itself (\<^verbatim>\<open>turbopump/Turbopump.h\<close>), the callbacks with
  \<^verbatim>\<open>SynchronizedWatches\<close>, so a client registers at once and is notified by the scheduler.
\<close>

section \<open>The steps\<close>

text \<open>
  Where the command is in \<^verbatim>\<open>WaitCommand::run\<close>. A read that throws is no step: the exception leaves the thread
  of the client and ends the program.
\<close>

datatype wait_phase =
  Arriving
| Trying
| Missed
| Waiting
| Retrying
| Leaving bool int
| Returned bool int

text \<open>
  \<open>wt_pending\<close> are the names of writes that are stored and whose callback has not notified the watches yet;
  \<open>wt_signalled\<close> is what \<^verbatim>\<open>_waiter\<close> holds.
\<close>

record ('f, 'cb) waiting_room =
  wt_phase :: wait_phase
  wt_watches :: "'cb watches"
  wt_queue :: "'cb watch_task list"
  wt_pending :: "string list"
  wt_signalled :: bool
  wt_files :: 'f

text \<open>
  What belongs to one client: its request, its random identifier and its callback. \<^verbatim>\<open>turbo::monitor\<close> is not part of the
  sources; \<open>wc_sticky\<close> says whether it remembers a signal that comes before \<^verbatim>\<open>wait()\<close>. The tests of the repository rely on
  that it does: in \<^verbatim>\<open>WaitCommandTest/testWait\<close> the only signal comes from within \<^verbatim>\<open>watch()\<close>, for \<^verbatim>\<open>mock/MockWatches\<close> calls
  back at once, and \<^verbatim>\<open>wait()\<close>, which is called later, returns true, so that the store is read a second time.
\<close>

record ('w, 'r, 'f, 'cb) waiting_for =
  wc_env :: "('w, 'r, 'f) cmd_env"
  wc_stream :: "'f byte_stream"
  wc_req :: named_req
  wc_id :: string
  wc_callback :: 'cb
  wc_bucket :: "string \<Rightarrow> nat"
  wc_sticky :: bool

abbreviation (input) wc_name :: "('w, 'r, 'f, 'cb) waiting_for \<Rightarrow> string" where
  "wc_name cl \<equiv> nr_name (wc_req cl)"

definition wc_tryRead :: "('w, 'r, 'f, 'cb) waiting_for \<Rightarrow> 'f \<Rightarrow> (bool \<times> int \<times> 'f) result" where
  "wc_tryRead cl = tryRead (wc_env cl) (wc_stream cl) (wc_req cl)"

text \<open>\<open>entry_there\<close>: a read would find the entry.\<close>

definition entry_there :: "('w, 'r, 'f, 'cb) waiting_for \<Rightarrow> 'f \<Rightarrow> bool" where
  "entry_there cl f = (case wc_tryRead cl f of Inr (True, _) \<Rightarrow> True | _ \<Rightarrow> False)"

text \<open>
  What the node still does when nothing new happens: the command goes on, a write has the watches
  notified, and the scheduler runs a notification.
\<close>

inductive node_step :: "('w, 'r, 'f, 'cb) waiting_for \<Rightarrow> ('f, 'cb) waiting_room \<Rightarrow> ('f, 'cb) waiting_room \<Rightarrow> bool" for cl where
  arrive: "wt_phase s = Arriving
     \<Longrightarrow> node_step cl s (s\<lparr>wt_phase := Trying, wt_watches := wt_watch (wc_name cl) (wc_id cl) (wc_callback cl) (wt_watches s)\<rparr>)"
| found: "wt_phase s = Trying \<Longrightarrow> wc_tryRead cl (wt_files s) = Inr (True, st, f)
     \<Longrightarrow> node_step cl s (s\<lparr>wt_phase := Leaving True st, wt_files := f\<rparr>)"
| missing: "wt_phase s = Trying \<Longrightarrow> wc_tryRead cl (wt_files s) = Inr (False, st, f)
     \<Longrightarrow> node_step cl s (s\<lparr>wt_phase := Missed, wt_files := f\<rparr>)"
| waits: "wt_phase s = Missed \<Longrightarrow> node_step cl s (s\<lparr>wt_phase := Waiting\<rparr>)"
| woken: "wt_phase s = Waiting \<Longrightarrow> wt_signalled s \<Longrightarrow> node_step cl s (s\<lparr>wt_phase := Retrying, wt_signalled := False\<rparr>)"
| again: "wt_phase s = Retrying \<Longrightarrow> wc_tryRead cl (wt_files s) = Inr (res, st, f)
     \<Longrightarrow> node_step cl s (s\<lparr>wt_phase := Leaving res st, wt_files := f\<rparr>)"
| leave: "wt_phase s = Leaving res st
     \<Longrightarrow> node_step cl s (s\<lparr>wt_phase := Returned res st, wt_watches := snd (wt_unwatch (wc_name cl) (wc_id cl) (wt_watches s))\<rparr>)"
| committed: "wt_pending s = us @ n # vs
     \<Longrightarrow> node_step cl s (s\<lparr>wt_pending := us @ vs, wt_queue := snd (sw_notify n (wt_queue s))\<rparr>)"
| notified: "wt_queue s = t # ts \<Longrightarrow> wt_run_task (wc_bucket cl) t (wt_watches s) = (ws, cbs)
     \<Longrightarrow> node_step cl s (s\<lparr>wt_queue := ts, wt_watches := ws, wt_signalled := (wt_signalled s
           \<or> (wc_callback cl \<in> set cbs \<and> (wc_sticky cl \<or> wt_phase s = Waiting)))\<rparr>)"

text \<open>
  What others do: a write of \<open>n\<close> is stored, whatever it changes; other work that does not make the entry appear; other
  clients come and go under their own identifiers; a monitor that is given up on, or that wakes, without a signal.
\<close>

inductive others_step :: "('w, 'r, 'f, 'cb) waiting_for \<Rightarrow> ('f, 'cb) waiting_room \<Rightarrow> ('f, 'cb) waiting_room \<Rightarrow> bool" for cl where
  stored: "entry_there cl f \<longrightarrow> entry_there cl (wt_files s) \<or> n = wc_name cl
     \<Longrightarrow> others_step cl s (s\<lparr>wt_files := f, wt_pending := wt_pending s @ [n]\<rparr>)"
| works: "entry_there cl f \<longrightarrow> entry_there cl (wt_files s) \<Longrightarrow> others_step cl s (s\<lparr>wt_files := f\<rparr>)"
| comes: "(n, i) \<noteq> (wc_name cl, wc_id cl) \<Longrightarrow> others_step cl s (s\<lparr>wt_watches := wt_watch n i cb (wt_watches s)\<rparr>)"
| goes: "(n, i) \<noteq> (wc_name cl, wc_id cl) \<Longrightarrow> others_step cl s (s\<lparr>wt_watches := snd (wt_unwatch n i (wt_watches s))\<rparr>)"
| gives_up: "wt_phase s = Waiting \<Longrightarrow> others_step cl s (s\<lparr>wt_phase := Leaving False (snd (setStatus 0))\<rparr>)"
| wakes: "wt_phase s = Waiting \<Longrightarrow> others_step cl s (s\<lparr>wt_phase := Retrying\<rparr>)"

inductive_cases node_stepE: "node_step cl s s'"
inductive_cases others_stepE: "others_step cl s s'"

text \<open>The client arrives while other clients wait and writes are under way.\<close>

definition arrives :: "('w, 'r, 'f, 'cb) waiting_for \<Rightarrow> ('f, 'cb) waiting_room \<Rightarrow> bool" where
  "arrives cl s = (wt_phase s = Arriving \<and> map_of (wt_watches s) (wc_name cl, wc_id cl) = None \<and> \<not> wt_signalled s
     \<and> (\<forall>t \<in> set (wt_queue s). \<exists>n. t = NotifyTask n))"

inductive room_reached :: "('w, 'r, 'f, 'cb) waiting_for \<Rightarrow> ('f, 'cb) waiting_room \<Rightarrow> bool" for cl where
  arrived: "arrives cl s \<Longrightarrow> room_reached cl s"
| node: "room_reached cl s \<Longrightarrow> node_step cl s s' \<Longrightarrow> room_reached cl s'"
| others: "room_reached cl s \<Longrightarrow> others_step cl s s' \<Longrightarrow> room_reached cl s'"

section \<open>A write is not missed\<close>

text \<open>A read that finds nothing does not make the entry appear.\<close>

definition failed_read_changes_nothing :: "('w, 'r, 'f, 'cb) waiting_for \<Rightarrow> bool" where
  "failed_read_changes_nothing cl =
     (\<forall>f st f'. wc_tryRead cl f = Inr (False, st, f') \<longrightarrow> \<not> entry_there cl f')"

lemma wt_watch_other [simp]:
  "k \<noteq> (n, i) \<Longrightarrow> map_of (wt_watch n i cb ws) k = map_of ws k"
  by (simp add: wt_watch_def update_conv')

lemma wt_watch_same [simp]: "map_of (wt_watch n i cb ws) (n, i) = Some cb"
  by (simp add: wt_watch_def update_conv')

lemma wt_unwatch_other [simp]:
  "k \<noteq> (n, i) \<Longrightarrow> map_of (snd (wt_unwatch n i ws)) k = map_of ws k"
  by (simp add: wt_unwatch_def delete_conv')

lemma wt_unwatch_same [simp]: "map_of (snd (wt_unwatch n i ws)) (n, i) = None"
  by (simp add: wt_unwatch_def delete_conv')

lemma notified_callback:
  assumes "map_of ws (n, i) = Some cb"
  shows "cb \<in> set (snd (wt_notify bucket n ws))"
  using map_of_SomeD [OF assms] by (force simp: wt_notify_def Let_def filter_empty_conv)

text \<open>While the command is at work it is registered, and an entry that has appeared is on its way to it.\<close>

definition registered :: "wait_phase \<Rightarrow> bool" where
  "registered p = (case p of Arriving \<Rightarrow> False | Returned _ _ \<Rightarrow> False | _ \<Rightarrow> True)"

lemma registered_simps [simp]:
  "\<not> registered Arriving" "registered Trying" "registered Missed" "registered Waiting" "registered Retrying" "registered (Leaving r st)"
  "\<not> registered (Returned r st)"
  by (simp_all add: registered_def)

definition on_its_way :: "('w, 'r, 'f, 'cb) waiting_for \<Rightarrow> ('f, 'cb) waiting_room \<Rightarrow> bool" where
  "on_its_way cl s = (wt_signalled s \<or> NotifyTask (wc_name cl) \<in> set (wt_queue s) \<or> wc_name cl \<in> set (wt_pending s))"

definition room_inv :: "('w, 'r, 'f, 'cb) waiting_for \<Rightarrow> ('f, 'cb) waiting_room \<Rightarrow> bool" where
  "room_inv cl s = ((\<forall>t \<in> set (wt_queue s). \<exists>n. t = NotifyTask n)
     \<and> map_of (wt_watches s) (wc_name cl, wc_id cl) = (if registered (wt_phase s) then Some (wc_callback cl) else None)
     \<and> (wt_phase s \<in> {Missed, Waiting} \<longrightarrow> entry_there cl (wt_files s) \<longrightarrow> on_its_way cl s))"

lemma node_keeps_inv:
  assumes "room_inv cl s" "node_step cl s s'" "wc_sticky cl" "failed_read_changes_nothing cl"
  shows "room_inv cl s'"
  using assms(2)
proof cases
  case (missing st f)
  then show ?thesis using assms(1,4) by (auto simp: room_inv_def failed_read_changes_nothing_def)
next
  case (notified t ts ws cbs)
  then obtain n where t: "t = NotifyTask n" using assms(1) by (auto simp: room_inv_def)
  then have ws: "ws = wt_watches s" "cbs = snd (wt_notify (wc_bucket cl) n (wt_watches s))" using notified(3) by auto
  have "wc_callback cl \<in> set cbs" if "n = wc_name cl" "wt_phase s \<in> {Missed, Waiting}"
    using that assms(1) notified_callback [of "wt_watches s"] by (auto simp: ws room_inv_def)
  then show ?thesis using assms(1,3) notified t ws(1) by (auto simp: room_inv_def on_its_way_def)
qed (use assms(1) in \<open>auto simp: room_inv_def on_its_way_def sw_notify_def\<close>)

lemma others_keep_inv: "room_inv cl s \<Longrightarrow> others_step cl s s' \<Longrightarrow> room_inv cl s'"
  by (erule others_stepE) (auto simp: room_inv_def on_its_way_def)

lemma reached_inv:
  assumes "room_reached cl s" "wc_sticky cl" "failed_read_changes_nothing cl"
  shows "room_inv cl s"
  using assms(1)
proof induction
  case (arrived s)
  then show ?case by (simp add: arrives_def room_inv_def)
qed (use node_keeps_inv others_keep_inv assms(2,3) in blast)+

section \<open>The client is served\<close>

abbreviation (input) node_steps :: "('w, 'r, 'f, 'cb) waiting_for \<Rightarrow> ('f, 'cb) waiting_room \<Rightarrow> ('f, 'cb) waiting_room \<Rightarrow> bool" where
  "node_steps cl \<equiv> (node_step cl)\<^sup>*\<^sup>*"

text \<open>
  A client that is on the way to a result: it has it, or the read that is still to come will give it and what leads to that
  read is on its way.
\<close>

definition heading :: "('w, 'r, 'f, 'cb) waiting_for \<Rightarrow> bool \<Rightarrow> int \<Rightarrow> ('f, 'cb) waiting_room \<Rightarrow> bool" where
  "heading cl res st s \<longleftrightarrow> room_inv cl s
     \<and> (case wt_phase s of
          Leaving r t \<Rightarrow> r = res \<and> t = st
        | Returned r t \<Rightarrow> r = res \<and> t = st
        | p \<Rightarrow> (\<exists>f. wc_tryRead cl (wt_files s) = Inr (res, st, f))
             \<and> (p = Waiting \<longrightarrow> on_its_way cl s) \<and> (p \<in> {Arriving, Trying, Missed} \<longrightarrow> res))"

lemma entry_there_read: "entry_there cl f \<longleftrightarrow> (\<exists>st f'. wc_tryRead cl f = Inr (True, st, f'))"
  by (auto simp: entry_there_def split: sum.splits prod.splits bool.splits)

lemma node_step_keeps_heading:
  assumes "heading cl res st s" "node_step cl s s'" "wc_sticky cl" "failed_read_changes_nothing cl"
  shows "heading cl res st s'"
proof -
  have inv: "room_inv cl s" using assms(1) by (simp add: heading_def)
  then have inv': "room_inv cl s'" by (rule node_keeps_inv [OF _ assms(2-4)])
  from assms(2) show ?thesis
  proof cases
    case waits
    then have "entry_there cl (wt_files s)" using assms(1) by (auto simp: heading_def entry_there_read)
    then show ?thesis using assms(1) inv inv' waits by (auto simp: heading_def room_inv_def on_its_way_def)
  next
    case (committed us n vs)
    then show ?thesis
      using assms(1) inv' by (auto simp: heading_def on_its_way_def sw_notify_def split: wait_phase.splits)
  next
    case (notified t ts ws cbs)
    then obtain n where t: "t = NotifyTask n" using inv by (auto simp: room_inv_def)
    then have ws: "ws = wt_watches s" "cbs = snd (wt_notify (wc_bucket cl) n (wt_watches s))" using notified(3) by auto
    have "wc_callback cl \<in> set cbs" if "n = wc_name cl" "wt_phase s = Waiting"
      using that inv notified_callback [of "wt_watches s"] by (auto simp: ws room_inv_def)
    then show ?thesis
      using assms(1,3) inv' notified t by (auto simp: heading_def on_its_way_def split: wait_phase.splits)
  qed (use assms(1) inv' in \<open>auto simp: heading_def\<close>)
qed

lemma heading_goes_on:
  assumes "heading cl res st s" "\<forall>r t. wt_phase s \<noteq> Returned r t"
  shows "\<exists>s'. node_step cl s s'"
proof (cases "wt_phase s")
  case Waiting
  then have "room_inv cl s" "on_its_way cl s" using assms(1) by (auto simp: heading_def)
  then consider "wt_signalled s" | t ts where "wt_queue s = t # ts" | us vs where "wt_pending s = us @ wc_name cl # vs"
    by (cases "wt_queue s") (auto simp: on_its_way_def dest: split_list)
  then show ?thesis
    by cases (use Waiting in \<open>auto intro: woken, metis notified surj_pair, metis committed\<close>)
next
  case Trying
  then obtain f where "wc_tryRead cl (wt_files s) = Inr (True, st, f)" using assms(1) by (auto simp: heading_def)
  then show ?thesis using found [OF Trying] by blast
qed (use assms in \<open>auto simp: heading_def intro: node_step.intros\<close>)

text \<open>What is left to do becomes less with every step of the node.\<close>

fun phase_rank :: "wait_phase \<Rightarrow> nat" where
  "phase_rank Arriving = 6"
| "phase_rank Trying = 5"
| "phase_rank Missed = 4"
| "phase_rank Waiting = 3"
| "phase_rank Retrying = 2"
| "phase_rank (Leaving r st) = 1"
| "phase_rank (Returned r st) = 0"

definition room_work :: "('f, 'cb) waiting_room \<Rightarrow> nat" where
  "room_work s = phase_rank (wt_phase s) + 2 * length (wt_pending s) + length (wt_queue s)"

lemma node_step_works: "node_step cl s s' \<Longrightarrow> room_work s' < room_work s"
  by (erule node_stepE) (auto simp: room_work_def sw_notify_def)

lemma node_steps_bounded: "(node_step cl ^^ n) s s' \<Longrightarrow> n + room_work s' \<le> room_work s"
proof (induction n arbitrary: s')
  case (Suc n)
  then obtain t where "(node_step cl ^^ n) s t" "node_step cl t s'" by auto
  with Suc.IH [of t] node_step_works [of cl t s'] show ?case by simp
qed simp

lemma heading_leads:
  assumes "heading cl res st s" "node_steps cl s s'" "wc_sticky cl" "failed_read_changes_nothing cl"
  shows "(\<exists>s''. node_step cl s' s'') \<or> wt_phase s' = Returned res st"
proof -
  have h: "heading cl res st s'"
    using assms(2) by (induction rule: rtranclp_induct) (use assms(1,3,4) node_step_keeps_heading in blast)+
  show ?thesis
  proof (cases "\<exists>r t. wt_phase s' = Returned r t")
    case True
    then show ?thesis using h by (auto simp: heading_def)
  next
    case False
    then show ?thesis using heading_goes_on [OF h] by blast
  qed
qed

lemma heading_arrives:
  assumes "heading cl res st s" "wc_sticky cl" "failed_read_changes_nothing cl"
  shows "\<exists>s'. node_steps cl s s' \<and> wt_phase s' = Returned res st"
  using assms(1)
proof (induction "room_work s" arbitrary: s rule: less_induct)
  case less
  from heading_leads [OF less.prems rtranclp.rtrancl_refl assms(2,3)]
  consider s' where "node_step cl s s'" | "wt_phase s = Returned res st" by blast
  then show ?case
  proof cases
    case 1
    then show ?thesis
      using less.hyps [OF node_step_works [OF 1] node_step_keeps_heading [OF less.prems 1 assms(2,3)]]
      by (meson converse_rtranclp_into_rtranclp)
  qed blast
qed

lemma runs_notification:
  assumes "wt_phase s = Waiting" "wt_queue s = NotifyTask n # ts"
  shows "node_step cl s (s\<lparr>wt_queue := ts, wt_signalled := (wt_signalled s
    \<or> wc_callback cl \<in> set (snd (wt_notify (wc_bucket cl) n (wt_watches s))))\<rparr>)"
  using notified [OF assms(2), of cl "wt_watches s" "snd (wt_notify (wc_bucket cl) n (wt_watches s))"] assms(1) by simp

lemma node_steps_reached: "node_steps cl s s' \<Longrightarrow> room_reached cl s \<Longrightarrow> room_reached cl s'"
  by (induction rule: rtranclp_induct) (auto intro: node)

text \<open>Any write of the name ends the wait, also one that does not bring what the client waits for.\<close>

lemma any_write_ends_the_wait:
  assumes "room_reached cl s" "wc_sticky cl" "failed_read_changes_nothing cl" "wt_phase s = Waiting"
    "wc_tryRead cl (wt_files s) = Inr (False, st, f)"
  shows "\<exists>s'. room_reached cl s' \<and> wt_phase s' = Returned False st"
proof -
  let ?s = "s\<lparr>wt_pending := wt_pending s @ [wc_name cl]\<rparr>"
  have r: "room_reached cl ?s"
    using others [OF assms(1) others_step.stored [of cl "wt_files s" s "wc_name cl"]] by simp
  have "heading cl False st ?s"
    using assms(4,5) reached_inv [OF r assms(2,3)] by (simp add: heading_def on_its_way_def)
  then have "\<exists>s'. node_steps cl ?s s' \<and> wt_phase s' = Returned False st" by (rule heading_arrives [OF _ assms(2,3)])
  then show ?thesis using node_steps_reached [OF _ r] by blast
qed

section \<open>The command and the steps\<close>

text \<open>
  Every run of \<^verbatim>\<open>WaitCommand::run\<close> is a path of these steps: \<open>waiter\<close>, what others do while the command waits, is
  a write of the entry that is committed, when the command is woken.
\<close>

lemma run_is_a_path:
  assumes "arrives cl s" "wt_queue s = []" "wt_pending s = []"
    "WaitCommand_run (wc_env cl) (\<lambda>_ _ f. f) (\<lambda>_ _ f. f) waiter (wc_id cl) (Some (wc_stream cl)) (wc_req cl) status (wt_files s)
       = Inr (res, st, f')"
  shows "\<exists>s'. room_reached cl s' \<and> wt_phase s' = Returned res st \<and> wt_files s' = f'"
proof -
  let ?ws = "wt_watch (wc_name cl) (wc_id cl) (wc_callback cl) (wt_watches s)"
  let ?a = "s\<lparr>wt_phase := Trying, wt_watches := ?ws\<rparr>"
  have a: "room_reached cl ?a"
    using assms(1) by (intro node [OF arrived arrive]) (auto simp: arrives_def)
  have leaves: "\<exists>s'. room_reached cl s' \<and> wt_phase s' = Returned res st \<and> wt_files s' = f'"
    if "room_reached cl b" "wt_phase b = Leaving res st" "wt_files b = f'" for b
    using node [OF that(1) leave [OF that(2)]] that(3)
    by (intro exI [of _ "b\<lparr>wt_phase := Returned res st, wt_watches := snd (wt_unwatch (wc_name cl) (wc_id cl) (wt_watches b))\<rparr>"]) simp
  obtain r1 st1 f1 where tr: "wc_tryRead cl (wt_files ?a) = Inr (r1, st1, f1)"
    using assms(4) by (cases "wc_tryRead cl (wt_files s)") (auto simp: WaitCommand_run_def wc_tryRead_def)
  show ?thesis
  proof (cases r1)
    case True
    then have "res = True" "st = st1" "f' = f1"
      using assms(4) tr by (simp_all add: WaitCommand_run_def wc_tryRead_def)
    then show ?thesis
      using True tr by (intro leaves [OF node [OF a found]]) simp_all
  next
    case False
    let ?b = "?a\<lparr>wt_phase := Waiting, wt_files := f1\<rparr>"
    have "room_reached cl (?a\<lparr>wt_phase := Missed, wt_files := f1\<rparr>)" using tr False by (intro node [OF a missing]) simp_all
    from node [OF this waits] have b: "room_reached cl ?b" by (cases s) simp
    obtain signalled f2 where w: "waiter f1 = (signalled, f2)" by force
    let ?c = "?b\<lparr>wt_files := f2, wt_pending := [wc_name cl]\<rparr>"
    have c: "room_reached cl ?c"
      using others [OF b others_step.stored [of cl f2 ?b "wc_name cl"]] assms(3) by simp
    show ?thesis
    proof (cases signalled)
      case False
      have "room_reached cl (?c\<lparr>wt_phase := Leaving False (snd (setStatus 0))\<rparr>)"
        by (intro others [OF c gives_up]) simp
      moreover have "res = False" "st = snd (setStatus 0)" "f' = f2"
        using assms(4) tr \<open>\<not> r1\<close> w False by (auto simp: WaitCommand_run_def wc_tryRead_def)
      ultimately show ?thesis by (intro leaves) (assumption, (cases s, simp)+)
    next
      case True
      let ?d = "?c\<lparr>wt_pending := [], wt_queue := [NotifyTask (wc_name cl)]\<rparr>"
      have d: "room_reached cl ?d"
        using node [OF c committed [of ?c "[]" "wc_name cl" "[]"]] assms(2) by (simp add: sw_notify_def)
      let ?e = "?d\<lparr>wt_queue := [], wt_signalled := True\<rparr>"
      have "wc_callback cl \<in> set (snd (wt_notify (wc_bucket cl) (wc_name cl) ?ws))"
        by (rule notified_callback [OF wt_watch_same])
      then have e: "room_reached cl ?e"
        using node [OF d runs_notification [of ?d "wc_name cl" "[]"]] by simp
      have g: "room_reached cl (?e\<lparr>wt_phase := Retrying, wt_signalled := False\<rparr>)"
        by (intro node [OF e woken]) simp_all
      have "wc_tryRead cl f2 = Inr (res, st, f')"
        using assms(4) tr \<open>\<not> r1\<close> w True
        by (cases "wc_tryRead cl f2") (auto simp: WaitCommand_run_def wc_tryRead_def)
      then show ?thesis by (intro leaves [OF node [OF g again]]) simp_all
    qed
  qed
qed

lemma unwatch_absent: "map_of ws (n, i) = None \<Longrightarrow> snd (wt_unwatch n i ws) = ws"
  unfolding wt_unwatch_def by (induction ws) (auto split: if_splits)

text \<open>
  \<^verbatim>\<open>WaitCommand::cancel\<close>, which the end of the connection calls. A command that has returned is not registered any
  more, so all that is left is to end its monitor.
\<close>

definition WaitCommand_cancel :: "(string \<Rightarrow> string \<Rightarrow> 'f \<Rightarrow> 'f) \<Rightarrow> ('f \<Rightarrow> 'f) \<Rightarrow> string \<Rightarrow> named_req \<Rightarrow> 'f \<Rightarrow> 'f" where
  "WaitCommand_cancel unwatch cancelled watchId params f = cancelled (unwatch (nr_name params) watchId f)"

lemma cancel_after_return:
  assumes "room_reached cl s" "wc_sticky cl" "failed_read_changes_nothing cl" "wt_phase s = Returned res st"
  shows "WaitCommand_cancel (\<lambda>n i s. s\<lparr>wt_watches := snd (wt_unwatch n i (wt_watches s))\<rparr>) cancelled (wc_id cl) (wc_req cl) s
    = cancelled s"
proof -
  have "map_of (wt_watches s) (wc_name cl, wc_id cl) = None"
    using reached_inv [OF assms(1-3)] assms(4) by (simp add: room_inv_def)
  then have "snd (wt_unwatch (wc_name cl) (wc_id cl) (wt_watches s)) = wt_watches s"
    by (rule unwatch_absent)
  then show ?thesis by (simp add: WaitCommand_cancel_def)
qed

section \<open>Clients of the files in memory\<close>

definition waiting_env :: "(file_writer, file_reader, mem_fs) cmd_env" where
  "waiting_env = mem_cmd_env\<lparr>ce_read := (\<lambda>name version inprogress f.
     let (r, f) = FileReader mem_sys name 0 f in Inr (\<lparr>rs_reader = Some r, rs_md = KeyMetadata\<rparr>, f))\<rparr>"

definition waits_for_k :: "bool \<Rightarrow> (file_writer, file_reader, mem_fs, nat) waiting_for" where
  "waits_for_k sticky = \<lparr>wc_env = waiting_env, wc_stream = \<lparr>by_max = (\<lambda>_. 1400), by_write = (\<lambda>b f. (int (length b), f))\<rparr>,
     wc_req = \<lparr>nr_name = ''k'', nr_version = []\<rparr>, wc_id = ''id'', wc_callback = 0, wc_bucket = (\<lambda>_. 0), wc_sticky = sticky\<rparr>"

definition empty_room :: "(mem_fs, nat) waiting_room" where
  "empty_room = \<lparr>wt_phase = Arriving, wt_watches = [], wt_queue = [], wt_pending = [], wt_signalled = False, wt_files = no_files\<rparr>"

definition k_there :: mem_fs where
  "k_there = ms_put ''k'' \<lparr>mf_data = ''hello'', mf_time = 1, mf_attr = []\<rparr> no_files"

lemma mem_tryRead:
  "wc_tryRead (waits_for_k sticky) f = (if ms_has ''k'' f then Inr (True, 200, snd (ms_fd ''k'' f)) else Inr (False, 404, f))"
  by (simp add: wc_tryRead_def waits_for_k_def tryRead_def waiting_env_def mem_cmd_env_def FileReader_def fr_open_def mem_sys_def
      ms_fd_def rs_good_def file_reader_ops_def fr_good_def setStatus_def Let_def)

lemma mem_entry_there: "entry_there (waits_for_k sticky) f = ms_has ''k'' f"
  by (simp add: entry_there_def mem_tryRead)

lemma mem_failed_read: "failed_read_changes_nothing (waits_for_k sticky)"
  by (auto simp: failed_read_changes_nothing_def mem_tryRead mem_entry_there split: if_splits)

lemma k_is_there: "ms_has ''k'' k_there" "\<not> ms_has ''k'' no_files"
  by (simp_all add: k_there_def ms_has_def ms_put_def no_files_def)

text \<open>The client waits, the entry is stored and its notification is still to come.\<close>

definition k_room :: "(mem_fs, nat) waiting_room" where
  "k_room = empty_room\<lparr>wt_phase := Waiting, wt_watches := [((''k'', ''id''), 0)], wt_files := k_there, wt_pending := [''k'']\<rparr>"

lemma k_waits_names: "nr_name (wc_req (waits_for_k sticky)) = ''k''" "wc_id (waits_for_k sticky) = ''id''" "wc_callback (waits_for_k sticky) = 0"
  by (simp_all add: waits_for_k_def)

lemma k_tries: "room_reached (waits_for_k sticky) (empty_room\<lparr>wt_phase := Trying, wt_watches := [((''k'', ''id''), 0)]\<rparr>)"
proof -
  have "room_reached (waits_for_k sticky) empty_room" by (intro arrived) (simp add: arrives_def empty_room_def)
  from node [OF this arrive] show ?thesis by (simp add: empty_room_def k_waits_names wt_watch_def)
qed

lemma k_missed: "room_reached (waits_for_k sticky) (empty_room\<lparr>wt_phase := Missed, wt_watches := [((''k'', ''id''), 0)]\<rparr>)"
  using node [OF k_tries missing [of _ _ 404 no_files]] by (simp add: empty_room_def mem_tryRead k_is_there)

lemma k_room_reached: "room_reached (waits_for_k sticky) k_room"
proof -
  from node [OF k_missed waits]
  have "room_reached (waits_for_k sticky) (empty_room\<lparr>wt_phase := Waiting, wt_watches := [((''k'', ''id''), 0)]\<rparr>)"
    by (simp add: empty_room_def)
  from others [OF this others_step.stored [of _ k_there _ "''k''"]] show ?thesis
    by (simp add: k_room_def k_waits_names empty_room_def)
qed

text \<open>
  A monitor that forgets a signal that comes between the read and the wait leaves the client
  waiting for an entry that is there, with nothing left that wakes it.
\<close>

lemma forgetful_monitor_loses_wakeup:
  "\<exists>s. room_reached (waits_for_k False) s \<and> wt_phase s = Waiting \<and> entry_there (waits_for_k False) (wt_files s)
     \<and> \<not> on_its_way (waits_for_k False) s"
proof -
  let ?m = "empty_room\<lparr>wt_phase := Missed, wt_watches := [((''k'', ''id''), 0)], wt_files := k_there\<rparr>"
  have a: "room_reached (waits_for_k False) (?m\<lparr>wt_pending := [''k'']\<rparr>)"
    using others [OF k_missed others_step.stored [of _ k_there _ "''k''"]] by (simp add: k_waits_names empty_room_def)
  have b: "room_reached (waits_for_k False) (?m\<lparr>wt_queue := [NotifyTask ''k'']\<rparr>)"
    using node [OF a committed [of _ "[]" "''k''" "[]"]] by (simp add: empty_room_def sw_notify_def)
  have c: "room_reached (waits_for_k False) ?m"
    using node [OF b notified [of _ "NotifyTask ''k''" "[]"]] by (simp add: empty_room_def waits_for_k_def)
  have "room_reached (waits_for_k False) (?m\<lparr>wt_phase := Waiting\<rparr>)" by (rule node [OF c waits]) (simp add: empty_room_def)
  then show ?thesis
    by (intro exI [of _ "?m\<lparr>wt_phase := Waiting\<rparr>"]) (simp add: on_its_way_def empty_room_def mem_entry_there k_is_there)
qed

section \<open>Property\<close>

text \<open>
  C9. A waiting client is served: whatever clients, writers and the scheduler have done since it
  arrived, if the entry can be read while the client is still at work, then whatever the order in which the node goes on with what
  is left to do (the writes that are stored have the watches notified, the scheduler runs the notifications, the command reads),
  it comes to rest after a bounded number of steps, and only when the command has returned with success. And the client is
  registered as long as it is at work and no longer. This is for a monitor that remembers a signal that comes before the
  wait, as the tests of the command expect it to, and as long as nobody takes the entry away or ends the wait.
\<close>

theorem waiting_client_is_served:
  assumes "room_reached cl s" "wc_sticky cl" "failed_read_changes_nothing cl"
  shows "((case wt_phase s of Leaving _ _ \<Rightarrow> False | Returned _ _ \<Rightarrow> False | _ \<Rightarrow> True) \<and> entry_there cl (wt_files s)
      \<longrightarrow> (\<exists>st. \<forall>s'. (node_step cl)\<^sup>*\<^sup>* s s' \<longrightarrow> (\<exists>s''. node_step cl s' s'') \<or> wt_phase s' = Returned True st))
    \<and> (\<forall>n s'. (node_step cl ^^ n) s s' \<longrightarrow> n \<le> 6 + 2 * length (wt_pending s) + length (wt_queue s))
    \<and> (map_of (wt_watches s) (nr_name (wc_req cl), wc_id cl) = Some (wc_callback cl)
      \<longleftrightarrow> (case wt_phase s of Arriving \<Rightarrow> False | Returned _ _ \<Rightarrow> False | _ \<Rightarrow> True))"
proof (intro conjI impI allI)
  have inv: "room_inv cl s" by (rule reached_inv [OF assms])
  show "\<exists>st. \<forall>s'. (node_step cl)\<^sup>*\<^sup>* s s' \<longrightarrow> (\<exists>s''. node_step cl s' s'') \<or> wt_phase s' = Returned True st"
    if "(case wt_phase s of Leaving _ _ \<Rightarrow> False | Returned _ _ \<Rightarrow> False | _ \<Rightarrow> True) \<and> entry_there cl (wt_files s)"
  proof -
    from that obtain st f where "wc_tryRead cl (wt_files s) = Inr (True, st, f)" by (auto simp: entry_there_read)
    then have "heading cl True st s"
      using inv that by (auto simp: heading_def room_inv_def split: wait_phase.splits)
    then show ?thesis using heading_leads assms(2,3) by blast
  qed
  have "phase_rank (wt_phase s) \<le> 6" by (cases "wt_phase s") simp_all
  then show "n \<le> 6 + 2 * length (wt_pending s) + length (wt_queue s)" if "(node_step cl ^^ n) s s'" for n s'
    using node_steps_bounded [OF that] by (simp add: room_work_def)
  show "map_of (wt_watches s) (nr_name (wc_req cl), wc_id cl) = Some (wc_callback cl)
      \<longleftrightarrow> (case wt_phase s of Arriving \<Rightarrow> False | Returned _ _ \<Rightarrow> False | _ \<Rightarrow> True)"
    using inv unfolding room_inv_def registered_def [symmetric] by auto
qed

theorem waiting_client_is_served_witness:
  "\<exists>st. \<forall>s'. (node_step (waits_for_k True))\<^sup>*\<^sup>* k_room s'
     \<longrightarrow> (\<exists>s''. node_step (waits_for_k True) s' s'') \<or> wt_phase s' = Returned True st"
proof -
  have "wc_sticky (waits_for_k True)" by (simp add: waits_for_k_def)
  moreover have "wt_phase k_room = Waiting" "entry_there (waits_for_k True) (wt_files k_room)"
    by (simp_all add: k_room_def mem_entry_there k_is_there)
  ultimately show ?thesis
    using waiting_client_is_served [OF k_room_reached _ mem_failed_read, THEN conjunct1] by simp
qed

end
