(* ===== verification/Spec2Isabelle.thy ===== *)
theory Spec2Isabelle
  imports Assembly DataChain Delivery Gossip Layout Multiplexing Repair Waiting
begin

text \<open>
  turbopump is a distributed key-value store: peers form a consistent hash ring, a key is stored
  at the peers that own it, writes are mirrored along the ring, and peers repair differences
  by comparing merkle trees. The sources are under \<^verbatim>\<open>src/lib\<close> of the repository.

  Theories, in the order they build on each other:

  \<^item> \<open>Prelude\<close>: widths of integers, exceptions as values, streams over strings, decimal numbers.
  \<^item> \<open>Wire\<close>: \<^verbatim>\<open>common/DataBuffer\<close>, \<^verbatim>\<open>peer_client/MessagePacker\<close>, \<^verbatim>\<open>peer_server/PacketParser\<close>: frames
    of two bytes of length, one byte of channel and the payload; packing and parsing are inverse.
  \<^item> \<open>Writer\<close>: \<^verbatim>\<open>peer_server/BufferedConnectionWriter\<close>, \<^verbatim>\<open>MultiplexedSocketWriter\<close>,
    \<^verbatim>\<open>ConnectionWriteStream\<close>, \<^verbatim>\<open>MultiplexedSocketPool\<close>: what reaches the socket is whole frames.
  \<^item> \<open>Clock\<close>: \<^verbatim>\<open>common/WallClock\<close>, \<^verbatim>\<open>common/VectorClock\<close>: versions, their text format, deletion marks.
  \<^item> \<open>Keys\<close>: \<^verbatim>\<open>hashing/Hash\<close>, \<^verbatim>\<open>common/MerklePoint\<close>, \<^verbatim>\<open>deskew/KeyRange\<close>.
  \<^item> \<open>Ring\<close>: \<^verbatim>\<open>hashing/ConsistentHashRing\<close>, \<^verbatim>\<open>hashing/LocateKeys\<close>: who owns a key.
  \<^item> \<open>Peers\<close>: \<^verbatim>\<open>membership/Peer\<close>, \<^verbatim>\<open>membership/KnownPeers\<close>: the directory of peers, an arena of
    references, an order, a table by name and one by address.
  \<^item> \<open>Digest\<close>: \<^verbatim>\<open>deskew/DigestTree\<close>, \<^verbatim>\<open>deskew/DigestIndexer\<close>, \<^verbatim>\<open>deskew/UniversalDigestIndexer\<close>: one
    merkle tree for each section of the ring; splitting and merging of sections.
  \<^item> \<open>Tabulator\<close>: \<^verbatim>\<open>deskew/KeyTabulator\<close>, \<^verbatim>\<open>deskew/SynchronizedKeyTabulator\<close>: one index for each number of
    copies, and the task queue in front of it.
  \<^item> \<open>Requests\<close>: the requests and tables of \<^verbatim>\<open>api/\<close>, and \<^verbatim>\<open>peer_client/MessageSender\<close>.
  \<^item> \<open>Sync\<close>: \<^verbatim>\<open>deskew/SkewCorrector\<close>, \<^verbatim>\<open>deskew/Synchronizer\<close> and the commands between peers.
  \<^item> \<open>Streams\<close>: readers, writers and streams of \<^verbatim>\<open>storage/\<close>; \<open>Files\<close>: the calls of boost and the system that
    the stores make, their laws, and a file system that meets them.
  \<^item> \<open>FileStore\<close>: \<^verbatim>\<open>storage/FileStore\<close>, a directory for each key and a file for each version; completing a
    write leaves the newest versions and accounts for them in the digest. \<open>SimpleStore\<close>: \<^verbatim>\<open>storage/SimpleFileStore\<close>.
  \<^item> \<open>Commands\<close>: the commands of users in \<^verbatim>\<open>api/\<close>; the locales \<open>byte_sink\<close> and \<open>byte_source\<close> are what they ask
    of writers and readers.
  \<^item> \<open>Callbacks\<close>: \<^verbatim>\<open>callbacks/\<close>: which peer a write goes to next, watches, changes of the membership, and the order
    of all that happens when a write ends.
  \<^item> \<open>Transfers\<close>: \<^verbatim>\<open>peer_client/WriteSupervisor\<close> and \<^verbatim>\<open>peer_client/PartialTransfers\<close>: entries copied to a
    connection, and what is left of them when it is full.
  \<^item> \<open>Server\<close>: \<^verbatim>\<open>peer_server/PeerCommandRunner\<close>, \<^verbatim>\<open>ConcurrentCommandCenter\<close>, \<^verbatim>\<open>PeerPacketHandler\<close>. The threads that
    meet in a runner are the step relation \<open>thread_step\<close>: one thread parses at a time, no buffer is left behind.
  \<^item> \<open>ReadBack\<close>: the write and the read command over the versioned store. The locale \<open>posix_files\<close> is what they rely on in a
    file system (open files, renaming, removal); what is written under a version is what is read under it.
  \<^item> \<open>Waiting\<close>: \<^verbatim>\<open>api/WaitCommand\<close> among writers, the scheduler and other clients, as the step relations \<open>node_step\<close> and
    \<open>others_step\<close>: a client that waits for an entry is not left behind once it is there.
  \<^item> \<open>Mirroring\<close>: the commands a runner starts, for what spans \<open>Transfers\<close>, \<open>Wire\<close>, \<open>Server\<close> and \<open>Commands\<close>; the
    properties that span them, from the file of one peer to the file of another, are at the end of this theory.
  \<^item> \<open>Delivery\<close>: what a connection holds after a whole entry, when its socket hands over what it is given: the request, the
    entry in pieces and, unless the buffer is filled to exactly its capacity, the empty frame at the end.
  \<^item> \<open>UserServer\<close>: \<^verbatim>\<open>user_server/\<close>: requests to commands, and one answer for each.
  \<^item> \<open>Startup\<close>: \<^verbatim>\<open>turbopump/\<close>, \<^verbatim>\<open>exe/turbopumpd\<close> and \<^verbatim>\<open>common/ProcessState\<close>, \<^verbatim>\<open>common/StatusReporter\<close>.
  \<^item> \<open>Restart\<close>: the trees of digests after the start of a node are those that the writes before it have built.
  \<^item> \<open>Exchange\<close>: requests for ranges, offers and demands between two peers, through the messages and the table of commands:
    what is handed to the supervisor of writes is exactly what the other peer lacks.
  \<^item> \<open>Gossip\<close>: the ping that starts such an exchange, and the rounds of messages in which both peers find out what to send.
  \<^item> \<open>Repair\<close>: the end of such an exchange: what the supervisor sends on a blocking stream is parsed and stored by the other
    peer, after which both agree; and what is left of a transfer that is broken off.
  \<^item> \<open>Multiplexing\<close>: several streams interleaved on one connection; the locale \<open>separate_sinks\<close> is what their writers promise
    each other.
  \<^item> \<open>Layout\<close>: the \<^verbatim>\<open>SERIALIZE\<close> lines of the requests in \<^verbatim>\<open>api/\<close>: which members a request carries, in which order, and that
    the command of its id finds them.
  \<^item> \<open>Assembly\<close>: \<^verbatim>\<open>logging/StderrLogger\<close>, the members of \<^verbatim>\<open>turbopump/App\<close> and \<^verbatim>\<open>turbopump/Turbopump\<close> in the order of their
    construction and what their initialiser lists name, and \<^verbatim>\<open>main\<close>.
  \<^item> \<open>DataChain\<close>: \<^verbatim>\<open>storage/DataChain\<close>, the versions of an entry in memory; entries are references into a heap.

  Conventions. A class is a record of its members, a method a function from the old to the new
  record. Integers are words of the width the code has. An exception is \<open>Inl\<close> of a \<open>result\<close>. Code
  outside the repository (turbolib's merkle tree, circular map, routing table, time vector, base64,
  sockets, string helpers; boost; the system calls) is a record of functions given to the definitions
  that call it; what is relied on is a named predicate on that record, and each such predicate is met
  by a concrete instance that the witnesses compute with. \<^verbatim>\<open>std::map\<close> is a red-black tree of the
  library, and \<^verbatim>\<open>std::unordered_map\<close> a function to options.

  Loops that may run on are partial functions into an option, and what ends is proved to be \<open>Some\<close>; no definition
  has fuel, except \<open>chain\<close>, which follows a write along its owners and is given one step more than there are owners.

  Each theory states its interface as a locale and interprets it on the model: framing, key owners and
  circular rings, the directory of peers, the index of digests and the forest of trees, and the contracts of
  writers, writers side by side, readers, readers that can be resumed, and files.

  Not modelled: threads other than those of a runner and of the clients that wait (the schedulers run their queues in
  order, and each access to shared data is one step), shutting down or
  dismissing a runner while its threads are at work, what the constructors of the members of \<^verbatim>\<open>App\<close> and \<^verbatim>\<open>Turbopump\<close> do
  with what they are given, the bytes msgpack makes of an array of members, printing the trees for
  debugging, and the accessors and constructors that only hand members on.
\<close>

section \<open>Mirroring an entry\<close>





text \<open>
  Over sockets that may refuse: a peer passes an entry on over an idle connection, and the receiver keeps a versioned
  store in which the version is new and not succeeded. If the end marker got into the connection, the sender has
  reported success and the receiver has stored the version with exactly the bytes of the entry, beside those of its
  versions that the new one does not succeed. Otherwise the receiver's temporary file holds a prefix of the entry,
  all of it if the sender reported success.
\<close>

lemma mirrored_entry_is_stored_or_prefix:
  assumes "seekable_source (te_ro te) left rok whole" "tries_whole (te_sock te) log"
    "al_fromString (te_addr te) (pr_address (sv_peers (pt_outside st) peer)) = Some addr" "te_getWriter te addr = Some w"
    "cw_stream log (sv_writers (pt_outside st) w) = []" "cw_capacity (sv_writers (pt_outside st) w) < 65535"
    "length (write_header (te_mpack te) write) \<le> cw_capacity (sv_writers (pt_outside st) w)"
    "rs_reader rs = Some r" "rok r (sv_files (pt_outside st))" "left r (sv_files (pt_outside st)) = content"
    "whole r (sv_files (pt_outside st)) = content" "length content < 2 ^ 31" "wr_offset write = 0"
    "unpack (WriteCommand WhenMirrorWriteFinishes) (te_mpack te (WriteReq (write_req.truncate write)))
       = Some (WriteReq (write_req.truncate write))"
    "posix_files (se_files e) beyond leftr readable data writable" "over_store ce e beyond" "leaves_files data writable (ce_mirror ce)"
    "compare_dual (se_vl e)" "traverses (se_order e)"
    "canonical (se_vl e) m" "version_name m" "version_of (se_vl e) m \<noteq> []" "\<not> older (se_vl e) m m"
    "\<forall>s \<in> set (fs_versions e (wr_name write) False f). canonical (se_vl e) s \<and> \<not> older (se_vl e) m s"
    "\<not> fs_exists e (wr_name write) m f" "\<not> isExpired (se_wall e) EXPIRY_TIMEOUT_SECONDS (version_of (se_vl e) m)"
    "wr_name write \<noteq> []" "wr_version write = m"
  shows "\<exists>h st1 res rs' st2 commands f'. WriteSupervisor_open te peer write False st = (Some h, st1)
     \<and> WriteSupervisor_store te h write rs False st1 = Some (res, rs', st2)
     \<and> parseAndRun (mirror_ops ce unpack others) sender (cw_stream log (sv_writers (pt_outside st2) w)) (\<lambda>_. None, f) = Inr (commands, f')
     \<and> (if (fst (nextActionId (sv_peers (pt_outside st) peer)), DataBuffer [])
            \<in> set (packets (DataBuffer (cw_stream log (sv_writers (pt_outside st2) w))))
        then res \<and> data (filepath e (wr_name write) m) f' = Some content
          \<and> set (fs_versions e (wr_name write) False f')
              = {s \<in> insert m (set (fs_versions e (wr_name write) False f)). \<not> older (se_vl e) s m}
        else \<exists>n. data (filepath e (wr_name write) (m @ ''~'')) f' = Some (take n content) \<and> (res \<longrightarrow> take n content = content))"
proof -
  let ?i = "fst (nextActionId (sv_peers (pt_outside st) peer))" and ?m = "te_mpack te (WriteReq (write_req.truncate write))"
  let ?q = "write_req.truncate write"
  obtain h st1 res rs' st2 cs ends where snd: "WriteSupervisor_open te peer write False st = (Some h, st1)"
    "WriteSupervisor_store te h write rs False st1 = Some (res, rs', st2)"
    "packets (DataBuffer (cw_stream log (sv_writers (pt_outside st2) w)))
      = map (\<lambda>b. (?i, DataBuffer b)) ((package (of_nat Write_INTERNAL_ID) ?m # cs) @ ends)"
    "\<forall>d \<in> set cs. d \<noteq> [] \<and> length d \<le> 0x10000" "concat cs = take (length (concat cs)) content" "res \<longrightarrow> concat cs = content"
    "ends = [] \<or> ends = [[]] \<and> res \<and> wi_isComplete write" "length ?m \<le> 65535"
    by (rule mirrored_stream [OF assms(1-13)])
  have q: "wr_name ?q = wr_name write" "wr_version ?q = m" using assms(28) by (simp_all add: write_req.truncate_def)
  have marked: "(?i, DataBuffer []) \<in> set (packets (DataBuffer (cw_stream log (sv_writers (pt_outside st2) w)))) \<longleftrightarrow> ends = [[]]"
    using snd(4,7) unfolding snd(3) by (auto simp: package_eq DataBuffer_def)
  note rcv = posix_files.mirrored_frames_stored [where req = ?q and unpack = unpack and msg = ?m and bs = cs and f = f and i = ?i
      and peer = sender and others = others, OF assms(15,16) refl assms(18-21,23), unfolded q, OF assms(24,22,25-26,17,27) refl snd(4) assms(14) snd(8)]
  show ?thesis
  proof (cases "ends = [[]]")
    case True
    then have all: "res" "concat cs = content" using snd(6,7) by auto
    obtain commands f' where r: "parseAndRun (mirror_ops ce unpack others) sender (cw_stream log (sv_writers (pt_outside st2) w)) (\<lambda>_. None, f)
          = Inr (commands, f')" "data (filepath e (wr_name write) m) f' = Some (concat cs)"
        "set (fs_versions e (wr_name write) False f') = {s \<in> insert m (set (fs_versions e (wr_name write) False f)). \<not> older (se_vl e) s m}"
      using rcv(2) True unfolding parseAndRun_def snd(3) by blast
    show ?thesis
      by (intro exI conjI, rule snd(1), rule snd(2), rule r(1)) (simp add: marked True all r(2,3))
  next
    case False
    then have "ends = []" using snd(7) by blast
    then obtain commands f' where r: "parseAndRun (mirror_ops ce unpack others) sender (cw_stream log (sv_writers (pt_outside st2) w)) (\<lambda>_. None, f)
          = Inr (commands, f')" "data (filepath e (wr_name write) (m @ ''~'')) f' = Some (concat cs)"
      using rcv(1) unfolding parseAndRun_def snd(3) by auto
    have part: "\<exists>n. data (filepath e (wr_name write) (m @ ''~'')) f' = Some (take n content) \<and> (res \<longrightarrow> take n content = content)"
      using snd(5,6) r(2) by metis
    show ?thesis
      by (intro exI conjI, rule snd(1), rule snd(2), rule r(1)) (use part in \<open>simp add: marked False\<close>)
  qed
qed




end
